(* ===== verification/GoLib.thy ===== *)
theory GoLib
  imports Main "HOL-Library.Word" "HOL-Library.Sublist"
begin

text \<open>
  What every component of the development shares: the parts of the Go language and of its
  standard library that the program uses (strings, big-endian integers, results with an
  error), a contract for fixed-width codecs with its instances, a contract for transition
  systems and their invariants, and the named collections of simplification rules.

  Go strings and byte slices: a Go string is a sequence of bytes, so host names are
  \<open>string\<close> (a list of 8-bit characters); binary data is a list of \<open>byte\<close>.
\<close>

named_theorems go_str \<open>laws of the Go string functions\<close>
named_theorems go_codec \<open>lengths and round trips of the integer codecs\<close>

section \<open>Types\<close>

type_synonym byte = "8 word"
type_synonym bytes = "8 word list"
type_synonym u8 = "8 word"
type_synonym u16 = "16 word"
type_synonym u32 = "32 word"
type_synonym u64 = "64 word"

section \<open>Fallible calls\<close>

text \<open>A call that returns \<open>(value, err)\<close> is a sum: \<open>Inl\<close> for a non-nil error.\<close>

definition rbind :: "'e + 'a \<Rightarrow> ('a \<Rightarrow> 'e + 'b) \<Rightarrow> 'e + 'b" where
  "rbind r f = (case r of Inl e \<Rightarrow> Inl e | Inr a \<Rightarrow> f a)"

lemma rbind_simps [simp]: "rbind (Inl e) f = Inl e" "rbind (Inr a) f = f a"
  by (simp_all add: rbind_def)

lemma rbind_Inr_iff: "rbind r f = Inr b \<longleftrightarrow> (\<exists>a. r = Inr a \<and> f a = Inr b)"
  by (cases r) auto

lemma rbind_Inl_iff: "rbind r f = Inl e \<longleftrightarrow> r = Inl e \<or> (\<exists>a. r = Inr a \<and> f a = Inl e)"
  by (cases r) auto

definition is_ok :: "'e + 'a \<Rightarrow> bool" where
  "is_ok r = (case r of Inl _ \<Rightarrow> False | Inr _ \<Rightarrow> True)"

lemma is_ok_simps [simp]: "\<not> is_ok (Inl e)" "is_ok (Inr a)"
  by (simp_all add: is_ok_def)

lemma is_ok_iff: "is_ok r \<longleftrightarrow> (\<exists>a. r = Inr a)"
  by (cases r) auto

section \<open>Strings\<close>

abbreviation HasPrefix :: "'a list \<Rightarrow> 'a list \<Rightarrow> bool" where
  "HasPrefix s p \<equiv> prefix p s"

abbreviation HasSuffix :: "'a list \<Rightarrow> 'a list \<Rightarrow> bool" where
  "HasSuffix s p \<equiv> suffix p s"

definition TrimSuffix :: "'a list \<Rightarrow> 'a list \<Rightarrow> 'a list" where
  "TrimSuffix s x = (if HasSuffix s x then take (length s - length x) s else s)"

definition TrimPrefix :: "'a list \<Rightarrow> 'a list \<Rightarrow> 'a list" where
  "TrimPrefix s x = (if HasPrefix s x then drop (length x) s else s)"

text \<open>\<open>strings.LastIndex\<close>; \<open>None\<close> stands for the result -1.\<close>

fun LastIndex :: "'a list \<Rightarrow> 'a list \<Rightarrow> nat option" where
  "LastIndex [] x = (if x = [] then Some 0 else None)"
| "LastIndex (c # cs) x =
     (case LastIndex cs x of
        Some i \<Rightarrow> Some (Suc i)
      | None \<Rightarrow> (if prefix x (c # cs) then Some 0 else None))"

text \<open>\<open>strings.IndexByte\<close>; \<open>None\<close> stands for the result -1.\<close>

fun IndexByte :: "'a list \<Rightarrow> 'a \<Rightarrow> nat option" where
  "IndexByte [] x = None"
| "IndexByte (c # cs) x = (if c = x then Some 0 else map_option Suc (IndexByte cs x))"

text \<open>\<open>strings.Split\<close> with a separator of one byte, and \<open>strings.Join\<close>.\<close>

fun Split :: "'a \<Rightarrow> 'a list \<Rightarrow> 'a list list" where
  "Split c [] = [[]]"
| "Split c (x # xs) =
     (if x = c then [] # Split c xs
      else (case Split c xs of [] \<Rightarrow> [[x]] | y # ys \<Rightarrow> (x # y) # ys))"

fun Join :: "'a list \<Rightarrow> 'a list list \<Rightarrow> 'a list" where
  "Join sep [] = []"
| "Join sep [x] = x"
| "Join sep (x # y # ys) = x @ sep @ Join sep (y # ys)"

definition ToLowerByte :: "char \<Rightarrow> char" where
  "ToLowerByte c = (let n = (of_char c :: nat) in if 65 \<le> n \<and> n \<le> 90 then char_of (n + 32) else c)"

text \<open>\<open>strings.EqualFold\<close> on ASCII text (HTTP header names are ASCII tokens).\<close>

definition EqualFold :: "string \<Rightarrow> string \<Rightarrow> bool" where
  "EqualFold s t \<longleftrightarrow> map ToLowerByte s = map ToLowerByte t"

lemma TrimSuffix_append [simp, go_str]: "TrimSuffix (s @ x) x = s"
  by (simp add: TrimSuffix_def suffix_def)

lemma TrimSuffix_id: "\<not> suffix x s \<Longrightarrow> TrimSuffix s x = s"
  by (simp add: TrimSuffix_def)

lemma TrimPrefix_append [simp, go_str]: "TrimPrefix (p @ s) p = s"
  by (simp add: TrimPrefix_def)

lemma Split_not_Nil [simp]: "Split c s \<noteq> []"
  by (cases s) (auto split: list.splits)

lemma Join_Cons: "ys \<noteq> [] \<Longrightarrow> Join sep (x # ys) = x @ sep @ Join sep ys"
  by (cases ys) auto

lemma Join_append:
  "xs \<noteq> [] \<Longrightarrow> ys \<noteq> [] \<Longrightarrow> Join sep (xs @ ys) = Join sep xs @ sep @ Join sep ys"
proof (induction xs)
  case (Cons x xs)
  then show ?case by (cases "xs = []") (simp_all add: Join_Cons)
qed simp

lemma Join_Split [simp, go_str]: "Join [c] (Split c s) = s"
proof (induction s)
  case (Cons x xs)
  show ?case
  proof (cases "Split c xs")
    case (Cons y ys)
    with Cons.IH show ?thesis by (cases ys) (auto simp: Join_Cons)
  qed simp
qed simp

lemma Split_prefix: "c \<notin> set x \<Longrightarrow> Split c (x @ c # s) = x # Split c s"
  by (induction x) auto

lemma Split_single: "c \<notin> set x \<Longrightarrow> Split c x = [x]"
  by (induction x) auto

lemma Split_Join [go_str]:
  "xs \<noteq> [] \<Longrightarrow> \<forall>x \<in> set xs. c \<notin> set x \<Longrightarrow> Split c (Join [c] xs) = xs"
proof (induction xs)
  case (Cons x xs)
  then show ?case by (cases "xs = []") (simp_all add: Join_Cons Split_prefix Split_single)
qed simp

lemma Split_sep_free: "x \<in> set (Split c s) \<Longrightarrow> c \<notin> set x"
  by (induction s arbitrary: x) (fastforce split: if_splits list.splits)+

lemma Split_append: "Split c (u @ c # w) = Split c u @ Split c w"
  by (induction u) (auto split: list.splits)

text \<open>A part enclosed by separators is one of the parts after the first.\<close>

lemma sublist_dots_Split:
  assumes "sublist (c # x @ [c]) s" and "c \<notin> set x"
  shows "x \<in> set (tl (Split c s))"
proof -
  from assms(1) obtain u v where "s = u @ c # (x @ c # v)" by (auto simp: sublist_def)
  then have "Split c s = Split c u @ x # Split c v"
    using assms(2) by (simp add: Split_append Split_single)
  then show ?thesis by (cases "Split c u") auto
qed

lemma LastIndex_None_iff: "LastIndex s x = None \<longleftrightarrow> \<not> sublist x s"
  by (induction s) (auto simp: sublist_Cons_right split: option.splits)

text \<open>
  The last occurrence of \<open>x\<close> in \<open>a @ x @ b\<close> is at \<open>length a\<close> when none starts later.
\<close>

lemma LastIndex_append:
  assumes "\<not> sublist x (tl (x @ b))" and "x \<noteq> []"
  shows "LastIndex (a @ x @ b) x = Some (length a)"
proof (induction a)
  case Nil
  obtain c cs where x: "x = c # cs" using assms(2) by (cases x) auto
  with assms(1) have "LastIndex (cs @ b) x = None" by (simp add: LastIndex_None_iff)
  with x show ?case by simp
qed simp

lemma LastIndex_SomeD:
  "LastIndex s x = Some i \<Longrightarrow> i + length x \<le> length s \<and> take (length x) (drop i s) = x"
proof (induction s arbitrary: i)
  case (Cons c cs)
  show ?case
  proof (cases "LastIndex cs x")
    case None
    with Cons.prems have i: "i = 0" and p: "prefix x (c # cs)" by (auto split: if_splits)
    from p obtain r where r: "c # cs = x @ r" by (auto elim: prefixE)
    then have "length (c # cs) = length x + length r" by (metis length_append)
    with i show ?thesis using r by (metis add.left_neutral append_eq_conv_conj drop_0 le_add1)
  next
    case (Some j)
    with Cons.prems Cons.IH[of j] show ?thesis by auto
  qed
qed (auto split: if_splits)

lemma LastIndex_split: "LastIndex s x = Some i \<Longrightarrow> s = take i s @ x @ drop (i + length x) s"
  using LastIndex_SomeD[of s x i]
  by (metis add.commute append_take_drop_id drop_drop)

lemma LastIndex_last: "LastIndex s x = Some i \<Longrightarrow> x \<noteq> [] \<Longrightarrow> \<not> sublist x (drop (Suc i) s)"
proof (induction s arbitrary: i)
  case (Cons c cs)
  show ?case
  proof (cases "LastIndex cs x")
    case None
    with Cons.prems show ?thesis by (auto simp: LastIndex_None_iff split: if_splits)
  next
    case (Some j)
    with Cons.prems Cons.IH[of j] show ?thesis by auto
  qed
qed (auto split: if_splits)

lemma sublist_middle: "sublist x m \<Longrightarrow> sublist x (a @ m @ b)"
  by (meson sublist_appendI sublist_order.order_trans)

lemma Join_part_sublist:
  "x \<in> set xs \<Longrightarrow> sublist (c # x @ [c]) (c # Join [c] xs @ [c])"
proof (induction xs)
  case (Cons y ys)
  show ?case
  proof (cases "x = y")
    case True
    show ?thesis
    proof (cases "ys = []")
      case False
      have eq: "c # Join [c] (y # ys) @ [c] = [] @ (c # x @ [c]) @ (Join [c] ys @ [c])"
        using True False by (simp add: Join_Cons)
      show ?thesis unfolding eq by (rule sublist_appendI)
    qed (simp add: True)
  next
    case False
    with Cons have ys: "ys \<noteq> []" and sub: "sublist (c # x @ [c]) (c # Join [c] ys @ [c])"
      by (cases ys; simp)+
    have eq: "c # Join [c] (y # ys) @ [c] = (c # y) @ (c # Join [c] ys @ [c]) @ []"
      using ys by (simp add: Join_Cons)
    show ?thesis unfolding eq using sub by (rule sublist_middle)
  qed
qed simp

section \<open>Big-endian integers\<close>

text \<open>
  \<open>encoding/binary.BigEndian\<close>. \<open>PutUintN\<close> gives the bytes it stores at the start of its
  buffer; \<open>UintN\<close> reads the first bytes of its argument and panics on a shorter one
  (callers here always pass enough bytes, which their own definitions check).
\<close>

definition PutUint16 :: "u16 \<Rightarrow> bytes" where
  "PutUint16 v = [ucast (drop_bit 8 v), ucast v]"

definition PutUint32 :: "u32 \<Rightarrow> bytes" where
  "PutUint32 v = [ucast (drop_bit 24 v), ucast (drop_bit 16 v), ucast (drop_bit 8 v), ucast v]"

definition PutUint64 :: "u64 \<Rightarrow> bytes" where
  "PutUint64 v =
     [ucast (drop_bit 56 v), ucast (drop_bit 48 v), ucast (drop_bit 40 v), ucast (drop_bit 32 v),
      ucast (drop_bit 24 v), ucast (drop_bit 16 v), ucast (drop_bit 8 v), ucast v]"

unbundle bit_operations_syntax

definition Uint16 :: "bytes \<Rightarrow> u16" where
  "Uint16 b = (ucast (b ! 1) OR push_bit 8 (ucast (b ! 0)))"

definition Uint32 :: "bytes \<Rightarrow> u32" where
  "Uint32 b = (ucast (b ! 3) OR push_bit 8 (ucast (b ! 2)) OR
     push_bit 16 (ucast (b ! 1)) OR push_bit 24 (ucast (b ! 0)))"

definition Uint64 :: "bytes \<Rightarrow> u64" where
  "Uint64 b = (ucast (b ! 7) OR push_bit 8 (ucast (b ! 6)) OR
     push_bit 16 (ucast (b ! 5)) OR push_bit 24 (ucast (b ! 4)) OR
     push_bit 32 (ucast (b ! 3)) OR push_bit 40 (ucast (b ! 2)) OR
     push_bit 48 (ucast (b ! 1)) OR push_bit 56 (ucast (b ! 0)))"

text \<open>Reading the bytes back puts the word together eight bits at a time.\<close>

lemma byte_low: "ucast (ucast v :: byte) = take_bit 8 v" for v :: "'a::len word"
  by (rule bit_word_eqI) (auto simp: bit_simps)

lemma byte_next:
  "take_bit m v OR push_bit m (take_bit 8 (drop_bit m v)) = take_bit (m + 8) v"
  for v :: "'a::len word"
proof (rule bit_word_eqI)
  fix n assume n: "n < LENGTH('a)"
  consider "n < m" | "m \<le> n" "n < m + 8" | "m + 8 \<le> n" by linarith
  then show "bit (take_bit m v OR push_bit m (take_bit 8 (drop_bit m v))) n
      = bit (take_bit (m + 8) v) n"
    by cases (use n in \<open>auto simp: bit_simps less_diff_conv2\<close>)
qed

lemma take_bit_full: "take_bit LENGTH('a) v = v" for v :: "'a::len word"
  by (rule bit_word_eqI) (simp add: bit_simps)

section \<open>The contract of a fixed-width codec\<close>

text \<open>
  A codec writes \<open>width\<close> bytes and reads them back from the front of a longer buffer. The
  laws are the ones its clients (file headers, nonces, store keys, key ids) rely on.
\<close>

locale fixed_codec =
  fixes width :: nat
    and enc :: "'a \<Rightarrow> bytes"
    and dec :: "bytes \<Rightarrow> 'a"
  assumes enc_length: "length (enc v) = width"
    and dec_enc_append: "dec (enc v @ rest) = v"
begin

lemma dec_enc: "dec (enc v) = v"
  using dec_enc_append[of v "[]"] by simp

lemma enc_inject: "enc v = enc w \<longleftrightarrow> v = w"
  by (metis dec_enc)

lemma enc_append_inject: "enc v @ r = enc w @ s \<longleftrightarrow> v = w \<and> r = s"
  by (metis append_eq_append_conv dec_enc enc_length)

lemma prefixed_inject: "p @ enc v = p @ enc w \<longleftrightarrow> v = w"
  by (simp add: enc_inject)

lemma read_at: "length p = n \<Longrightarrow> dec (drop n (p @ enc v @ rest)) = v"
  by (simp add: dec_enc_append)

end

interpretation be16: fixed_codec 2 PutUint16 Uint16
proof
  show "length (PutUint16 v) = 2" for v
    by (simp add: PutUint16_def)
  show "Uint16 (PutUint16 v @ rest) = v" for v rest
    using take_bit_full[of v]
    by (simp add: PutUint16_def Uint16_def byte_low or.assoc [symmetric] byte_next[of 8 v])
qed

interpretation be32: fixed_codec 4 PutUint32 Uint32
proof
  show "length (PutUint32 v) = 4" for v
    by (simp add: PutUint32_def)
  show "Uint32 (PutUint32 v @ rest) = v" for v rest
    using take_bit_full[of v]
    by (simp add: PutUint32_def Uint32_def byte_low or.assoc [symmetric] byte_next[of 8 v] byte_next[of 16 v] byte_next[of 24 v])
qed

interpretation be64: fixed_codec 8 PutUint64 Uint64
proof
  show "length (PutUint64 v) = 8" for v
    by (simp add: PutUint64_def)
  show "Uint64 (PutUint64 v @ rest) = v" for v rest
    using take_bit_full[of v]
    by (simp add: PutUint64_def Uint64_def byte_low or.assoc [symmetric] byte_next[of 8 v] byte_next[of 16 v] byte_next[of 24 v] byte_next[of 32 v] byte_next[of 40 v] byte_next[of 48 v] byte_next[of 56 v])
qed

lemmas be_lengths [simp, go_codec] = be16.enc_length be32.enc_length be64.enc_length
lemmas be_reads [simp, go_codec] = be16.dec_enc_append be32.dec_enc_append be64.dec_enc_append
  be16.dec_enc be32.dec_enc be64.dec_enc

section \<open>Transition systems\<close>

text \<open>
  Reachable states of a step relation, and the contract of an inductive invariant: the start
  state has it and every step keeps it. Each concurrent component interprets the contract on
  its own step relation.
\<close>

inductive reach :: "('s \<Rightarrow> 's \<Rightarrow> bool) \<Rightarrow> 's \<Rightarrow> 's \<Rightarrow> bool" for step s0 where
  reach_refl: "reach step s0 s0"
| reach_step: "reach step s0 s \<Longrightarrow> step s t \<Longrightarrow> reach step s0 t"

lemma reach_trans: "reach step a b \<Longrightarrow> reach step b c \<Longrightarrow> reach step a c"
  by (rotate_tac 1, induction rule: reach.induct) (auto intro: reach.intros)

lemma reach_first: "step a b \<Longrightarrow> reach step b c \<Longrightarrow> reach step a c"
  by (blast intro: reach_trans reach_refl reach_step)

lemma reach_relpowp: "(step ^^ n) a b \<Longrightarrow> reach step a b"
  by (induction n arbitrary: b) (auto intro: reach_refl reach_step)

locale invariant_system =
  fixes step :: "'s \<Rightarrow> 's \<Rightarrow> bool"
    and start :: "'s \<Rightarrow> bool"
    and inv :: "'s \<Rightarrow> bool"
  assumes inv_start: "start s \<Longrightarrow> inv s"
    and inv_step: "inv s \<Longrightarrow> step s t \<Longrightarrow> inv t"
begin

lemma inv_reach: "reach step s t \<Longrightarrow> inv s \<Longrightarrow> inv t"
  by (induction rule: reach.induct) (auto intro: inv_step)

lemma inv_reachable: "start s \<Longrightarrow> reach step s t \<Longrightarrow> inv t"
  by (blast intro: inv_reach inv_start)

end

end
