(* ===== verification/GoNet.thy ===== *)
theory GoNet
  imports GoLib
begin

text \<open>
  The functions of Go's \<open>net\<close> and \<open>net/http\<close> packages the program builds on, modelled from the
  language's standard library: splitting and joining of \<open>host:port\<close>, comparison of IP
  addresses, membership in an IP network, and HTTP headers. The lemmas are the laws the
  components use.
\<close>

section \<open>Host and port\<close>

datatype addr_error = MissingPort | TooManyColons | MissingBracket | UnexpectedOpen | UnexpectedClose

text \<open>\<open>net.SplitHostPort\<close>, check by check.\<close>

definition SplitHostPort :: "string \<Rightarrow> addr_error + (string \<times> string)" where
  "SplitHostPort hostport =
     (case LastIndex hostport '':'' of
        None \<Rightarrow> Inl MissingPort
      | Some i \<Rightarrow>
          rbind
            (if hd hostport = CHR ''['' then
               (case IndexByte hostport CHR '']'' of
                  None \<Rightarrow> Inl MissingBracket
                | Some end \<Rightarrow>
                    if Suc end = length hostport then Inl MissingPort
                    else if Suc end = i then Inr (take (end - 1) (drop 1 hostport), 1, Suc end)
                    else if hostport ! Suc end = CHR '':'' then Inl TooManyColons
                    else Inl MissingPort)
             else if CHR '':'' \<in> set (take i hostport) then Inl TooManyColons
             else Inr (take i hostport, 0, 0))
            (\<lambda>(host, j, k).
               if CHR ''['' \<in> set (drop j hostport) then Inl UnexpectedOpen
               else if CHR '']'' \<in> set (drop k hostport) then Inl UnexpectedClose
               else Inr (host, drop (Suc i) hostport)))"

definition JoinHostPort :: "string \<Rightarrow> string \<Rightarrow> string" where
  "JoinHostPort host port =
     (if CHR '':'' \<in> set host then ''['' @ host @ '']:'' @ port else host @ '':'' @ port)"

text \<open>A host name or a port without the bytes that \<open>host:port\<close> gives a meaning.\<close>

definition plain_part :: "string \<Rightarrow> bool" where
  "plain_part s \<longleftrightarrow> CHR '':'' \<notin> set s \<and> CHR ''['' \<notin> set s \<and> CHR '']'' \<notin> set s"

lemma LastIndex_single_last: "c \<notin> set b \<Longrightarrow> LastIndex (a @ c # b) [c] = Some (length a)"
  using LastIndex_append[of "[c]" b a] by (simp add: sublist_Cons_right sublist_def split_list_first)
    (metis append_Cons append_Nil in_set_conv_decomp)

lemma LastIndex_single_None: "c \<notin> set s \<Longrightarrow> LastIndex s [c] = None"
  by (simp add: LastIndex_None_iff) (metis in_set_conv_decomp sublist_def append_Cons append_Nil)

lemma SplitHostPort_no_colon: "CHR '':'' \<notin> set s \<Longrightarrow> SplitHostPort s = Inl MissingPort"
  by (simp add: SplitHostPort_def LastIndex_single_None)

lemma SplitHostPort_plain:
  assumes "plain_part host" and "plain_part port"
  shows "SplitHostPort (host @ CHR '':'' # port) = Inr (host, port)"
proof -
  have i: "LastIndex (host @ CHR '':'' # port) '':'' = Some (length host)"
    using assms by (intro LastIndex_single_last) (simp add: plain_part_def)
  have h: "hd (host @ CHR '':'' # port) \<noteq> CHR ''[''"
    using assms by (cases host) (auto simp: plain_part_def)
  show ?thesis
    using assms by (simp add: SplitHostPort_def i h plain_part_def)
qed

lemma IndexByte_append: "c \<notin> set a \<Longrightarrow> IndexByte (a @ c # b) c = Some (length a)"
  by (induction a) auto

lemma SplitHostPort_bracketed:
  assumes "CHR ''['' \<notin> set host" "CHR '']'' \<notin> set host" and "plain_part port"
  shows "SplitHostPort (''['' @ host @ '']:'' @ port) = Inr (host, port)"
proof -
  let ?s = "''['' @ host @ '']:'' @ port"
  have "LastIndex ((''['' @ host @ '']'') @ CHR '':'' # port) [CHR '':''] = Some (length (''['' @ host @ '']''))"
    using assms(3) by (intro LastIndex_single_last) (simp add: plain_part_def)
  then have i: "LastIndex ?s '':'' = Some (Suc (Suc (length host)))" by simp
  have "IndexByte ((CHR ''['' # host) @ CHR '']'' # ('':'' @ port)) CHR '']'' = Some (length (CHR ''['' # host))"
    using assms(2) by (intro IndexByte_append) simp
  then have e: "IndexByte ?s CHR '']'' = Some (Suc (length host))" by simp
  have d: "drop (Suc (Suc (length host))) ?s = CHR '':'' # port" by simp
  have d3: "drop (Suc (Suc (Suc (length host)))) ?s = port" by simp
  have t: "take (length host) (drop 1 ?s) = host" by simp
  have no_open: "CHR ''['' \<notin> set (drop 1 ?s)"
    using assms by (simp add: plain_part_def)
  have no_close: "CHR '']'' \<notin> set (CHR '':'' # port)"
    using assms by (simp add: plain_part_def)
  show ?thesis
    unfolding SplitHostPort_def i e using no_open no_close by (simp add: i)
qed

text \<open>Joining and splitting are inverse on bracket-free hosts and plain ports.\<close>

lemma Split_JoinHostPort:
  assumes "CHR ''['' \<notin> set host" "CHR '']'' \<notin> set host" and "plain_part port"
  shows "SplitHostPort (JoinHostPort host port) = Inr (host, port)"
  using assms SplitHostPort_bracketed SplitHostPort_plain[of host port]
  by (simp add: JoinHostPort_def plain_part_def)

section \<open>IP addresses\<close>

text \<open>\<open>net.IP\<close> is a byte slice of length 4 or 16; the nil slice is the empty list.\<close>

type_synonym ip = bytes

definition v4InV6Prefix :: bytes where
  "v4InV6Prefix = replicate 10 0 @ [255, 255]"

definition IP_To4 :: "ip \<Rightarrow> ip option" where
  "IP_To4 ip =
     (if length ip = 4 then Some ip
      else if length ip = 16 \<and> take 12 ip = v4InV6Prefix then Some (drop 12 ip)
      else None)"

definition IP_Equal :: "ip \<Rightarrow> ip \<Rightarrow> bool" where
  "IP_Equal ip x =
     (if length ip = length x then ip = x
      else if length ip = 4 \<and> length x = 16 then take 12 x = v4InV6Prefix \<and> ip = drop 12 x
      else if length ip = 16 \<and> length x = 4 then take 12 ip = v4InV6Prefix \<and> drop 12 ip = x
      else False)"

record ipnet =
  net_IP :: ip
  net_Mask :: bytes

definition networkNumberAndMask :: "ipnet \<Rightarrow> bytes \<times> bytes" where
  "networkNumberAndMask n =
     (case (case IP_To4 (net_IP n) of Some x \<Rightarrow> Some x
            | None \<Rightarrow> if length (net_IP n) = 16 then Some (net_IP n) else None) of
        None \<Rightarrow> ([], [])
      | Some ip \<Rightarrow>
          if length (net_Mask n) = 4 then (if length ip \<noteq> 4 then ([], []) else (ip, net_Mask n))
          else if length (net_Mask n) = 16 then
            (ip, if length ip = 4 then drop 12 (net_Mask n) else net_Mask n)
          else ([], []))"

definition IPNet_Contains :: "ipnet \<Rightarrow> ip \<Rightarrow> bool" where
  "IPNet_Contains n ip =
     (let (nn, m) = networkNumberAndMask n;
          ip = (case IP_To4 ip of Some x \<Rightarrow> x | None \<Rightarrow> ip)
      in length ip = length nn \<and>
         list_all (\<lambda>i. (nn ! i) AND (m ! i) = (ip ! i) AND (m ! i)) [0 ..< length ip])"

text \<open>A network as \<open>net.ParseCIDR\<close> returns it: address and mask of one family.\<close>

definition ipnet_ok :: "ipnet \<Rightarrow> bool" where
  "ipnet_ok n \<longleftrightarrow> (length (net_IP n) = 4 \<and> length (net_Mask n) = 4) \<or>
     (length (net_IP n) = 16 \<and> length (net_Mask n) = 16)"

text \<open>The 16-byte form of a 4-byte address.\<close>

definition to16 :: "ip \<Rightarrow> ip" where
  "to16 ip = (if length ip = 4 then v4InV6Prefix @ ip else ip)"

lemma v4InV6Prefix_length [simp]: "length v4InV6Prefix = 12"
  by (simp add: v4InV6Prefix_def)

lemma IP_To4_to16: "IP_To4 (to16 x) = IP_To4 x"
  by (auto simp: IP_To4_def to16_def)

lemma IPNet_Contains_to16: "IPNet_Contains n (to16 x) = IPNet_Contains n x"
proof (cases "length x = 4")
  case True
  then have "IP_To4 (to16 x) = Some x" "IP_To4 x = Some x" by (auto simp: IP_To4_def to16_def)
  then show ?thesis by (simp add: IPNet_Contains_def)
qed (simp add: to16_def)

lemma IP_Equal_to16:
  assumes "length a = 4 \<or> length a = 16"
  shows "IP_Equal a (to16 x) = IP_Equal a x"
proof (cases "length x = 4")
  case True
  show ?thesis
  proof (cases "length a = 4")
    case False
    with assms have a: "length a = 16" by simp
    have "a = v4InV6Prefix @ x \<longleftrightarrow> take 12 a = v4InV6Prefix \<and> drop 12 a = x"
      by (metis append_take_drop_id append_eq_conv_conj v4InV6Prefix_length)
    with a True show ?thesis by (simp add: IP_Equal_def to16_def)
  qed (use True in \<open>simp add: IP_Equal_def to16_def\<close>)
qed (simp add: to16_def)

lemma networkNumber_nonempty: "ipnet_ok n \<Longrightarrow> fst (networkNumberAndMask n) \<noteq> []"
  by (auto simp: ipnet_ok_def networkNumberAndMask_def IP_To4_def)

lemma IPNet_Contains_nil: "ipnet_ok n \<Longrightarrow> \<not> IPNet_Contains n []"
  using networkNumber_nonempty[of n]
  by (auto simp: IPNet_Contains_def IP_To4_def split: prod.splits)

section \<open>HTTP headers\<close>

text \<open>
  \<open>http.Header\<close> is a map from header names to value lists; a nil map is \<open>None\<close>. The program
  only uses names in canonical form, on which \<open>Get\<close>, \<open>Set\<close> and \<open>Del\<close> are plain map operations.
  Reading a nil map finds nothing, deleting from it does nothing, and storing into it panics.
\<close>

type_synonym header = "(string \<times> string list) list"

definition Header_del :: "string \<Rightarrow> header \<Rightarrow> header" where
  "Header_del k h = filter (\<lambda>(k', _). k' \<noteq> k) h"

definition Header_set :: "string \<Rightarrow> string \<Rightarrow> header \<Rightarrow> header" where
  "Header_set k v h = (k, [v]) # Header_del k h"

definition Header_get :: "string \<Rightarrow> header \<Rightarrow> string" where
  "Header_get k h = (case map_of h k of Some (v # _) \<Rightarrow> v | _ \<Rightarrow> [])"

lemma map_of_Header_del [simp]: "map_of (Header_del k h) = (map_of h)(k := None)"
  by (induction h) (auto simp: Header_del_def fun_eq_iff)

lemma map_of_Header_set [simp]: "map_of (Header_set k v h) = (map_of h)(k \<mapsto> [v])"
  by (simp add: Header_set_def)

lemma Header_get_set: "Header_get k (Header_set k' v h) = (if k = k' then v else Header_get k h)"
  by (simp add: Header_get_def)

lemma Header_get_del: "Header_get k (Header_del k' h) = (if k = k' then [] else Header_get k h)"
  by (simp add: Header_get_def)

end
