(* ===== verification/Netutil.thy ===== *)
theory Netutil
  imports GoNet
begin

text \<open>
  \<open>src/pkg/netutil\<close>: the accept loop with back-off and the completion of authorities
  (\<open>util.go\<close>), the copy loop with and without periodic flushing (\<open>flushcopy.go\<close>), the response
  writer that turns a handler into a round trip (\<open>handlertransport.go\<close>) and the one that writes
  a response to a raw connection (\<open>response.go\<close>).
\<close>

section \<open>util.go\<close>

subsection \<open>SimpleServe\<close>

text \<open>
  What \<open>listener.Accept\<close> may return, and what the loop does: sleep, hand a connection to a new
  goroutine, or return the error. \<open>tempDelay\<close> is a \<open>time.Duration\<close>, in nanoseconds. The list is
  the sequence of results of \<open>Accept\<close>; at its end the loop is still waiting in \<open>Accept\<close>.
\<close>

datatype ('c, 'e) accept_result = Accepted 'c | TempErr 'e | FatalErr 'e

datatype ('c, 'e) serve_event = Sleep int | ServeConn 'c | Return 'e

definition Millisecond :: int where "Millisecond = 1000000"
definition Second :: int where "Second = 1000 * Millisecond"

fun SimpleServe :: "int \<Rightarrow> ('c, 'e) accept_result list \<Rightarrow> ('c, 'e) serve_event list" where
  "SimpleServe tempDelay [] = []"
| "SimpleServe tempDelay (TempErr e # rs) =
     (let d = (if tempDelay = 0 then 5 * Millisecond else tempDelay * 2);
          d = (if d > 1 * Second then 1 * Second else d)
      in Sleep d # SimpleServe d rs)"
| "SimpleServe tempDelay (FatalErr e # rs) = [Return e]"
| "SimpleServe tempDelay (Accepted c # rs) = ServeConn c # SimpleServe 0 rs"

subsection \<open>AuthorityAddrFull\<close>

text \<open>\<open>idna.ToASCII\<close> is not part of the repository: it is the parameter \<open>toASCII\<close>.\<close>

definition AuthorityAddrFull ::
  "(string \<Rightarrow> 'e + string) \<Rightarrow> string \<Rightarrow> string \<Rightarrow> string \<times> string \<times> string" where
  "AuthorityAddrFull toASCII scheme authority =
     (let (host, port) =
        (case SplitHostPort authority of
           Inr (host, port) \<Rightarrow> (host, port)
         | Inl _ \<Rightarrow> (authority, if scheme = ''ws'' \<or> scheme = ''http'' then ''80'' else ''443''));
        host = (case toASCII host of Inr a \<Rightarrow> a | Inl _ \<Rightarrow> host)
      in if HasPrefix host ''['' \<and> HasSuffix host '']'' then (host @ '':'' @ port, host, port)
         else (JoinHostPort host port, host, port))"

section \<open>flushcopy.go\<close>

datatype io_error = EOF | ErrUnexpectedEOF | ErrShortWrite | OtherErr string

text \<open>
  \<open>io.Reader\<close> and \<open>io.Writer\<close> are functions on the state of the reader and of the writer:
  \<open>read r n\<close> fills a buffer of \<open>n\<close> bytes, \<open>write w p\<close> returns how many bytes it took.
\<close>

type_synonym 'r io_reader = "'r \<Rightarrow> nat \<Rightarrow> bytes \<times> io_error option \<times> 'r"
type_synonym 'w io_writer = "'w \<Rightarrow> bytes \<Rightarrow> int \<times> io_error option \<times> 'w"

text \<open>The loop of \<open>copyBuffer\<close>; \<open>None\<close> when it does not return.\<close>

partial_function (option) copy_loop ::
  "'r io_reader \<Rightarrow> 'w io_writer \<Rightarrow> nat \<Rightarrow> int \<Rightarrow> 'r \<Rightarrow> 'w \<Rightarrow> (int \<times> io_error option \<times> 'r \<times> 'w) option" where
  "copy_loop read write buflen written r w =
     (case read r buflen of (data, rerr, r') \<Rightarrow>
        (case (if data \<noteq> [] then
                 (case write w data of (nw, werr, w') \<Rightarrow>
                    (let written' = (if nw > 0 then written + nw else written) in
                     (written', w',
                      if werr \<noteq> None then Some werr
                      else if int (length data) \<noteq> nw then Some (Some ErrShortWrite) else None)))
               else (written, w, None)) of
           (written', w', Some err) \<Rightarrow> Some (written', err, r', w')
         | (written', w', None) \<Rightarrow>
             (case rerr of
                Some e \<Rightarrow> Some (written', if e = EOF then None else Some e, r', w')
              | None \<Rightarrow> copy_loop read write buflen written' r' w')))"

definition copyBuffer ::
  "'r io_reader \<Rightarrow> 'w io_writer \<Rightarrow> bytes \<Rightarrow> 'r \<Rightarrow> 'w \<Rightarrow> (int \<times> io_error option \<times> 'r \<times> 'w) option" where
  "copyBuffer read write buf r w =
     copy_loop read write (if length buf = 0 then 32 * 1024 else length buf) 0 r w"

text \<open>
  \<open>CopyBufferFlush\<close>: a destination that can flush is wrapped in a \<open>maxLatencyWriter\<close>, whose
  background goroutine flushes it from time to time. Writes and flushes exclude each other by
  the mutex, so what the destination sees is the writes with flushes between them: \<open>ticks\<close> says
  how many flushes the scheduler fits in before each write.
\<close>

definition mlw_Write :: "('w \<Rightarrow> 'w) \<Rightarrow> 'w io_writer \<Rightarrow> (nat list \<times> 'w) io_writer" where
  "mlw_Write flush write = (\<lambda>(ticks, w) p.
     (case ticks of
        [] \<Rightarrow> (case write w p of (n, err, w') \<Rightarrow> (n, err, [], w'))
      | t # ts \<Rightarrow> (case write ((flush ^^ t) w) p of (n, err, w') \<Rightarrow> (n, err, ts, w'))))"

text \<open>
  A copy returns, goes on for ever, or panics. \<open>io.CopyBuffer\<close> panics when it is given a buffer (not nil, which is \<open>None\<close> here)
  without room. That it may call methods of the source and the destination that do the same is left out.
\<close>

datatype ('r, 'w) copy_out = CopyRet int "io_error option" 'r 'w | CopyHangs | CopyPanic

definition copy_result :: "(int \<times> io_error option \<times> 'r \<times> 'w) option \<Rightarrow> ('r, 'w) copy_out" where
  "copy_result x = (case x of None \<Rightarrow> CopyHangs | Some (n, e, r, w) \<Rightarrow> CopyRet n e r w)"

definition slice_bytes :: "bytes option \<Rightarrow> bytes" where
  "slice_bytes buf = (case buf of None \<Rightarrow> [] | Some b \<Rightarrow> b)"

definition io_CopyBuffer :: "'r io_reader \<Rightarrow> 'w io_writer \<Rightarrow> bytes option \<Rightarrow> 'r \<Rightarrow> 'w \<Rightarrow> ('r, 'w) copy_out" where
  "io_CopyBuffer read write buf r w =
     (if buf = Some [] then CopyPanic else copy_result (copyBuffer read write (slice_bytes buf) r w))"

text \<open>
  The interval is a \<open>time.Duration\<close>, a signed number of 64 bits. \<open>time.NewTicker\<close> panics in \<open>flushLoop\<close> when it is negative, before
  that goroutine can take part in \<open>stop\<close>, so the call does not return.
\<close>

type_synonym Duration = "64 word"

definition CopyBufferFlush ::
  "'r io_reader \<Rightarrow> 'w io_writer \<Rightarrow> ('w \<Rightarrow> 'w) option \<Rightarrow> nat list \<Rightarrow> bytes option \<Rightarrow> Duration \<Rightarrow> 'r \<Rightarrow> 'w \<Rightarrow> ('r, 'w) copy_out" where
  "CopyBufferFlush read write flusher ticks buf flushInterval r w =
     (case flusher of
        Some flush \<Rightarrow>
          (if flushInterval \<noteq> 0 then
             (if sint flushInterval < 0 then CopyPanic
              else copy_result (map_option (\<lambda>(n, err, r', (ticks', w')). (n, err, r', w'))
                     (copyBuffer read (mlw_Write flush write) (slice_bytes buf) r (ticks, w))))
           else io_CopyBuffer read write buf r w)
      | None \<Rightarrow> io_CopyBuffer read write buf r w)"

text \<open>The calls that panic.\<close>

definition copy_panics :: "('w \<Rightarrow> 'w) option \<Rightarrow> bytes option \<Rightarrow> Duration \<Rightarrow> bool" where
  "copy_panics flusher buf flushInterval \<longleftrightarrow>
     (if flusher \<noteq> None \<and> flushInterval \<noteq> 0 then sint flushInterval < 0 else buf = Some [])"

section \<open>handlertransport.go\<close>

text \<open>What a handler does with the response writer it is given.\<close>

datatype rw_op = OpSetHeader string string | OpWriteHeader int | OpWrite bytes

text \<open>
  \<open>populateResponse\<close>: the response it fills, the number of times the response was sent on the
  channel, and the bytes written to the pipe.
\<close>

record populateResponse =
  pr_StatusCode :: int
  pr_ContentLength :: int
  pr_Header :: header
  pr_wroteHeader :: bool
  pr_hasContent :: bool
  pr_sentResponse :: bool
  pr_sent :: nat
  pr_pipe :: bytes
  pr_closed :: bool

definition newPopulateResponseWriter :: populateResponse where
  "newPopulateResponseWriter = \<lparr>pr_StatusCode = 0, pr_ContentLength = 0, pr_Header = [],
     pr_wroteHeader = False, pr_hasContent = False, pr_sentResponse = False, pr_sent = 0,
     pr_pipe = [], pr_closed = False\<rparr>"

lemma newPopulateResponseWriter_simps [simp]:
  "pr_StatusCode newPopulateResponseWriter = 0" "pr_ContentLength newPopulateResponseWriter = 0"
  "\<not> pr_wroteHeader newPopulateResponseWriter" "\<not> pr_hasContent newPopulateResponseWriter"
  "\<not> pr_sentResponse newPopulateResponseWriter" "pr_sent newPopulateResponseWriter = 0"
  "pr_pipe newPopulateResponseWriter = []" "\<not> pr_closed newPopulateResponseWriter"
  by (simp_all add: newPopulateResponseWriter_def)

definition sendResponse :: "populateResponse \<Rightarrow> populateResponse" where
  "sendResponse pr =
     (if pr_sentResponse pr then pr
      else (let pr = pr\<lparr>pr_sentResponse := True\<rparr>;
                pr = (if pr_hasContent pr then pr\<lparr>pr_ContentLength := -1\<rparr> else pr)
            in pr\<lparr>pr_sent := Suc (pr_sent pr)\<rparr>))"

definition pr_WriteHeader :: "int \<Rightarrow> populateResponse \<Rightarrow> populateResponse" where
  "pr_WriteHeader code pr =
     (if pr_wroteHeader pr then pr else pr\<lparr>pr_wroteHeader := True, pr_StatusCode := code\<rparr>)"

definition pr_Write :: "bytes \<Rightarrow> populateResponse \<Rightarrow> populateResponse" where
  "pr_Write p pr =
     (let pr = (if \<not> pr_wroteHeader pr then pr_WriteHeader 200 pr else pr);
          pr = pr\<lparr>pr_hasContent := True\<rparr>;
          pr = (if \<not> pr_sentResponse pr then sendResponse pr else pr)
      in pr\<lparr>pr_pipe := pr_pipe pr @ p\<rparr>)"

definition pr_finish :: "populateResponse \<Rightarrow> populateResponse" where
  "pr_finish pr =
     (let pr = (if \<not> pr_wroteHeader pr then pr_WriteHeader 500 pr else pr);
          pr = (if \<not> pr_sentResponse pr then sendResponse pr else pr)
      in pr\<lparr>pr_closed := True\<rparr>)"

fun pr_op :: "rw_op \<Rightarrow> populateResponse \<Rightarrow> populateResponse" where
  "pr_op (OpSetHeader k v) pr = pr\<lparr>pr_Header := Header_set k v (pr_Header pr)\<rparr>"
| "pr_op (OpWriteHeader code) pr = pr_WriteHeader code pr"
| "pr_op (OpWrite p) pr = pr_Write p pr"

text \<open>\<open>RoundTrip\<close>: the handler runs to its end and \<open>finish\<close> closes the response.\<close>

definition handler_RoundTrip :: "rw_op list \<Rightarrow> populateResponse" where
  "handler_RoundTrip handler = pr_finish (fold pr_op handler newPopulateResponseWriter)"

section \<open>response.go\<close>

text \<open>
  \<open>ResponseWriter\<close>: \<open>rw_writer\<close> is what was written to the connection. The functions
  \<open>httputil.DumpResponse\<close> (the head of a response), \<open>http.DetectContentType\<close> and
  \<open>strconv.ParseInt\<close> are arguments.
\<close>

record ResponseWriter =
  rw_code :: int
  rw_header :: header
  rw_contentLength :: int
  rw_writer :: bytes
  rw_wroteHeader :: bool

definition NewResponseWriter :: "bytes \<Rightarrow> ResponseWriter" where
  "NewResponseWriter w = \<lparr>rw_code = 200, rw_header = [], rw_contentLength = -1,
     rw_writer = w, rw_wroteHeader = False\<rparr>"

definition rw_WriteHeader ::
  "(int \<Rightarrow> header \<Rightarrow> int \<Rightarrow> bytes) \<Rightarrow> int \<Rightarrow> ResponseWriter \<Rightarrow> ResponseWriter" where
  "rw_WriteHeader DumpResponse code rw =
     (if rw_wroteHeader rw then rw
      else (let rw = rw\<lparr>rw_code := code, rw_wroteHeader := True\<rparr> in
            rw\<lparr>rw_writer := rw_writer rw @ DumpResponse code (rw_header rw) (rw_contentLength rw)\<rparr>))"

definition rw_writeHeader ::
  "(int \<Rightarrow> header \<Rightarrow> int \<Rightarrow> bytes) \<Rightarrow> (bytes \<Rightarrow> string) \<Rightarrow> (string \<Rightarrow> int option) \<Rightarrow> bytes
    \<Rightarrow> ResponseWriter \<Rightarrow> ResponseWriter" where
  "rw_writeHeader DumpResponse DetectContentType ParseInt b rw =
     (if rw_wroteHeader rw then rw
      else
        (let m = rw_header rw;
             hasType = (map_of m ''Content-Type'' \<noteq> None);
             hasTE = (Header_get ''Transfer-Encoding'' m \<noteq> []);
             m = (if \<not> hasType \<and> \<not> hasTE then Header_set ''Content-Type'' (DetectContentType b) m else m);
             cl = (case map_of m ''Content-Length'' of
                     Some (l # _) \<Rightarrow> (case ParseInt l of Some cl \<Rightarrow> cl | None \<Rightarrow> rw_contentLength rw)
                   | _ \<Rightarrow> rw_contentLength rw)
         in rw_WriteHeader DumpResponse 200 (rw\<lparr>rw_header := m, rw_contentLength := cl\<rparr>)))"

definition rw_Write ::
  "(int \<Rightarrow> header \<Rightarrow> int \<Rightarrow> bytes) \<Rightarrow> (bytes \<Rightarrow> string) \<Rightarrow> (string \<Rightarrow> int option) \<Rightarrow> bytes
    \<Rightarrow> ResponseWriter \<Rightarrow> ResponseWriter" where
  "rw_Write DumpResponse DetectContentType ParseInt buf rw =
     (let rw = rw_writeHeader DumpResponse DetectContentType ParseInt buf rw in
      rw\<lparr>rw_writer := rw_writer rw @ buf\<rparr>)"

fun rw_op_run ::
  "(int \<Rightarrow> header \<Rightarrow> int \<Rightarrow> bytes) \<Rightarrow> (bytes \<Rightarrow> string) \<Rightarrow> (string \<Rightarrow> int option) \<Rightarrow> rw_op
    \<Rightarrow> ResponseWriter \<Rightarrow> ResponseWriter" where
  "rw_op_run dump detect parseInt (OpSetHeader k v) rw = rw\<lparr>rw_header := Header_set k v (rw_header rw)\<rparr>"
| "rw_op_run dump detect parseInt (OpWriteHeader code) rw = rw_WriteHeader dump code rw"
| "rw_op_run dump detect parseInt (OpWrite p) rw = rw_Write dump detect parseInt p rw"

section \<open>The copy loop\<close>

text \<open>
  A stream as the loop meets it: chunks of any size, then a last read that returns \<open>fin\<close>
  together with the error \<open>e\<close>. A chunk longer than the buffer comes in pieces.
\<close>

definition stream_read :: "io_error \<Rightarrow> bytes \<Rightarrow> bytes list io_reader" where
  "stream_read e fin cs n =
     (case cs of
        [] \<Rightarrow> (fin, Some e, [])
      | c # cs' \<Rightarrow> (if length c \<le> n then (c, None, cs') else (take n c, None, drop n c # cs')))"

lemma copy_loop_more:
  assumes "read r n = (data, None, r')" and "write w data = (int (length data), None, w')"
  shows "copy_loop read write n k r w =
    copy_loop read write n (k + int (length data)) r' (if data = [] then w else w')"
  by (subst copy_loop.simps) (use assms in \<open>auto simp: Let_def\<close>)

lemma copy_loop_stop:
  assumes "read r n = (data, Some e, r')" and "write w data = (int (length data), None, w')"
  shows "copy_loop read write n k r w =
    Some (k + int (length data), if e = EOF then None else Some e, r', if data = [] then w else w')"
  by (subst copy_loop.simps) (use assms in \<open>auto simp: Let_def\<close>)

text \<open>
  The contract of a writer that takes everything: \<open>out\<close> is what it has received. Any such writer
  gets the whole stream from the copy loop.
\<close>

locale total_writer =
  fixes put :: "'w io_writer"
    and out :: "'w \<Rightarrow> bytes"
  assumes write_all: "\<exists>w'. put w p = (int (length p), None, w') \<and> out w' = out w @ p"
begin

lemma write_obtain:
  obtains w' where "put w p = (int (length p), None, w')" "out w' = out w @ p"
  using write_all[of w p] by blast

lemma copy_loop_stream:
  assumes "0 < n"
  shows "\<exists>w'. copy_loop (stream_read e fin) put n k cs w =
    Some (k + int (length (concat cs @ fin)), if e = EOF then None else Some e, [], w')
    \<and> out w' = out w @ concat cs @ fin"
proof (induction "length cs + length (concat cs)" arbitrary: cs k w rule: less_induct)
  case less
  show ?case
  proof (cases cs)
    case Nil
    then have read: "stream_read e fin cs n = (fin, Some e, [])" by (simp add: stream_read_def)
    obtain w' where w': "put w fin = (int (length fin), None, w')" "out w' = out w @ fin"
      by (rule write_obtain)
    show ?thesis
      using copy_loop_stop[of "stream_read e fin" cs n fin e "[]" put w w' k, OF read w'(1)] w'(2) Nil
      by auto
  next
    case (Cons c cs')
    define d rest where "d = take n c" and "rest = (if length c \<le> n then cs' else drop n c # cs')"
    have read: "stream_read e fin cs n = (d, None, rest)"
      by (simp add: Cons stream_read_def d_def rest_def)
    have "length rest + length (concat rest) < length cs + length (concat cs)"
      using assms by (auto simp: Cons rest_def)
    note IH = less.hyps[OF this]
    have data: "d @ concat rest = concat cs"
      by (simp add: Cons d_def rest_def flip: append_assoc)
    obtain w' where w': "put w d = (int (length d), None, w')" "out w' = out w @ d"
      by (rule write_obtain)
    let ?w = "if d = [] then w else w'"
    have step: "copy_loop (stream_read e fin) put n k cs w
        = copy_loop (stream_read e fin) put n (k + int (length d)) rest ?w"
      by (rule copy_loop_more[of "stream_read e fin" cs n d rest put w w', OF read w'(1)])
    have "out ?w = out w @ d" using w'(2) by simp
    then show ?thesis
      using IH[of "k + int (length d)" ?w] unfolding step data[symmetric] by auto
  qed
qed

lemma copyBuffer_total:
  "\<exists>w'. copyBuffer (stream_read e fin) put buf cs w =
    Some (int (length (concat cs @ fin)), if e = EOF then None else Some e, [], w')
    \<and> out w' = out w @ concat cs @ fin"
  using copy_loop_stream[of "if length buf = 0 then 32 * 1024 else length buf" e fin 0 cs w]
  by (simp add: copyBuffer_def)

end

text \<open>A writer that can also be flushed keeps the contract inside a \<open>maxLatencyWriter\<close>.\<close>

locale flushing_writer = total_writer +
  fixes flush :: "'a \<Rightarrow> 'a"
  assumes out_flush: "out (flush w) = out w"
begin

lemma out_flushes: "out ((flush ^^ t) w) = out w"
  by (induction t) (simp_all add: out_flush)

sublocale mlw: total_writer "mlw_Write flush put" "\<lambda>(ticks, w). out w"
proof
  fix tw :: "nat list \<times> 'a" and p
  obtain ticks w where tw: "tw = (ticks, w)" by (cases tw)
  define t where "t = (case ticks of [] \<Rightarrow> 0 | t # _ \<Rightarrow> t)"
  obtain w' where "put ((flush ^^ t) w) p = (int (length p), None, w')"
      "out w' = out ((flush ^^ t) w) @ p"
    by (rule write_obtain)
  then show "\<exists>w'. mlw_Write flush put tw p = (int (length p), None, w') \<and>
      (case w' of (ticks, w) \<Rightarrow> out w) = (case tw of (ticks, w) \<Rightarrow> out w) @ p"
    by (auto simp: tw mlw_Write_def t_def out_flushes split: list.splits)
qed

lemma io_CopyBuffer_total:
  assumes "buf \<noteq> Some []"
  shows "\<exists>w'. io_CopyBuffer (stream_read e fin) put buf cs w =
    CopyRet (int (length (concat cs @ fin))) (if e = EOF then None else Some e) [] w' \<and> out w' = out w @ concat cs @ fin"
  using assms copyBuffer_total[of e fin "slice_bytes buf" cs w] by (auto simp: io_CopyBuffer_def copy_result_def)

lemma CopyBufferFlush_total:
  assumes "flusher = None \<or> flusher = Some flush" "\<not> copy_panics flusher buf flushInterval"
  shows "\<exists>w'. CopyBufferFlush (stream_read e fin) put flusher ticks buf flushInterval cs w =
    CopyRet (int (length (concat cs @ fin))) (if e = EOF then None else Some e) [] w' \<and> out w' = out w @ concat cs @ fin"
proof (cases "flusher \<noteq> None \<and> flushInterval \<noteq> 0")
  case True
  with assms mlw.copyBuffer_total[of e fin "slice_bytes buf" cs "(ticks, w)"] show ?thesis
    by (auto simp: CopyBufferFlush_def copy_panics_def copy_result_def)
next
  case False
  then have "CopyBufferFlush (stream_read e fin) put flusher ticks buf flushInterval cs w = io_CopyBuffer (stream_read e fin) put buf cs w"
    by (auto simp: CopyBufferFlush_def split: option.split)
  with False assms(2) io_CopyBuffer_total[of buf e fin cs w] show ?thesis by (auto simp: copy_panics_def)
qed

end

text \<open>A connection that records what it got and how often it was flushed.\<close>

definition log_write :: "(bytes \<times> nat) io_writer" where
  "log_write w p = (int (length p), None, fst w @ p, snd w)"

definition log_flush :: "bytes \<times> nat \<Rightarrow> bytes \<times> nat" where
  "log_flush w = (fst w, Suc (snd w))"

interpretation log: flushing_writer log_write fst log_flush
  by unfold_locales (simp_all add: log_write_def log_flush_def)

section \<open>Responses\<close>

definition op_bytes :: "rw_op \<Rightarrow> bytes" where
  "op_bytes op = (case op of OpWrite p \<Rightarrow> p | _ \<Rightarrow> [])"

definition is_write :: "rw_op \<Rightarrow> bool" where
  "is_write op = (case op of OpWrite p \<Rightarrow> True | _ \<Rightarrow> False)"

text \<open>The status a handler asks for: the first \<open>WriteHeader\<close> or \<open>Write\<close> decides.\<close>

fun first_status :: "rw_op list \<Rightarrow> int option" where
  "first_status [] = None"
| "first_status (OpSetHeader k v # ops) = first_status ops"
| "first_status (OpWriteHeader c # ops) = Some c"
| "first_status (OpWrite p # ops) = Some 200"

text \<open>What holds of a \<open>populateResponse\<close> between two calls.\<close>

definition pr_inv :: "populateResponse \<Rightarrow> bool" where
  "pr_inv pr \<longleftrightarrow> pr_sent pr = (if pr_sentResponse pr then 1 else 0) \<and>
     pr_sentResponse pr = pr_hasContent pr \<and> (pr_sentResponse pr \<longrightarrow> pr_wroteHeader pr) \<and>
     pr_ContentLength pr = (if pr_hasContent pr then -1 else 0) \<and> \<not> pr_closed pr"

lemmas pr_defs = pr_WriteHeader_def pr_Write_def pr_finish_def sendResponse_def Let_def

lemma pr_op_inv: "pr_inv pr \<Longrightarrow> pr_inv (pr_op op pr)"
  by (cases op) (auto simp: pr_inv_def pr_defs)

lemma pr_run:
  assumes "pr_inv pr"
  shows "pr_inv (fold pr_op ops pr) \<and>
    pr_pipe (fold pr_op ops pr) = pr_pipe pr @ concat (map op_bytes ops) \<and>
    pr_hasContent (fold pr_op ops pr) = (pr_hasContent pr \<or> list_ex is_write ops) \<and>
    pr_wroteHeader (fold pr_op ops pr) = (pr_wroteHeader pr \<or> first_status ops \<noteq> None) \<and>
    pr_StatusCode (fold pr_op ops pr) =
      (if pr_wroteHeader pr then pr_StatusCode pr
       else case first_status ops of Some c \<Rightarrow> c | None \<Rightarrow> pr_StatusCode pr)"
  using assms
proof (induction ops arbitrary: pr)
  case (Cons op ops)
  note IH = Cons.IH[OF pr_op_inv[OF Cons.prems, of op]]
  show ?case
    using IH by (cases op) (auto simp: pr_defs op_bytes_def is_write_def split: option.splits)
qed simp

lemma rw_run_header_written:
  "rw_wroteHeader rw \<Longrightarrow>
    rw_writer (fold (rw_op_run dump detect parseInt) ops rw) = rw_writer rw @ concat (map op_bytes ops) \<and>
    rw_code (fold (rw_op_run dump detect parseInt) ops rw) = rw_code rw"
proof (induction ops arbitrary: rw)
  case (Cons op ops)
  have "rw_wroteHeader (rw_op_run dump detect parseInt op rw)"
    using Cons.prems by (cases op) (auto simp: rw_WriteHeader_def rw_Write_def rw_writeHeader_def Let_def)
  from Cons.IH[OF this] show ?case
    using Cons.prems
    by (cases op) (auto simp: rw_WriteHeader_def rw_Write_def rw_writeHeader_def Let_def op_bytes_def)
qed simp

lemma rw_set_headers:
  "fold (rw_op_run dump detect parseInt) (map (\<lambda>(k, v). OpSetHeader k v) kvs) rw
    = rw\<lparr>rw_header := fold (\<lambda>(k, v). Header_set k v) kvs (rw_header rw)\<rparr>"
  by (induction kvs arbitrary: rw) auto

section \<open>Properties\<close>

definition backoff :: "nat \<Rightarrow> int" where
  "backoff k = min (1 * Second) (5 * Millisecond * 2 ^ k)"

lemma SimpleServe_temp:
  "SimpleServe (if n = 0 then 0 else backoff (n - 1)) (map TempErr es @ rs)
    = map (\<lambda>k. Sleep (backoff (n + k))) [0..<length es]
      @ SimpleServe (if n + length es = 0 then 0 else backoff (n + length es - 1)) rs"
proof (induction es arbitrary: n)
  case (Cons e es)
  have step: "(let d = (if (if n = 0 then 0 else backoff (n - 1)) = 0 then 5 * Millisecond
        else (if n = 0 then 0 else backoff (n - 1)) * 2)
      in if d > 1 * Second then 1 * Second else d) = backoff n"
    by (cases n) (auto simp: backoff_def Second_def Millisecond_def min_def)
  have ups: "map (\<lambda>k. Sleep (backoff (n + k))) [0..<length (e # es)]
      = Sleep (backoff n) # map (\<lambda>k. Sleep (backoff (Suc n + k))) [0..<length es]"
    by (simp add: upt_conv_Cons map_Suc_upt [symmetric] del: upt_Suc)
  show ?case
    using Cons.IH[of "Suc n"] step unfolding ups by (simp add: Let_def)
qed simp

text \<open>
  C37: the accept loop. From the start or after a connection, the \<open>k\<close>-th of a run of temporary errors makes it sleep
  \<open>min (1 s) (5 ms * 2^k)\<close>. What ends the run decides: a connection is served and the loop begins again with no
  delay; any other error is returned, and the loop does nothing more whatever would come after it; without either, it is
  still waiting. (Every sequence of results has one of these forms.)
\<close>

theorem SimpleServe_backoff:
  fixes es :: "'e list" and c :: 'c
  defines "sleeps \<equiv> map (\<lambda>k. Sleep (min (1 * Second) (5 * Millisecond * 2 ^ k))) [0..<length es]"
  shows "SimpleServe 0 (map TempErr es @ Accepted c # rs) = sleeps @ ServeConn c # SimpleServe 0 rs \<and>
    SimpleServe 0 (map TempErr es @ FatalErr e # rs) = sleeps @ [Return e] \<and>
    SimpleServe 0 (map TempErr es) = sleeps"
proof -
  have *: "SimpleServe 0 (map TempErr es @ r) = sleeps @ SimpleServe (if es = [] then 0 else backoff (length es - 1)) r" for r
    using SimpleServe_temp[of 0 es r] by (simp add: backoff_def sleeps_def)
  show ?thesis using *[of "Accepted c # rs"] *[of "FatalErr e # rs"] *[of "[]"] by simp
qed



text \<open>
  C39: the round trip through a handler. Whatever the handler does, the response is sent exactly
  once and the pipe is closed; its status is the one of the handler's first \<open>WriteHeader\<close>, 200 if
  it wrote a body first, 500 if it did neither; the body is the concatenation of its writes, and
  the content length is marked unknown exactly when there was one.
\<close>

theorem handler_RoundTrip_response:
  fixes handler defines "pr \<equiv> handler_RoundTrip handler"
  shows "pr_sent pr = 1 \<and> pr_closed pr \<and>
    pr_StatusCode pr = (case first_status handler of Some c \<Rightarrow> c | None \<Rightarrow> 500) \<and>
    pr_pipe pr = concat (map op_bytes handler) \<and>
    pr_ContentLength pr = (if list_ex is_write handler then -1 else 0)"
proof -
  let ?r = "fold pr_op handler newPopulateResponseWriter"
  have "pr_inv newPopulateResponseWriter" by (simp add: pr_inv_def)
  from pr_run[OF this, of handler] have "pr_inv ?r" "pr_pipe ?r = concat (map op_bytes handler)"
    "pr_hasContent ?r = list_ex is_write handler" "pr_wroteHeader ?r = (first_status handler \<noteq> None)"
    "pr_StatusCode ?r = (case first_status handler of Some c \<Rightarrow> c | None \<Rightarrow> 0)"
    by (simp_all split: option.splits)
  then show ?thesis
    unfolding pr_def handler_RoundTrip_def
    by (cases "first_status handler") (auto simp: pr_inv_def pr_defs)
qed

text \<open>
  C40: the response writer on a raw connection, for every handler. After the headers it sets first, a handler does one of
  three things. It calls \<open>WriteHeader\<close>: the head with that code and these headers is written. Or it writes: the head is written
  with code 200, the given content length if it is a number, and a detected content type unless one is given or there is
  a transfer encoding; then the bytes. Or it does nothing: nothing is written. After a head, whatever the handler does,
  only the bodies it writes follow, in order, and the code does not change.
\<close>

theorem ResponseWriter_head_once:
  fixes kvs :: "(string \<times> string) list" and p :: bytes and detect :: "bytes \<Rightarrow> string" and parseInt :: "string \<Rightarrow> int option"
  defines "sets \<equiv> map (\<lambda>(k, v). OpSetHeader k v) kvs" and "m \<equiv> fold (\<lambda>(k, v). Header_set k v) kvs []"
  defines "m' \<equiv> (if map_of m ''Content-Type'' = None \<and> Header_get ''Transfer-Encoding'' m = []
      then Header_set ''Content-Type'' (detect p) m else m)"
  defines "cl \<equiv> (case map_of m' ''Content-Length'' of
      Some (l # _) \<Rightarrow> (case parseInt l of Some cl \<Rightarrow> cl | None \<Rightarrow> -1) | _ \<Rightarrow> -1)"
  shows "(let rw = fold (rw_op_run dump detect parseInt) (sets @ OpWriteHeader code # ops) (NewResponseWriter w)
     in rw_code rw = code \<and> rw_writer rw = w @ dump code m (-1) @ concat (map op_bytes ops)) \<and>
    (let rw = fold (rw_op_run dump detect parseInt) (sets @ OpWrite p # ops) (NewResponseWriter w)
     in rw_code rw = 200 \<and> rw_writer rw = w @ dump 200 m' cl @ p @ concat (map op_bytes ops)) \<and>
    rw_writer (fold (rw_op_run dump detect parseInt) sets (NewResponseWriter w)) = w"
proof -
  let ?run = "fold (rw_op_run dump detect parseInt)"
  let ?s = "(NewResponseWriter w)\<lparr>rw_header := m\<rparr>"
  have sets: "?run sets (NewResponseWriter w) = ?s"
    using rw_set_headers[of dump detect parseInt kvs "NewResponseWriter w"] by (simp add: sets_def m_def NewResponseWriter_def)
  let ?a = "rw_WriteHeader dump code ?s" and ?b = "rw_Write dump detect parseInt p ?s"
  have a: "rw_wroteHeader ?a" "rw_writer ?a = w @ dump code m (-1)" "rw_code ?a = code"
    by (simp_all add: rw_WriteHeader_def NewResponseWriter_def Let_def)
  have b: "rw_wroteHeader ?b" "rw_writer ?b = w @ dump 200 m' cl @ p" "rw_code ?b = 200"
    by (simp_all add: rw_Write_def rw_writeHeader_def rw_WriteHeader_def NewResponseWriter_def Let_def m'_def[symmetric] cl_def
        cong: option.case_cong list.case_cong)
  show ?thesis
    using rw_run_header_written[OF a(1), of dump detect parseInt ops] rw_run_header_written[OF b(1), of dump detect parseInt ops] a b sets
    by (simp add: NewResponseWriter_def Let_def)
qed

end
