(* ===== verification/HybridDomain.thy ===== *)
theory HybridDomain
  imports GoLib
begin

text \<open>
  \<open>src/pkg/domain/domain.go\<close>: parsing a hybrid host name into the hop it asks for.

  A hybrid host name \<open>dial.over.a.b.c.hybrid\<close> (or \<open>.with.\<close>) names a target and the route
  of nodes that leads to it; a leading dash marks the node that is handling the request.
  \<open>NewDomain\<close> reads such a name and computes the next node and the host name to send to it.
  The lemmas show that following the computed host names visits the nodes of the route in
  order and ends at the target, what a successful parse guarantees, and when a parse fails.
\<close>

section \<open>Definitions\<close>

definition KeywordHybrid :: string where "KeywordHybrid = ''hybrid''"
definition KeywordOver :: string where "KeywordOver = ''over''"
definition KeywordWith :: string where "KeywordWith = ''with''"
definition HybridSuffix :: string where "HybridSuffix = ''.hybrid''"

datatype domain_error = ErrBaddomain

text \<open>
  \<open>nameRegex\<close>, the regular expression \<open>^[a-z0-9]([a-z0-9\-]*[a-z0-9])?$\<close>: one alphanumeric
  byte, then optionally any run of alphanumerics and dashes closed by an alphanumeric.
\<close>

definition name_alnum :: "char \<Rightarrow> bool" where
  "name_alnum c = (let n = (of_char c :: nat) in (97 \<le> n \<and> n \<le> 122) \<or> (48 \<le> n \<and> n \<le> 57))"

definition nameRegex :: "string \<Rightarrow> bool" where
  "nameRegex s =
     (case s of
        [] \<Rightarrow> False
      | c # cs \<Rightarrow> name_alnum c \<and>
          (cs = [] \<or> (list_all (\<lambda>x. name_alnum x \<or> x = CHR ''-'') (butlast cs) \<and> name_alnum (last cs))))"

definition IsHybridName :: "string \<Rightarrow> bool" where
  "IsHybridName name =
     (if name = KeywordHybrid \<or> name = KeywordOver \<or> name = KeywordWith then False
      else nameRegex name)"

record domain =
  IsHybrid :: bool
  IsOver :: bool
  DialHostname :: string
  Next :: string
  IsBegin :: bool
  IsEnd :: bool
  NextHostname :: string

text \<open>The Go zero value of the struct.\<close>

definition zero_domain :: domain where
  "zero_domain = \<lparr>IsHybrid = False, IsOver = False, DialHostname = [], Next = [],
     IsBegin = False, IsEnd = False, NextHostname = []\<rparr>"

definition overTag :: string where "overTag = ''.'' @ KeywordOver @ ''.''"
definition withTag :: string where "withTag = ''.'' @ KeywordWith @ ''.''"

text \<open>
  The loop over \<open>rawRouters\<close>: \<open>before\<close> are the elements already passed. It stops at the first
  marked element, having moved the mark to the next one; it fails on a bad name.
\<close>

fun route_loop ::
  "string list \<Rightarrow> string list \<Rightarrow> domain \<Rightarrow> domain_error + (domain \<times> string list)" where
  "route_loop before [] d = Inr (d, before)"
| "route_loop before (rawRouter # rest) d =
     (if rawRouter = [] then Inl ErrBaddomain
      else if hd rawRouter = CHR ''-'' then
        (let d = d\<lparr>IsBegin := False\<rparr>; name = tl rawRouter in
         if \<not> IsHybridName name then Inl ErrBaddomain
         else (case rest of
             [] \<Rightarrow> Inr (d\<lparr>IsEnd := True\<rparr>, before @ [name])
           | nxt # rest' \<Rightarrow>
               (if \<not> IsHybridName nxt then Inl ErrBaddomain
                else Inr (d\<lparr>Next := nxt\<rparr>, before @ name # (CHR ''-'' # nxt) # rest'))))
      else if \<not> IsHybridName rawRouter then Inl ErrBaddomain
      else route_loop (before @ [rawRouter]) rest d)"

text \<open>The rest of the function once the route is split: lines 137 to 181.\<close>

definition route_domain :: "string \<Rightarrow> string list \<Rightarrow> domain \<Rightarrow> domain_error + domain" where
  "route_domain overOrWith rawRouters d =
     rbind (route_loop [] rawRouters d) (\<lambda>(d, rs).
       let d' = (if IsBegin d then d\<lparr>Next := hd rs\<rparr> else d);
           rs' = (if IsBegin d then (CHR ''-'' # hd rs) # tl rs else rs)
       in Inr (if IsOver d' \<and> IsEnd d' then d'\<lparr>NextHostname := DialHostname d'\<rparr>
               else d'\<lparr>NextHostname := DialHostname d' @ overOrWith @ Join ''.'' rs' @ HybridSuffix\<rparr>))"

definition NewDomain :: "string \<Rightarrow> domain_error + domain" where
  "NewDomain hostname =
     (if \<not> HasSuffix hostname HybridSuffix then
        Inr (zero_domain\<lparr>IsHybrid := False, DialHostname := hostname\<rparr>)
      else
        (case (case LastIndex hostname withTag of
                 Some i \<Rightarrow> Some (i, withTag)
               | None \<Rightarrow> map_option (\<lambda>i. (i, overTag)) (LastIndex hostname overTag)) of
           None \<Rightarrow> Inl ErrBaddomain
         | Some (overIdx, overOrWith) \<Rightarrow>
             (let d = zero_domain\<lparr>IsHybrid := True, IsOver := (overOrWith = overTag),
                        DialHostname := take overIdx hostname, IsBegin := True\<rparr>;
                  hostnameLen = length hostname;
                  overOrWithLen = length overOrWith;
                  hybridSuffixLen = length HybridSuffix;
                  routeStart = overIdx + overOrWithLen;
                  routeEnd = hostnameLen - hybridSuffixLen
              in if routeStart > routeEnd then
                   (let d = d\<lparr>IsEnd := True\<rparr> in
                    Inr (if IsOver d then
                           d\<lparr>NextHostname := take (nat (int hostnameLen - int overOrWithLen - int hybridSuffixLen + 1)) hostname\<rparr>
                         else d\<lparr>NextHostname := hostname\<rparr>))
                 else
                   route_domain overOrWith
                     (Split CHR ''.'' (take (routeEnd - routeStart) (drop routeStart hostname))) d)))"

lemmas domain_consts = KeywordHybrid_def KeywordOver_def KeywordWith_def HybridSuffix_def
  overTag_def withTag_def

section \<open>Names\<close>

lemma name_alnum_not_dot: "name_alnum c \<Longrightarrow> c \<noteq> CHR ''.'' \<and> c \<noteq> CHR ''-'' \<and> c \<noteq> CHR '':''"
  by (auto simp: name_alnum_def)

lemma IsHybridName_nonempty [simp]: "\<not> IsHybridName []"
  by (simp add: IsHybridName_def nameRegex_def)

lemma IsHybridName_chars:
  assumes "IsHybridName s" and "c \<in> set s"
  shows "name_alnum c \<or> c = CHR ''-''"
proof (cases s)
  case (Cons x xs)
  with assms show ?thesis
    by (cases xs rule: rev_cases)
      (auto simp: IsHybridName_def nameRegex_def list_all_iff split: if_splits)
qed (use assms in simp)

lemma IsHybridName_dot_free: "IsHybridName s \<Longrightarrow> CHR ''.'' \<notin> set s"
  using IsHybridName_chars name_alnum_not_dot by fastforce

lemma IsHybridName_colon_free: "IsHybridName s \<Longrightarrow> CHR '':'' \<notin> set s"
  using IsHybridName_chars name_alnum_not_dot by fastforce

lemma IsHybridName_hd: "IsHybridName s \<Longrightarrow> s \<noteq> [] \<and> hd s \<noteq> CHR ''-''"
  by (cases s) (auto simp: IsHybridName_def nameRegex_def dest: name_alnum_not_dot split: if_splits)

lemma IsHybridName_not_keyword:
  "IsHybridName s \<Longrightarrow> s \<noteq> ''with'' \<and> s \<noteq> ''over'' \<and> s \<noteq> ''hybrid''"
  by (auto simp: IsHybridName_def domain_consts)

section \<open>Reading a well-formed host name\<close>

text \<open>
  \<open>hop_host\<close> is the host name a node sees after \<open>k\<close> hops: unmarked at the client (\<open>k = 0\<close>),
  afterwards with the mark on the \<open>k\<close>-th node of the route.
\<close>

definition tag_of :: "bool \<Rightarrow> string" where
  "tag_of over = (if over then overTag else withTag)"

definition marked :: "string list \<Rightarrow> nat \<Rightarrow> string list" where
  "marked rs k = (case k of 0 \<Rightarrow> rs | Suc j \<Rightarrow> rs[j := CHR ''-'' # rs ! j])"

definition hop_host :: "string \<Rightarrow> bool \<Rightarrow> string list \<Rightarrow> nat \<Rightarrow> string" where
  "hop_host dial over rs k = dial @ tag_of over @ Join ''.'' (marked rs k) @ HybridSuffix"

definition route_ok :: "string \<Rightarrow> bool \<Rightarrow> string list \<Rightarrow> bool" where
  "route_ok dial over rs \<longleftrightarrow> rs \<noteq> [] \<and> list_all IsHybridName rs \<and>
     (over \<longrightarrow> ''with'' \<notin> set (tl (Split CHR ''.'' dial)))"

lemma tag_of_eq: "tag_of over = CHR ''.'' # (if over then ''over'' else ''with'') @ ''.''"
  by (simp add: tag_of_def domain_consts)

lemma tag_of_length [simp]: "length (tag_of over) = 6"
  by (simp add: tag_of_eq)

lemma HybridSuffix_length [simp]: "length HybridSuffix = 7"
  by (simp add: HybridSuffix_def)

lemma tag_of_over_iff [simp]: "tag_of over = overTag \<longleftrightarrow> over"
  by (simp add: tag_of_def domain_consts)

text \<open>The parts of \<open>dial tag raws .hybrid\<close> between dots.\<close>

lemma Split_host:
  assumes "raws \<noteq> []" and "\<forall>r \<in> set raws. CHR ''.'' \<notin> set r"
  shows "Split CHR ''.'' (kw @ CHR ''.'' # Join ''.'' raws @ HybridSuffix)
    = Split CHR ''.'' kw @ raws @ [''hybrid'']"
proof -
  have "Split CHR ''.'' (Join ''.'' raws @ CHR ''.'' # ''hybrid'') = raws @ [''hybrid'']"
    using assms by (simp add: Split_append Split_Join)
  then show ?thesis by (simp add: Split_append HybridSuffix_def)
qed

lemma LastIndex_tag:
  assumes raws: "raws \<noteq> []" "\<forall>r \<in> set raws. CHR ''.'' \<notin> set r"
    and kw: "kw \<notin> set raws" "kw \<noteq> ''hybrid''" "CHR ''.'' \<notin> set kw"
  shows "LastIndex (dial @ (CHR ''.'' # kw @ ''.'') @ Join ''.'' raws @ HybridSuffix) (CHR ''.'' # kw @ ''.'')
    = Some (length dial)"
proof (rule LastIndex_append)
  have "tl (Split CHR ''.'' (kw @ CHR ''.'' # Join ''.'' raws @ HybridSuffix)) = raws @ [''hybrid'']"
    using Split_host[OF raws, of kw] Split_single[OF kw(3)] by simp
  then show "\<not> sublist (CHR ''.'' # kw @ ''.'') (tl ((CHR ''.'' # kw @ ''.'') @ Join ''.'' raws @ HybridSuffix))"
    using kw sublist_dots_Split[of "CHR ''.''" kw "kw @ CHR ''.'' # Join ''.'' raws @ HybridSuffix"]
    by auto
qed simp

text \<open>
  \<open>NewDomain\<close> on a host name with a route: it finds the tag after \<open>dial\<close> and hands the
  route's elements to \<open>route_domain\<close>.
\<close>

lemma NewDomain_route:
  assumes raws: "raws \<noteq> []" "\<forall>r \<in> set raws. CHR ''.'' \<notin> set r"
    and kw: "''with'' \<notin> set raws" "over \<Longrightarrow> ''over'' \<notin> set raws"
    and dial: "over \<Longrightarrow> ''with'' \<notin> set (tl (Split CHR ''.'' dial))"
  shows "NewDomain (dial @ tag_of over @ Join ''.'' raws @ HybridSuffix)
    = route_domain (tag_of over) raws
        \<lparr>IsHybrid = True, IsOver = over, DialHostname = dial, Next = [],
         IsBegin = True, IsEnd = False, NextHostname = []\<rparr>"
proof -
  let ?h = "dial @ tag_of over @ Join ''.'' raws @ HybridSuffix"
  have sfx: "suffix HybridSuffix ?h" by (simp add: suffix_def)
  have tag: "(case LastIndex ?h withTag of Some i \<Rightarrow> Some (i, withTag)
      | None \<Rightarrow> map_option (\<lambda>i. (i, overTag)) (LastIndex ?h overTag)) = Some (length dial, tag_of over)"
  proof (cases over)
    case True
    have "Split CHR ''.'' ?h = Split CHR ''.'' dial @ ''over'' # raws @ [''hybrid'']"
      using Split_host[OF raws, of "''over''"] True
      by (simp add: tag_of_eq Split_append)
    then have "''with'' \<notin> set (tl (Split CHR ''.'' ?h))"
      using dial True kw by simp
    then have "\<not> sublist withTag ?h"
      using sublist_dots_Split[of "CHR ''.''" "''with''" ?h] by (auto simp: domain_consts)
    moreover have "LastIndex ?h overTag = Some (length dial)"
      using LastIndex_tag[OF raws kw(2)[OF True]] True by (simp add: tag_of_def domain_consts)
    ultimately show ?thesis using True by (simp add: LastIndex_None_iff[symmetric] tag_of_def)
  next
    case False
    have "LastIndex ?h withTag = Some (length dial)"
      using LastIndex_tag[OF raws kw(1)] False by (simp add: tag_of_def domain_consts)
    with False show ?thesis by (simp add: tag_of_def)
  qed
  have route: "Split CHR ''.'' (Join ''.'' raws) = raws"
    using raws by (simp add: Split_Join)
  show ?thesis
    unfolding NewDomain_def
    by (simp add: sfx tag route zero_domain_def)
qed

text \<open>With no route at all (\<open>dial.over.hybrid\<close>) the client itself is the end.\<close>

lemma NewDomain_no_route:
  assumes dial: "over \<Longrightarrow> ''with'' \<notin> set (tl (Split CHR ''.'' dial))"
  shows "NewDomain (dial @ tag_of over @ ''hybrid'') = Inr
     \<lparr>IsHybrid = True, IsOver = over, DialHostname = dial, Next = [], IsBegin = True, IsEnd = True,
      NextHostname = (if over then dial else dial @ tag_of over @ ''hybrid'')\<rparr>"
proof -
  let ?h = "dial @ tag_of over @ ''hybrid''"
  have sfx: "suffix HybridSuffix ?h" by (auto simp: suffix_def HybridSuffix_def tag_of_eq)
  have nosub: "\<not> sublist (CHR ''.'' # kw @ ''.'') (kw @ ''.hybrid'')"
    if "CHR ''.'' \<notin> set kw" "kw \<noteq> ''hybrid''" for kw
    using that sublist_dots_Split[of "CHR ''.''" kw "kw @ CHR ''.'' # ''hybrid''"]
    by (auto simp: Split_append Split_single)
  have tag: "(case LastIndex ?h withTag of Some i \<Rightarrow> Some (i, withTag)
      | None \<Rightarrow> map_option (\<lambda>i. (i, overTag)) (LastIndex ?h overTag)) = Some (length dial, tag_of over)"
  proof (cases over)
    case True
    have "Split CHR ''.'' ?h = Split CHR ''.'' dial @ [''over'', ''hybrid'']"
      using True by (simp add: tag_of_eq Split_append Split_single)
    then have "''with'' \<notin> set (tl (Split CHR ''.'' ?h))" using dial True by simp
    then have "\<not> sublist withTag ?h"
      using sublist_dots_Split[of "CHR ''.''" "''with''" ?h] by (auto simp: domain_consts)
    moreover have "LastIndex ?h overTag = Some (length dial)"
      using LastIndex_append[of overTag "''hybrid''" dial] nosub[of "''over''"] True
      by (simp add: tag_of_def domain_consts)
    ultimately show ?thesis using True by (simp add: LastIndex_None_iff[symmetric] tag_of_def)
  next
    case False
    have "LastIndex ?h withTag = Some (length dial)"
      using LastIndex_append[of withTag "''hybrid''" dial] nosub[of "''with''"] False
      by (simp add: tag_of_def domain_consts)
    with False show ?thesis by (simp add: tag_of_def)
  qed
  show ?thesis
    unfolding NewDomain_def by (simp add: sfx tag zero_domain_def)
qed

section \<open>One hop\<close>

lemma route_loop_unmarked:
  "list_all IsHybridName rs \<Longrightarrow> route_loop before (rs @ ts) d = route_loop (before @ rs) ts d"
  by (induction rs arbitrary: before) (auto dest: IsHybridName_hd)

lemma route_loop_marked:
  assumes "list_all IsHybridName rs" and "k < length rs"
  shows "route_loop [] (rs[k := CHR ''-'' # rs ! k]) d =
     (if Suc k = length rs then Inr (d\<lparr>IsBegin := False, IsEnd := True\<rparr>, rs)
      else Inr (d\<lparr>IsBegin := False, Next := rs ! Suc k\<rparr>, rs[Suc k := CHR ''-'' # rs ! Suc k]))"
proof -
  have split: "rs[k := CHR ''-'' # rs ! k] = take k rs @ (CHR ''-'' # rs ! k) # drop (Suc k) rs"
    using assms(2) by (simp add: upd_conv_take_nth_drop)
  have pre: "list_all IsHybridName (take k rs)" and nm: "IsHybridName (rs ! k)"
    using assms by (auto simp: list_all_iff dest: in_set_takeD)
  show ?thesis
  proof (cases "Suc k = length rs")
    case True
    then have "take k rs @ [rs ! k] = rs"
      using assms(2) by (metis take_Suc_conv_app_nth take_all_iff order_refl)
    with True show ?thesis
      by (simp add: split route_loop_unmarked[OF pre] nm)
  next
    case False
    with assms(2) have lt: "Suc k < length rs" by simp
    then have "drop (Suc k) rs = rs ! Suc k # drop (Suc (Suc k)) rs"
      by (simp add: Cons_nth_drop_Suc)
    moreover have "take k rs @ rs ! k # (CHR ''-'' # rs ! Suc k) # drop (Suc (Suc k)) rs
        = rs[Suc k := CHR ''-'' # rs ! Suc k]"
      using lt by (simp add: upd_conv_take_nth_drop take_Suc_conv_app_nth)
    moreover have "IsHybridName (rs ! Suc k)"
      using assms(1) lt by (simp add: list_all_iff)
    ultimately show ?thesis
      using False by (simp add: split route_loop_unmarked[OF pre] nm)
  qed
qed

lemma marked_props:
  assumes "list_all IsHybridName rs" and "rs \<noteq> []" and "k \<le> length rs"
  shows "marked rs k \<noteq> []" and "\<forall>r \<in> set (marked rs k). CHR ''.'' \<notin> set r"
    and "''with'' \<notin> set (marked rs k)" and "''over'' \<notin> set (marked rs k)"
proof -
  have elem: "r \<in> set rs \<or> (\<exists>n \<in> set rs. r = CHR ''-'' # n)" if "r \<in> set (marked rs k)" for r
    using that assms(3)
    by (cases k) (auto simp: marked_def dest!: set_update_subset_insert[THEN subsetD])
  have nm: "IsHybridName n" if "n \<in> set rs" for n
    using assms(1) that by (simp add: list_all_iff)
  show "marked rs k \<noteq> []" using assms(2) by (simp add: marked_def split: nat.splits)
  show "\<forall>r \<in> set (marked rs k). CHR ''.'' \<notin> set r"
    using elem nm IsHybridName_dot_free by fastforce
  show "''with'' \<notin> set (marked rs k)" "''over'' \<notin> set (marked rs k)"
    using elem nm IsHybridName_not_keyword by blast+
qed

text \<open>
  What a node reads from the host name of hop \<open>k\<close>: before the last node it learns the next
  node and the host name of hop \<open>k + 1\<close>; the last node learns that it is the end, with the
  target (\<open>over\<close>) or the original host name (\<open>with\<close>) to use.
\<close>

lemma NewDomain_hop:
  assumes "route_ok dial over rs" and "k \<le> length rs"
  shows "NewDomain (hop_host dial over rs k) = Inr
     \<lparr>IsHybrid = True, IsOver = over, DialHostname = dial,
      Next = (if k < length rs then rs ! k else []),
      IsBegin = (k = 0), IsEnd = (k = length rs),
      NextHostname = (if k < length rs then hop_host dial over rs (Suc k)
                      else if over then dial else hop_host dial over rs 0)\<rparr>"
proof -
  have rs: "rs \<noteq> []" "list_all IsHybridName rs"
    and dial: "over \<Longrightarrow> ''with'' \<notin> set (tl (Split CHR ''.'' dial))"
    using assms(1) by (auto simp: route_ok_def)
  note m = marked_props[OF rs(2) rs(1) assms(2)]
  note nd = NewDomain_route[OF m dial, folded hop_host_def]
  show ?thesis
  proof (cases k)
    case 0
    have "route_loop [] rs d = Inr (d, rs)" for d
      using route_loop_unmarked[OF rs(2), of "[]" "[]"] by simp
    moreover have "rs[0 := CHR ''-'' # rs ! 0] = (CHR ''-'' # hd rs) # tl rs" and "rs ! 0 = hd rs"
      using rs(1) by (cases rs; simp)+
    ultimately show ?thesis
      using 0 rs(1) nd by (simp add: route_domain_def marked_def hop_host_def)
  next
    case (Suc j)
    with assms(2) have "j < length rs" by simp
    from route_loop_marked[OF rs(2) this] show ?thesis
      using Suc assms(2) nd by (auto simp: route_domain_def marked_def hop_host_def)
  qed
qed

section \<open>The shape of an arbitrary hybrid host name\<close>

definition find_tag :: "string \<Rightarrow> (nat \<times> string) option" where
  "find_tag h = (case LastIndex h withTag of
      Some i \<Rightarrow> Some (i, withTag)
    | None \<Rightarrow> map_option (\<lambda>i. (i, overTag)) (LastIndex h overTag))"

lemma find_tag_cases:
  assumes "find_tag h = Some (i, t)"
  obtains over where "t = tag_of over" "LastIndex h (tag_of over) = Some i"
    "over \<Longrightarrow> \<not> sublist withTag h"
proof (cases "LastIndex h withTag")
  case None
  with assms that[of True] show ?thesis
    by (auto simp: find_tag_def tag_of_def LastIndex_None_iff)
next
  case (Some j)
  with assms that[of False] show ?thesis by (auto simp: find_tag_def tag_of_def)
qed

text \<open>What follows the tag is either \<open>hybrid\<close> or a route and the suffix.\<close>

lemma after_tag:
  assumes "suffix HybridSuffix h" and "h = dial @ tag_of over @ rest"
  shows "rest = ''hybrid'' \<or> (\<exists>mid. rest = mid @ HybridSuffix)"
proof -
  from assms obtain p where p: "dial @ tag_of over @ rest = p @ HybridSuffix"
    by (auto simp: suffix_def)
  define q where "q = dial @ CHR ''.'' # (if over then ''over'' else ''with'')"
  from p have "q @ (CHR ''.'' # rest) = p @ CHR ''.'' # ''hybrid''"
    by (simp add: q_def tag_of_eq HybridSuffix_def)
  then have "\<exists>us. q = p @ us \<and> us @ CHR ''.'' # rest = CHR ''.'' # ''hybrid''
      \<or> q @ us = p \<and> CHR ''.'' # rest = us @ CHR ''.'' # ''hybrid''"
    by (rule append_eq_append_conv2[THEN iffD1])
  then obtain us where "us @ CHR ''.'' # rest = CHR ''.'' # ''hybrid''
      \<or> CHR ''.'' # rest = us @ CHR ''.'' # ''hybrid''"
    by blast
  then show ?thesis
  proof
    assume "us @ CHR ''.'' # rest = CHR ''.'' # ''hybrid''"
    then show ?thesis
      by (cases us) (auto simp: append_eq_Cons_conv)
  next
    assume "CHR ''.'' # rest = us @ CHR ''.'' # ''hybrid''"
    then show ?thesis by (cases us) (auto simp: HybridSuffix_def)
  qed
qed

lemma host_shape:
  assumes sfx: "suffix HybridSuffix h" and tag: "find_tag h = Some (i, t)"
  obtains (no_route) dial over where "h = dial @ tag_of over @ ''hybrid''"
      "over \<Longrightarrow> ''with'' \<notin> set (tl (Split CHR ''.'' dial))"
  | (route) dial over raws where "h = dial @ tag_of over @ Join ''.'' raws @ HybridSuffix"
      "raws \<noteq> []" "\<forall>r \<in> set raws. CHR ''.'' \<notin> set r"
      "''with'' \<notin> set raws" "over \<Longrightarrow> ''over'' \<notin> set raws"
      "over \<Longrightarrow> ''with'' \<notin> set (tl (Split CHR ''.'' dial))"
proof -
  from tag obtain over where over: "LastIndex h (tag_of over) = Some i" "over \<Longrightarrow> \<not> sublist withTag h"
    by (rule find_tag_cases) blast
  define dial rest where "dial = take i h" and "rest = drop (i + 6) h"
  have h: "h = dial @ tag_of over @ rest"
    using LastIndex_split[OF over(1)] by (simp add: dial_def rest_def)
  have len: "length dial = i"
    using LastIndex_SomeD[OF over(1)] by (simp add: dial_def)
  have dial: "''with'' \<notin> set (tl (Split CHR ''.'' dial))" if "over"
  proof
    assume "''with'' \<in> set (tl (Split CHR ''.'' dial))"
    moreover have "Join ''.'' (Split CHR ''.'' dial) = dial" by simp
    ultimately obtain x xs where "Join ''.'' (x # xs) = dial" "''with'' \<in> set xs"
      by (cases "Split CHR ''.'' dial") auto
    then have "dial = x @ CHR ''.'' # Join ''.'' xs" and w: "''with'' \<in> set xs"
      by (auto simp: Join_Cons dest!: split_list)
    then have hx: "h = x @ (CHR ''.'' # Join ''.'' xs @ ''.'') @ (if over then ''over.'' else ''with.'') @ rest"
      by (simp add: h tag_of_eq)
    have "sublist withTag (CHR ''.'' # Join ''.'' xs @ ''.'')"
      using Join_part_sublist[OF w, of "CHR ''.''"] by (simp add: domain_consts)
    then have "sublist withTag h"
      unfolding hx by (rule sublist_middle)
    with over(2) that show False by blast
  qed
  from after_tag[OF sfx h] show ?thesis
  proof
    assume "rest = ''hybrid''"
    with h dial show ?thesis by (intro no_route[of dial over]) auto
  next
    assume "\<exists>mid. rest = mid @ HybridSuffix"
    then obtain mid where mid: "rest = mid @ HybridSuffix" by blast
    define raws where "raws = Split CHR ''.'' mid"
    have hr: "h = dial @ tag_of over @ Join ''.'' raws @ HybridSuffix"
      by (simp add: h mid raws_def)
    have notin: "kw \<notin> set raws" if "\<not> sublist (CHR ''.'' # kw @ ''.'') (drop (Suc i) h)" for kw
    proof
      assume "kw \<in> set raws"
      then have sub: "sublist (CHR ''.'' # kw @ ''.'') (CHR ''.'' # Join ''.'' raws @ ''.'')"
        by (rule Join_part_sublist)
      have dr: "drop (Suc i) h = (if over then ''over'' else ''with'')
          @ (CHR ''.'' # Join ''.'' raws @ ''.'') @ ''hybrid''"
        using len by (simp add: hr tag_of_eq HybridSuffix_def flip: append_assoc)
      from sub have "sublist (CHR ''.'' # kw @ ''.'') (drop (Suc i) h)"
        unfolding dr by (rule sublist_middle)
      with that show False by blast
    qed
    have last: "\<not> sublist (tag_of over) (drop (Suc i) h)"
      using over(1) by (rule LastIndex_last) (simp add: tag_of_eq)
    have w: "''with'' \<notin> set raws"
    proof (rule notin, cases over)
      case True
      then show "\<not> sublist (CHR ''.'' # ''with'' @ ''.'') (drop (Suc i) h)"
        using over(2) sublist_middle[of withTag "drop (Suc i) h" "take (Suc i) h" "[]"]
        by (auto simp: domain_consts)
    next
      case False
      then show "\<not> sublist (CHR ''.'' # ''with'' @ ''.'') (drop (Suc i) h)"
        using last by (simp add: tag_of_eq)
    qed
    have o: "''over'' \<notin> set raws" if over
      using last that by (intro notin) (simp add: tag_of_eq)
    show ?thesis
      using hr w o dial Split_sep_free[of _ "CHR ''.''" mid]
      by (intro route[of dial over raws]) (auto simp: raws_def)
  qed
qed

section \<open>Following the hops\<close>

text \<open>
  \<open>walk\<close> follows a request from node to node: each node parses the host name it receives and
  passes the computed next host name on, until one is the end of the route, the name is not
  hybrid, or the parse fails. The result lists the nodes the request was sent to and how the
  last one read its host name; \<open>None\<close> only when the fuel runs out.
\<close>

fun walk :: "(string \<Rightarrow> 'e + domain) \<Rightarrow> nat \<Rightarrow> string \<Rightarrow> (string list \<times> ('e + domain)) option" where
  "walk parse 0 h = None"
| "walk parse (Suc n) h =
     (case parse h of
        Inl e \<Rightarrow> Some ([], Inl e)
      | Inr d \<Rightarrow> (if IsEnd d \<or> \<not> IsHybrid d then Some ([], Inr d)
                  else map_option (\<lambda>(ns, r). (Next d # ns, r)) (walk parse n (NextHostname d))))"

lemma walk_more_fuel: "walk parse n h = Some r \<Longrightarrow> n \<le> m \<Longrightarrow> walk parse m h = Some r"
proof (induction n arbitrary: h r m)
  case (Suc n)
  then obtain m' where m: "m = Suc m'" "n \<le> m'" by (cases m) auto
  show ?case
  proof (cases "parse h")
    case (Inr d)
    show ?thesis
    proof (cases "IsEnd d \<or> \<not> IsHybrid d")
      case False
      with Inr Suc.prems(1) obtain ns e where
        "walk parse n (NextHostname d) = Some (ns, e)" and r: "r = (Next d # ns, e)" by auto
      then have "walk parse m' (NextHostname d) = Some (ns, e)" using Suc.IH m(2) by blast
      with Inr False r m(1) show ?thesis by simp
    qed (use Suc.prems Inr m(1) in simp)
  qed (use Suc.prems m(1) in simp)
qed simp

text \<open>
  The contract a router relies on: hosts \<open>host r 0, host r 1, \<dots>\<close> of a good route \<open>r\<close> lead
  through its nodes to an end.
\<close>

locale route_parser =
  fixes parse :: "string \<Rightarrow> 'e + domain"
    and ok :: "'r \<Rightarrow> bool"
    and nodes :: "'r \<Rightarrow> string list"
    and host :: "'r \<Rightarrow> nat \<Rightarrow> string"
    and final :: "'r \<Rightarrow> domain"
  assumes parse_mid: "ok r \<Longrightarrow> k < length (nodes r) \<Longrightarrow>
      \<exists>d. parse (host r k) = Inr d \<and> IsHybrid d \<and> \<not> IsEnd d \<and> Next d = nodes r ! k \<and>
          NextHostname d = host r (Suc k)"
    and parse_end: "ok r \<Longrightarrow> parse (host r (length (nodes r))) = Inr (final r) \<and> IsEnd (final r)"
begin

lemma walk_from:
  assumes "ok r" and "k \<le> length (nodes r)"
  shows "walk parse (Suc (length (nodes r) - k)) (host r k) = Some (drop k (nodes r), Inr (final r))"
  using assms(2)
proof (induction "length (nodes r) - k" arbitrary: k)
  case 0
  then show ?case using parse_end[OF assms(1)] by simp
next
  case (Suc j)
  then have k: "k < length (nodes r)" by simp
  have "j = length (nodes r) - Suc k" using Suc.hyps(2) by simp
  then have IH: "walk parse (Suc (length (nodes r) - Suc k)) (host r (Suc k))
      = Some (drop (Suc k) (nodes r), Inr (final r))"
    using Suc.hyps(1)[of "Suc k"] k by simp
  have fuel: "Suc (length (nodes r) - k) = Suc (Suc (length (nodes r) - Suc k))" using k by simp
  from parse_mid[OF assms(1) k] obtain d where d: "parse (host r k) = Inr d" "IsHybrid d"
    "\<not> IsEnd d" "Next d = nodes r ! k" "NextHostname d = host r (Suc k)" by blast
  show ?case
    unfolding fuel walk.simps(2)[of parse "Suc (length (nodes r) - Suc k)"]
    by (simp add: d IH k Cons_nth_drop_Suc del: walk.simps)
qed

lemma walk_all: "ok r \<Longrightarrow> walk parse (Suc (length (nodes r))) (host r 0) = Some (nodes r, Inr (final r))"
  using walk_from[of r 0] by simp

end

definition final_domain :: "string \<Rightarrow> bool \<Rightarrow> string list \<Rightarrow> domain" where
  "final_domain dial over rs =
     \<lparr>IsHybrid = True, IsOver = over, DialHostname = dial, Next = [], IsBegin = False, IsEnd = True,
      NextHostname = (if over then dial else hop_host dial over rs 0)\<rparr>"

interpretation hybrid_route: route_parser NewDomain
  "\<lambda>(dial, over, rs). route_ok dial over rs"
  "\<lambda>(dial, over, rs). rs"
  "\<lambda>(dial, over, rs). hop_host dial over rs"
  "\<lambda>(dial, over, rs). final_domain dial over rs"
  by unfold_locales (auto simp: NewDomain_hop final_domain_def route_ok_def)

section \<open>Every host name is walked to an end\<close>

lemma route_loop_result:
  assumes "route_loop before raws d = Inr (d', rs)"
  obtains (unmarked) "list_all IsHybridName raws" "d' = d" "rs = before @ raws"
  | (at_end) pre n where "raws = pre @ [CHR ''-'' # n]" "list_all IsHybridName (pre @ [n])"
      "d' = d\<lparr>IsBegin := False, IsEnd := True\<rparr>" "rs = before @ pre @ [n]"
  | (mid) pre n nxt rest where "raws = pre @ (CHR ''-'' # n) # nxt # rest"
      "list_all IsHybridName (pre @ [n, nxt])" "d' = d\<lparr>IsBegin := False, Next := nxt\<rparr>"
      "rs = before @ pre @ n # (CHR ''-'' # nxt) # rest"
  using assms
proof (induction raws arbitrary: before thesis)
  case Nil
  then show ?case by simp
next
  case (Cons raw rest)
  show ?case
  proof (cases "raw \<noteq> [] \<and> hd raw = CHR ''-''")
    case True
    then have raw: "raw = CHR ''-'' # tl raw" by (metis list.collapse)
    with Cons.prems(4) True show ?thesis
      using Cons.prems(2)[of "[]" "tl raw"] Cons.prems(3)[of "[]" "tl raw"]
      by (auto simp: Let_def split: if_splits list.splits)
  next
    case False
    with Cons.prems(4) have nm: "IsHybridName raw" and
      rec: "route_loop (before @ [raw]) rest d = Inr (d', rs)" by (auto split: if_splits)
    show ?thesis
    proof (rule Cons.IH[OF _ _ _ rec])
      show ?thesis if "list_all IsHybridName rest" "d' = d" "rs = (before @ [raw]) @ rest"
        using that nm Cons.prems(1) by simp
      show ?thesis if "rest = pre @ [CHR ''-'' # n]" "list_all IsHybridName (pre @ [n])"
        "d' = d\<lparr>IsBegin := False, IsEnd := True\<rparr>" "rs = (before @ [raw]) @ pre @ [n]" for pre n
        using that nm Cons.prems(2)[of "raw # pre" n] by simp
      show ?thesis if "rest = pre @ (CHR ''-'' # n) # nxt # rest'"
        "list_all IsHybridName (pre @ [n, nxt])" "d' = d\<lparr>IsBegin := False, Next := nxt\<rparr>"
        "rs = (before @ [raw]) @ pre @ n # (CHR ''-'' # nxt) # rest'" for pre n nxt rest'
        using that nm Cons.prems(3)[of "raw # pre" n nxt rest'] by simp
    qed
  qed
qed

text \<open>A host name whose route is marked: the mark moves right until the route or its names end.\<close>

lemma walk_marked:
  assumes "\<forall>r \<in> set (pre @ n # rest). CHR ''.'' \<notin> set r" "list_all IsHybridName pre"
    and "''with'' \<notin> set rest" "over \<Longrightarrow> ''over'' \<notin> set rest"
    and dial: "over \<Longrightarrow> ''with'' \<notin> set (tl (Split CHR ''.'' dial))"
  shows "\<exists>r. walk NewDomain (Suc (length rest))
      (dial @ tag_of over @ Join ''.'' (pre @ (CHR ''-'' # n) # rest) @ HybridSuffix) = Some r"
  using assms(1-4)
proof (induction rest arbitrary: pre n)
  case Nil
  let ?raws = "pre @ [CHR ''-'' # n]"
  have kw: "''with'' \<notin> set ?raws" "''over'' \<notin> set ?raws"
    using Nil.prems IsHybridName_not_keyword by (auto simp: list_all_iff)
  have "NewDomain (dial @ tag_of over @ Join ''.'' ?raws @ HybridSuffix) = route_domain (tag_of over) ?raws
        \<lparr>IsHybrid = True, IsOver = over, DialHostname = dial, Next = [],
         IsBegin = True, IsEnd = False, NextHostname = []\<rparr>"
    using Nil.prems kw dial by (intro NewDomain_route) auto
  then show ?case
    using route_loop_unmarked[OF Nil.prems(2), of "[]" "[CHR ''-'' # n]"]
    by (simp add: route_domain_def Let_def)
next
  case (Cons nxt rest)
  let ?raws = "pre @ (CHR ''-'' # n) # nxt # rest"
  have kw: "''with'' \<notin> set ?raws" "over \<Longrightarrow> ''over'' \<notin> set ?raws"
    using Cons.prems IsHybridName_not_keyword by (auto simp: list_all_iff)
  have nd: "NewDomain (dial @ tag_of over @ Join ''.'' ?raws @ HybridSuffix) = route_domain (tag_of over) ?raws
        \<lparr>IsHybrid = True, IsOver = over, DialHostname = dial, Next = [],
         IsBegin = True, IsEnd = False, NextHostname = []\<rparr>"
    using Cons.prems kw dial by (intro NewDomain_route) auto
  show ?case
  proof (cases "IsHybridName n \<and> IsHybridName nxt")
    case True
    obtain ns e where "walk NewDomain (Suc (length rest))
        (dial @ tag_of over @ Join ''.'' ((pre @ [n]) @ (CHR ''-'' # nxt) # rest) @ HybridSuffix) = Some (ns, e)"
      using Cons.IH[of "pre @ [n]" nxt] Cons.prems True by auto
    then show ?thesis
      using nd route_loop_unmarked[OF Cons.prems(2), of "[]" "(CHR ''-'' # n) # nxt # rest"] True
      unfolding list.size(4) add_Suc_right add_0_right walk.simps(2)[of _ "Suc (length rest)"]
      by (simp add: route_domain_def del: walk.simps)
  next
    case False
    then show ?thesis
      using nd route_loop_unmarked[OF Cons.prems(2), of "[]" "(CHR ''-'' # n) # nxt # rest"]
      by (auto simp: route_domain_def Let_def)
  qed
qed

lemma Join_length: "length raws \<le> Suc (length (Join ''.'' raws))"
proof (induction raws)
  case (Cons x xs)
  then show ?case by (cases "xs = []") (simp_all add: Join_Cons)
qed simp

lemma NewDomain_find_tag_None:
  "suffix HybridSuffix h \<Longrightarrow> find_tag h = None \<Longrightarrow> NewDomain h = Inl ErrBaddomain"
  by (simp add: NewDomain_def find_tag_def)

lemma NewDomain_plain:
  "\<not> suffix HybridSuffix h \<Longrightarrow> NewDomain h = Inr (zero_domain\<lparr>DialHostname := h\<rparr>)"
  by (simp add: NewDomain_def zero_domain_def)

lemma walk_route:
  assumes "raws \<noteq> []" "\<forall>r \<in> set raws. CHR ''.'' \<notin> set r"
    "''with'' \<notin> set raws" "over \<Longrightarrow> ''over'' \<notin> set raws"
    "over \<Longrightarrow> ''with'' \<notin> set (tl (Split CHR ''.'' dial))"
  shows "\<exists>r. walk NewDomain (Suc (length raws))
      (dial @ tag_of over @ Join ''.'' raws @ HybridSuffix) = Some r"
proof -
  let ?d0 = "\<lparr>IsHybrid = True, IsOver = over, DialHostname = dial, Next = [],
         IsBegin = True, IsEnd = False, NextHostname = []\<rparr>"
  let ?h = "dial @ tag_of over @ Join ''.'' raws @ HybridSuffix"
  have nd: "NewDomain ?h = route_domain (tag_of over) raws ?d0"
    using assms by (intro NewDomain_route) auto
  show ?thesis
  proof (cases "route_loop [] raws ?d0")
    case (Inl e)
    then show ?thesis using nd by (simp add: route_domain_def)
  next
    case (Inr p)
    obtain d' rs where p: "p = (d', rs)" by (cases p)
    from Inr[unfolded p] show ?thesis
    proof (cases rule: route_loop_result)
      case unmarked
      obtain x xs where raws: "raws = x # xs" using assms(1) by (cases raws) auto
      have "\<exists>r. walk NewDomain (Suc (length xs))
          (dial @ tag_of over @ Join ''.'' ([] @ (CHR ''-'' # x) # xs) @ HybridSuffix) = Some r"
        using assms raws by (intro walk_marked) auto
      then show ?thesis
        using nd Inr p unmarked raws
        unfolding raws list.size(4) add_Suc_right add_0_right walk.simps(2)[of _ "Suc (length xs)"]
        by (auto simp: route_domain_def simp del: walk.simps)
    next
      case (at_end pre n)
      then show ?thesis using nd Inr p by (simp add: route_domain_def Let_def)
    next
      case (mid pre n nxt rest)
      have "\<exists>r. walk NewDomain (Suc (length (nxt # rest)))
          (dial @ tag_of over @ Join ''.'' (pre @ (CHR ''-'' # n) # nxt # rest) @ HybridSuffix) = Some r"
        using assms mid by (intro walk_marked) auto
      then obtain r where "walk NewDomain (Suc (length (nxt # rest))) ?h = Some r"
        using mid by auto
      then have "walk NewDomain (Suc (length raws)) ?h = Some r"
        by (rule walk_more_fuel) (simp add: mid)
      then show ?thesis by blast
    qed
  qed
qed

lemma route_domain_result:
  fixes over :: bool and dial :: string
  defines "host \<equiv> \<lambda>raws. dial @ tag_of over @ Join ''.'' raws @ HybridSuffix"
  assumes "route_domain (tag_of over) raws \<lparr>IsHybrid = True, IsOver = over, DialHostname = dial, Next = [],
         IsBegin = True, IsEnd = False, NextHostname = []\<rparr> = Inr d" and "raws \<noteq> []"
  obtains (first) n rest where "raws = n # rest" "list_all IsHybridName (n # rest)"
      "d = \<lparr>IsHybrid = True, IsOver = over, DialHostname = dial, Next = n, IsBegin = True, IsEnd = False,
         NextHostname = host ((CHR ''-'' # n) # rest)\<rparr>"
  | (middle) pre n nxt rest where "raws = pre @ (CHR ''-'' # n) # nxt # rest" "list_all IsHybridName (pre @ [n, nxt])"
      "d = \<lparr>IsHybrid = True, IsOver = over, DialHostname = dial, Next = nxt, IsBegin = False, IsEnd = False,
         NextHostname = host (pre @ n # (CHR ''-'' # nxt) # rest)\<rparr>"
  | (final) pre n where "raws = pre @ [CHR ''-'' # n]" "list_all IsHybridName (pre @ [n])"
      "d = \<lparr>IsHybrid = True, IsOver = over, DialHostname = dial, Next = [], IsBegin = False, IsEnd = True,
         NextHostname = (if over then dial else host (pre @ [n]))\<rparr>"
proof -
  let ?d0 = "\<lparr>IsHybrid = True, IsOver = over, DialHostname = dial, Next = [],
         IsBegin = True, IsEnd = False, NextHostname = []\<rparr>"
  from assms(2) obtain d' rs where loop: "route_loop [] raws ?d0 = Inr (d', rs)"
    by (auto simp: route_domain_def rbind_Inr_iff)
  from loop show ?thesis
  proof (cases rule: route_loop_result)
    case unmarked
    with assms(3) obtain n rest where "raws = n # rest" by (cases raws) auto
    with assms(2) loop unmarked show ?thesis by (intro first[of n rest]) (auto simp: route_domain_def host_def)
  next
    case (at_end pre n)
    with assms(2) loop show ?thesis by (intro final[of pre n]) (auto simp: route_domain_def Let_def host_def)
  next
    case (mid pre n nxt rest)
    with assms(2) loop show ?thesis by (intro middle[of pre n nxt rest]) (auto simp: route_domain_def Let_def host_def)
  qed
qed

text \<open>
  What the comments of the type do not say: of a name that is not hybrid only \<open>DialHostname\<close> is set, not \<open>IsEnd\<close>
  (\<open>NewDomain_plain\<close>), and a route without a host has an empty \<open>DialHostname\<close>.
\<close>

lemma NewDomain_empty_dial:
  "\<exists>d. NewDomain ''.over.hybrid'' = Inr d \<and> DialHostname d = [] \<and> NextHostname d = []"
  using NewDomain_no_route[of True "[]"] by (simp add: tag_of_eq)

section \<open>Properties\<close>

text \<open>
  C6: a request for \<open>dial.over.r1.\<dots>.rn.hybrid\<close> (or \<open>with\<close>), with valid node names, is sent to
  \<open>r1\<close>, \<open>\<dots>\<close>, \<open>rn\<close> in this order when every node forwards the host name \<open>NewDomain\<close> computes, and
  the last node reads it as the end of the route: with \<open>over\<close> its host is \<open>dial\<close>, with \<open>with\<close> the
  host name the client used. (For \<open>over\<close>, \<open>dial\<close> must have no inner component \<open>with\<close>.)
\<close>

theorem walk_visits_route:
  assumes "route_ok dial over rs"
  shows "walk NewDomain (Suc (length rs)) (hop_host dial over rs 0)
    = Some (rs, Inr \<lparr>IsHybrid = True, IsOver = over, DialHostname = dial, Next = [],
        IsBegin = False, IsEnd = True,
        NextHostname = (if over then dial else hop_host dial over rs 0)\<rparr>)"
  using hybrid_route.walk_all[of "(dial, over, rs)"] assms by (simp add: final_domain_def del: walk.simps)

theorem walk_visits_route_witness:
  "walk NewDomain 4 ''192.168.22.22.over.a.b.c.hybrid''
    = Some ([''a'', ''b'', ''c''], Inr \<lparr>IsHybrid = True, IsOver = True, DialHostname = ''192.168.22.22'',
        Next = [], IsBegin = False, IsEnd = True, NextHostname = ''192.168.22.22''\<rparr>)"
proof -
  have "route_ok ''192.168.22.22'' True [''a'', ''b'', ''c'']" by code_simp
  from walk_visits_route[OF this]
  have "walk NewDomain 4 (hop_host ''192.168.22.22'' True [''a'', ''b'', ''c''] 0)
    = Some ([''a'', ''b'', ''c''], Inr \<lparr>IsHybrid = True, IsOver = True, DialHostname = ''192.168.22.22'',
        Next = [], IsBegin = False, IsEnd = True, NextHostname = ''192.168.22.22''\<rparr>)"
    by (simp add: eval_nat_numeral del: walk.simps)
  moreover have "hop_host ''192.168.22.22'' True [''a'', ''b'', ''c''] 0 = ''192.168.22.22.over.a.b.c.hybrid''"
    by code_simp
  ultimately show ?thesis by (simp del: walk.simps)
qed

text \<open>
  C19: no host name makes nodes forward for ever: whatever the input, following the computed host
  names stops (at an end, at a plain host or with a parse error) after at most as many parses as
  the host name has bytes, plus one.
\<close>

theorem walk_terminates: "\<exists>nodes result. walk NewDomain (Suc (length h)) h = Some (nodes, result)"
proof -
  have "\<exists>n r. n \<le> Suc (length h) \<and> walk NewDomain n h = Some r"
  proof (cases "suffix HybridSuffix h")
    case False
    then have "walk NewDomain 1 h = Some ([], Inr (zero_domain\<lparr>DialHostname := h\<rparr>))"
      by (simp add: NewDomain_plain zero_domain_def)
    then show ?thesis by fastforce
  next
    case sfx: True
    show ?thesis
    proof (cases "find_tag h")
      case None
      with sfx have "walk NewDomain 1 h = Some ([], Inl ErrBaddomain)"
        by (simp add: NewDomain_find_tag_None)
      then show ?thesis by fastforce
    next
      case (Some it)
      obtain i t where "it = (i, t)" by (cases it)
      with Some have tag: "find_tag h = Some (i, t)" by simp
      from sfx tag show ?thesis
      proof (cases rule: host_shape)
        case (no_route dial over)
        then have "walk NewDomain 1 h = Some ([], NewDomain h)" by (simp add: NewDomain_no_route)
        then show ?thesis by fastforce
      next
        case (route dial over raws)
        have "\<exists>r. walk NewDomain (Suc (length raws)) h = Some r"
          unfolding route(1) by (rule walk_route) (use route in blast)+
        moreover have "Suc (length raws) \<le> Suc (length h)"
          using Join_length[of raws] by (simp add: route(1))
        ultimately show ?thesis by blast
      qed
    qed
  qed
  then show ?thesis using walk_more_fuel by (metis surj_pair)
qed

text \<open>
  C20: what parsing a name under \<open>.hybrid\<close> with a host to dial gives, in all fields. The name is the host, the tag that \<open>IsOver\<close> says and
  a route of one of four forms. Empty: this is the beginning and the end, and the next host name is the host itself with \<open>over\<close>
  and the whole name with \<open>with\<close>. Unmarked valid names: the beginning, the first of them is next and is marked in the next
  host name. With a mark before the last name: neither, the name after the mark is next and gets the mark. With a mark at
  the last name: the end, without a next node, and the next host name is the host with \<open>over\<close> and the name without its mark with \<open>with\<close>.
  A node that is next has a valid name, and the next host name is never empty.
\<close>

theorem NewDomain_result:
  assumes "NewDomain h = Inr d" "suffix HybridSuffix h" "DialHostname d \<noteq> []"
  shows "IsHybrid d \<and> (IsEnd d \<or> IsHybridName (Next d)) \<and> NextHostname d \<noteq> [] \<and>
    (let dial = DialHostname d; host = (\<lambda>raws. dial @ tag_of (IsOver d) @ Join ''.'' raws @ HybridSuffix) in
     h = dial @ tag_of (IsOver d) @ ''hybrid'' \<and> IsBegin d \<and> IsEnd d \<and> Next d = [] \<and> NextHostname d = (if IsOver d then dial else h) \<or>
     (\<exists>n rest. h = host (n # rest) \<and> list_all IsHybridName (n # rest) \<and> IsBegin d \<and> \<not> IsEnd d \<and> Next d = n \<and>
        NextHostname d = host ((CHR ''-'' # n) # rest)) \<or>
     (\<exists>pre n nxt rest. h = host (pre @ (CHR ''-'' # n) # nxt # rest) \<and> list_all IsHybridName (pre @ [n, nxt]) \<and>
        \<not> IsBegin d \<and> \<not> IsEnd d \<and> Next d = nxt \<and> NextHostname d = host (pre @ n # (CHR ''-'' # nxt) # rest)) \<or>
     (\<exists>pre n. h = host (pre @ [CHR ''-'' # n]) \<and> list_all IsHybridName (pre @ [n]) \<and> \<not> IsBegin d \<and> IsEnd d \<and> Next d = [] \<and>
        NextHostname d = (if IsOver d then dial else host (pre @ [n]))))"
proof -
  from assms(1,2) obtain i t where tag: "find_tag h = Some (i, t)"
    using NewDomain_find_tag_None by (cases "find_tag h") auto
  from assms(2) tag show ?thesis
  proof (cases rule: host_shape)
    case (no_route dial over)
    with NewDomain_no_route[of over dial] assms(1,3) show ?thesis by (auto simp: Let_def)
  next
    case (route dial over raws)
    have "NewDomain h = route_domain (tag_of over) raws
        \<lparr>IsHybrid = True, IsOver = over, DialHostname = dial, Next = [],
         IsBegin = True, IsEnd = False, NextHostname = []\<rparr>"
      unfolding route(1) by (rule NewDomain_route) (use route in blast)+
    with assms(1) have "route_domain (tag_of over) raws
        \<lparr>IsHybrid = True, IsOver = over, DialHostname = dial, Next = [],
         IsBegin = True, IsEnd = False, NextHostname = []\<rparr> = Inr d" by simp
    then show ?thesis using route(2)
    proof (cases rule: route_domain_result)
      case (first n rest)
      with route(1) assms(3) show ?thesis by (auto simp: Let_def)
    next
      case (middle pre n nxt rest)
      with route(1) assms(3) show ?thesis unfolding Let_def by (simp del: append_assoc) blast
    next
      case (final pre n)
      with route(1) assms(3) show ?thesis unfolding Let_def by (simp del: append_assoc) blast
    qed
  qed
qed

theorem NewDomain_result_witness:
  "\<exists>d. NewDomain ''github.com.over.vps-ipfs.hybrid'' = Inr d \<and> \<not> IsEnd d \<and> IsHybridName (Next d)"
proof -
  have p: "NewDomain ''github.com.over.vps-ipfs.hybrid'' = Inr
      \<lparr>IsHybrid = True, IsOver = True, DialHostname = ''github.com'', Next = ''vps-ipfs'',
       IsBegin = True, IsEnd = False, NextHostname = ''github.com.over.-vps-ipfs.hybrid''\<rparr>"
    by code_simp
  have "suffix HybridSuffix ''github.com.over.vps-ipfs.hybrid''" by code_simp
  with NewDomain_result[OF p] show ?thesis using p by auto
qed

end
