(* ===== verification/GoPath.thy ===== *)
theory GoPath
  imports GoLib
begin

text \<open>
  The parts of \<open>path/filepath\<close> (on Unix) and \<open>strconv\<close> the program uses: \<open>Clean\<close>, \<open>Join\<close>, \<open>Base\<close> and \<open>Itoa\<close>, with the
  laws the components need: joining a clean absolute directory with a relative name stays inside the directory exactly
  when the name does not climb out of it.
\<close>

named_theorems go_path \<open>laws of the path functions\<close>

section \<open>Clean, Join and Base\<close>

definition Separator :: char where "Separator = CHR ''/''"

definition IsAbs :: "string \<Rightarrow> bool" where
  "IsAbs p \<longleftrightarrow> (\<exists>r. p = Separator # r)"

lemma IsAbs_code [code, simp]: "IsAbs [] = False" "IsAbs (c # r) = (c = Separator)"
  by (auto simp: IsAbs_def)

text \<open>
  \<open>Clean\<close> reads the elements of the path from left to right; the stack (last element first) is what it has written. An
  empty element and \<open>.\<close> are skipped, \<open>..\<close> takes back the last element, and is itself written only in a relative path
  with nothing left to take back.
\<close>

fun clean_stack :: "bool \<Rightarrow> string list \<Rightarrow> string list \<Rightarrow> string list" where
  "clean_stack rooted st [] = st"
| "clean_stack rooted st (e # es) =
     (if e = [] \<or> e = ''.'' then clean_stack rooted st es
      else if e = ''..'' then
        (case st of
           x # xs \<Rightarrow> clean_stack rooted (if x = ''..'' then e # st else xs) es
         | [] \<Rightarrow> clean_stack rooted (if rooted then [] else [e]) es)
      else clean_stack rooted (e # st) es)"

definition path_Clean :: "string \<Rightarrow> string" where
  "path_Clean p =
     (let rooted = IsAbs p; es = rev (clean_stack rooted [] (Split Separator p)) in
      if rooted then Separator # Join [Separator] es
      else if es = [] then ''.'' else Join [Separator] es)"

text \<open>\<open>filepath.Join\<close>: empty leading elements are dropped.\<close>

definition path_Join :: "string list \<Rightarrow> string" where
  "path_Join es = (case dropWhile (\<lambda>e. e = []) es of [] \<Rightarrow> [] | es \<Rightarrow> path_Clean (Join [Separator] es))"

definition path_Base :: "string \<Rightarrow> string" where
  "path_Base p =
     (if p = [] then ''.''
      else let q = rev (dropWhile (\<lambda>c. c = Separator) (rev p)) in
        if q = [] then [Separator] else last (Split Separator q))"

section \<open>strconv.Itoa, and the verb d\<close>

fun digits :: "nat \<Rightarrow> string" where
  "digits n = (if n < 10 then [char_of (48 + n)] else digits (n div 10) @ [char_of (48 + n mod 10)])"

declare digits.simps [simp del]

definition Itoa :: "int \<Rightarrow> string" where
  "Itoa i = (if i < 0 then CHR ''-'' # digits (nat (- i)) else digits (nat i))"

section \<open>Plain elements\<close>

text \<open>An element of a path that stands for a name: not empty, not \<open>.\<close> or \<open>..\<close>, without a separator.\<close>

definition plain_elem :: "string \<Rightarrow> bool" where
  "plain_elem e \<longleftrightarrow> e \<noteq> [] \<and> e \<noteq> ''.'' \<and> e \<noteq> ''..'' \<and> Separator \<notin> set e"

lemma clean_stack_plain: "list_all plain_elem es \<Longrightarrow> clean_stack rooted st es = rev es @ st"
  by (induction es arbitrary: st) (auto simp: plain_elem_def)

lemma clean_stack_append: "clean_stack rooted st (xs @ ys) = clean_stack rooted (clean_stack rooted st xs) ys"
  by (induction rooted st xs rule: clean_stack.induct) (auto split: list.splits)

lemma clean_stack_rooted_plain:
  "list_all plain_elem st \<Longrightarrow> \<forall>e \<in> set es. Separator \<notin> set e \<Longrightarrow> list_all plain_elem (clean_stack True st es)"
proof (induction es arbitrary: st)
  case (Cons e es)
  show ?case
  proof (cases "e = ''..''")
    case True
    with Cons show ?thesis by (cases st) (auto simp: plain_elem_def)
  qed (use Cons in \<open>auto simp: plain_elem_def\<close>)
qed simp

text \<open>A clean absolute path is the separator and plain elements; these are its parts.\<close>

definition abs_path :: "string list \<Rightarrow> string" where
  "abs_path es = Separator # Join [Separator] es"

lemma Split_abs_path: "list_all plain_elem es \<Longrightarrow> es \<noteq> [] \<Longrightarrow> Split Separator (abs_path es) = [] # es"
  by (simp add: abs_path_def Split_Join plain_elem_def list_all_iff)

lemma Clean_abs_path [go_path]: "list_all plain_elem es \<Longrightarrow> path_Clean (abs_path es) = abs_path es"
  by (cases "es = []") (simp_all add: path_Clean_def Split_abs_path clean_stack_plain,
     simp_all add: abs_path_def)

lemma Clean_absolute [go_path]:
  assumes "IsAbs p" obtains es where "path_Clean p = abs_path es" "list_all plain_elem es"
proof
  let ?es = "rev (clean_stack True [] (Split Separator p))"
  show "path_Clean p = abs_path ?es" using assms by (simp add: path_Clean_def abs_path_def Let_def)
  show "list_all plain_elem ?es"
    using clean_stack_rooted_plain[of "[]" "Split Separator p"] by (simp add: Split_sep_free)
qed

lemma abs_path_inject: "list_all plain_elem xs \<Longrightarrow> list_all plain_elem ys \<Longrightarrow> abs_path xs = abs_path ys \<longleftrightarrow> xs = ys"
proof
  assume p: "list_all plain_elem xs" "list_all plain_elem ys" and eq: "abs_path xs = abs_path ys"
  have emp: "zs = []" if "Join [Separator] zs = []" "list_all plain_elem zs" for zs
    using that by (cases zs rule: remdups_adj.cases) (auto simp: plain_elem_def)
  show "xs = ys"
  proof (cases "xs = [] \<or> ys = []")
    case True
    with eq p emp show ?thesis unfolding abs_path_def by (metis Join.simps(1) list.inject)
  next
    case False
    with p eq show ?thesis using Split_abs_path by (metis list.inject)
  qed
qed simp

lemma Join_absolute:
  assumes "list_all plain_elem d"
  shows "path_Join [abs_path d, n] = abs_path (rev (clean_stack True (rev d) (Split Separator n)))"
proof -
  have sp: "Split Separator (abs_path d @ Separator # n) = Split Separator (abs_path d) @ Split Separator n"
    by (rule Split_append)
  have "clean_stack True [] (Split Separator (abs_path d)) = rev d"
  proof (cases "d = []")
    case False
    with assms show ?thesis by (simp add: Split_abs_path clean_stack_plain)
  qed (simp add: abs_path_def)
  then show ?thesis
    by (simp add: path_Join_def path_Clean_def sp clean_stack_append Let_def) (simp add: abs_path_def)
qed

text \<open>A relative name of plain elements stays inside the directory it is joined to.\<close>

lemma Join_plain [go_path]:
  "list_all plain_elem d \<Longrightarrow> list_all plain_elem es \<Longrightarrow> es \<noteq> [] \<Longrightarrow>
    path_Join [abs_path d, Join [Separator] es] = abs_path (d @ es)"
  by (simp add: Join_absolute Split_Join clean_stack_plain plain_elem_def list_all_iff)

lemma Base_abs_path [go_path]:
  assumes "list_all plain_elem es" "plain_elem e"
  shows "path_Base (abs_path (es @ [e])) = e"
proof -
  let ?p = "abs_path (es @ [e])"
  have all: "list_all plain_elem (es @ [e])" using assms by simp
  obtain u c where ec: "e = u @ [c]" "c \<noteq> Separator"
    using assms(2) unfolding plain_elem_def by (cases e rule: rev_cases) auto
  have "\<exists>v. ?p = v @ e" by (cases "es = []") (auto simp: abs_path_def Join_append)
  then obtain v where v: "?p = v @ e" by blast
  have "dropWhile (\<lambda>x. x = Separator) (rev ?p) = rev ?p" using v ec by simp
  then have "rev (dropWhile (\<lambda>x. x = Separator) (rev ?p)) = ?p" by simp
  moreover have "Split Separator ?p = [] # es @ [e]" using Split_abs_path[OF all] by simp
  ultimately show ?thesis using v ec unfolding path_Base_def Let_def by auto
qed

definition path_Dir :: "string \<Rightarrow> string" where
  "path_Dir p = path_Clean (rev (dropWhile (\<lambda>c. c \<noteq> Separator) (rev p)))"

lemma Dir_abs_path [go_path]:
  assumes "list_all plain_elem es" "plain_elem e" shows "path_Dir (abs_path (es @ [e])) = abs_path es"
proof (cases "es = []")
  case True
  have "dropWhile (\<lambda>c. c \<noteq> Separator) (rev e @ [Separator]) = [Separator]"
    using assms(2) by (subst dropWhile_append2) (auto simp: plain_elem_def)
  with True show ?thesis using Clean_abs_path[of "[]"] by (simp add: path_Dir_def abs_path_def)
next
  case False
  then have a: "abs_path (es @ [e]) = (abs_path es @ [Separator]) @ e" by (simp add: abs_path_def Join_append)
  have "dropWhile (\<lambda>c. c \<noteq> Separator) (rev e @ Separator # rev (abs_path es)) = Separator # rev (abs_path es)"
    using assms(2) by (subst dropWhile_append2) (auto simp: plain_elem_def)
  then have "path_Dir (abs_path (es @ [e])) = path_Clean (abs_path es @ Separator # [])" unfolding a by (simp add: path_Dir_def)
  moreover have "Split Separator (abs_path es @ Separator # []) = Split Separator (abs_path es) @ [[]]" by (subst Split_append) simp
  ultimately show ?thesis
    using assms(1) False
    by (simp add: path_Clean_def Split_abs_path clean_stack_append clean_stack_plain Let_def) (simp add: abs_path_def)
qed

section \<open>Names below a root\<close>

text \<open>
  How much of a path both packers cut off to make it relative to a clean root: the root, and a separator unless the root ends
  in one.
\<close>

definition root_len :: "string \<Rightarrow> nat" where
  "root_len root = (if last root \<noteq> Separator then Suc (length root) else length root)"

lemma root_len_drop:
  assumes "es \<noteq> []" "list_all plain_elem r"
  shows "drop (root_len (abs_path r)) (abs_path (r @ es)) = Join [Separator] es" "root_len (abs_path r) \<le> length (abs_path (r @ es))"
proof -
  have "last (abs_path r) = Separator \<longleftrightarrow> r = []"
  proof (cases r rule: rev_cases)
    case (snoc xs x)
    then obtain u c where "x = u @ [c]" "c \<noteq> Separator"
      using assms(2) unfolding plain_elem_def by (cases x rule: rev_cases) auto
    with snoc show ?thesis by (cases "xs = []") (simp_all add: abs_path_def Join_append)
  qed (simp add: abs_path_def)
  with assms(1) show "drop (root_len (abs_path r)) (abs_path (r @ es)) = Join [Separator] es"
      "root_len (abs_path r) \<le> length (abs_path (r @ es))"
    by (cases "r = []"; simp add: root_len_def abs_path_def Join_append)+
qed

text \<open>
  This does not fit a root that is the working directory: its clean form is a dot, which joining a name to it drops again, so
  that two characters of the name are cut off.
\<close>

lemma root_len_dot:
  assumes "plain_elem n" shows "path_Join [path_Clean ''.'', n] = n" "root_len (path_Clean ''.'') = 2"
proof -
  have c: "path_Clean ''.'' = ''.''" by code_simp
  then show "root_len (path_Clean ''.'') = 2" by (simp add: root_len_def Separator_def)
  have sp: "Split Separator (''.'' @ Separator # n) = [''.''] @ Split Separator n"
    by (subst Split_append) (simp add: Separator_def)
  have "Split Separator n = [n]" using assms Split_Join[of "[n]" Separator] by (simp add: plain_elem_def)
  with assms sp show "path_Join [path_Clean ''.'', n] = n"
    unfolding c by (simp add: path_Join_def path_Clean_def Let_def plain_elem_def) (simp add: Separator_def)
qed

end
