(* ===== verification/IpfsRepo.thy ===== *)
theory IpfsRepo
  imports GoPath "HOL-Library.Multiset"
begin

text \<open>
  The repository of the IPFS node on disk: creating it with the program's own settings, opening it, migrating an old one
  (\<open>src/pkg/ipfs/init.go\<close>, \<open>src/pkg/ipfs/migrate-directly.go\<close>).

  The file system and go-ipfs are not part of the program: the results of their calls are the fields of \<open>repo_env\<close>. What
  the program does to a repository is the list of events a call gives beside its result, in order, with the calls
  that failed.
\<close>

section \<open>Results\<close>

text \<open>Errors of the operating system, with their text, as \<open>os.IsNotExist\<close> and \<open>os.IsPermission\<close> tell them apart.\<close>

datatype fs_error = NotExist string | Permission string | FsErr string

fun fs_text :: "fs_error \<Rightarrow> string" where
  "fs_text (NotExist m) = m"
| "fs_text (Permission m) = m"
| "fs_text (FsErr m) = m"

definition IsNotExist :: "fs_error option \<Rightarrow> bool" where
  "IsNotExist e = (case e of Some (NotExist _) \<Rightarrow> True | _ \<Rightarrow> False)"

definition IsPermission :: "fs_error option \<Rightarrow> bool" where
  "IsPermission e = (case e of Some (Permission _) \<Rightarrow> True | _ \<Rightarrow> False)"

datatype ipfs_error =
  ErrIsOffline | ErrIsOnline | ErrProtocolListened | errRepoExists | ErrNeedMigration | ErrDaemonRunning
| OsErr fs_error | IpfsErr string

datatype 'a ipfs_reply = IOk 'a | IErr ipfs_error | IPanic

datatype cfg_value = CText string | CTexts "string list" | CInt int | CBool bool

datatype 'conf repo_event =
  EvMkdirAll string | EvCreate string | EvRemove string | EvMkdir string
| EvRepoInit string 'conf | EvSetKey string cfg_value | EvKeyspace | EvOpen | EvApply int

type_synonym ('conf, 'a) run = "'conf repo_event list \<times> 'a ipfs_reply"

text \<open>A call that does something, a call that only returns, and the next call after an error check.\<close>

definition act :: "'conf repo_event \<Rightarrow> ipfs_error option \<Rightarrow> ('conf, unit) run" where
  "act ev e = ([ev], case e of None \<Rightarrow> IOk () | Some e \<Rightarrow> IErr e)"

definition ret :: "ipfs_error + 'a \<Rightarrow> ('conf, 'a) run" where
  "ret r = ([], case r of Inl e \<Rightarrow> IErr e | Inr x \<Rightarrow> IOk x)"

definition check_then :: "('conf, 'a) run \<Rightarrow> ('a \<Rightarrow> ('conf, 'b) run) \<Rightarrow> ('conf, 'b) run" where
  "check_then m f =
     (case m of (evs, IOk x) \<Rightarrow> (case f x of (evs', r) \<Rightarrow> (evs @ evs', r))
      | (evs, IErr e) \<Rightarrow> (evs, IErr e) | (evs, IPanic) \<Rightarrow> (evs, IPanic))"

lemma check_then_simps [simp]:
  "check_then (evs, IOk x) f = (evs @ fst (f x), snd (f x))"
  "check_then (evs, IErr e) f = (evs, IErr e)" "check_then (evs, IPanic) f = (evs, IPanic)"
  by (simp_all add: check_then_def split: prod.splits)

lemma check_then_IOk:
  "check_then m f = (evs, IOk y) \<longleftrightarrow> (\<exists>a x b. m = (a, IOk x) \<and> f x = (b, IOk y) \<and> evs = a @ b)"
  by (cases m, cases "snd m") (auto simp: check_then_def split: prod.splits)

text \<open>What a sequence of calls does is what its parts do.\<close>

lemma check_then_events: "set (fst (check_then m f)) \<subseteq> set (fst m) \<union> \<Union> ((\<lambda>x. set (fst (f x))) ` {x. snd m = IOk x})"
  by (cases m, cases "snd m") auto

lemma act_simps [simp]: "fst (act ev e) = [ev]" "act ev e = (evs, IOk ()) \<longleftrightarrow> evs = [ev] \<and> e = None"
  by (auto simp: act_def split: option.splits)

lemma ret_simps [simp]: "fst (ret r) = []" "ret r = (evs, IOk x) \<longleftrightarrow> evs = [] \<and> r = Inr x"
  by (auto simp: ret_def split: sum.splits)

section \<open>The world\<close>

record 'conf repo_env =
  eStat :: "string \<Rightarrow> fs_error option"
  eLocked :: "string \<Rightarrow> ipfs_error + bool"
  eDataStorePath :: "string \<Rightarrow> ipfs_error + string"
  eMkdirAll :: "string \<Rightarrow> fs_error option"
  eStatMade :: "string \<Rightarrow> fs_error option"
  eCreate :: "string \<Rightarrow> fs_error option"
  eRemove :: "string \<Rightarrow> fs_error option"
  eMkdir :: "string \<Rightarrow> fs_error option"
  eIsInitialized :: "string \<Rightarrow> bool"
  eConfigInit :: "int \<Rightarrow> ipfs_error + 'conf"
  eProfiles :: "string \<Rightarrow> ('conf \<Rightarrow> ipfs_error + 'conf) option"
  eRepoInit :: "string \<Rightarrow> 'conf \<Rightarrow> ipfs_error option"
  eOpenConfig :: "ipfs_error option"
  eSetKey :: "string \<Rightarrow> ipfs_error option"
  ePortFree :: "int \<Rightarrow> bool"
  eMapOrder :: "(string \<times> cfg_value) list \<Rightarrow> (string \<times> cfg_value) list"
  eOpenKeys :: "ipfs_error option"
  eKeysNode :: "ipfs_error option"
  eKeysRouting :: "ipfs_error option"
  eKeyspace :: "ipfs_error option"
  eOpen :: "ipfs_error option"
  eVersion :: "ipfs_error + string option"
  eAtoi :: "string \<Rightarrow> ipfs_error + int"
  eApply :: "int \<Rightarrow> string option"
  eReopen :: "ipfs_error option"

section \<open>Lock files (Fsck, EnsureNoIpfs)\<close>

definition EnsureNoIpfs :: "'conf repo_env \<Rightarrow> string \<Rightarrow> ipfs_error + unit" where
  "EnsureNoIpfs E repoPath =
     rbind (eLocked E repoPath) (\<lambda>daemonLocked. if daemonLocked then Inl ErrDaemonRunning else Inr ())"

definition LockFile :: string where "LockFile = ''repo.lock''"

definition remove_lock :: "'conf repo_env \<Rightarrow> string \<Rightarrow> ('conf, unit) run" where
  "remove_lock E p = act (EvRemove p) (if eRemove E p \<noteq> None \<and> \<not> IsNotExist (eRemove E p) then map_option OsErr (eRemove E p) else None)"

definition Fsck :: "'conf repo_env \<Rightarrow> string \<Rightarrow> ('conf, unit) run" where
  "Fsck E repoRoot =
     check_then (ret (EnsureNoIpfs E repoRoot)) (\<lambda>_.
     check_then (ret (eDataStorePath E repoRoot)) (\<lambda>dsPath.
     check_then (remove_lock E (path_Join [repoRoot, LockFile])) (\<lambda>_.
     check_then (remove_lock E (path_Join [dsPath, ''LOCK''])) (\<lambda>_.
     remove_lock E (path_Join [repoRoot, ''api''])))))"

section \<open>Creating a repository (Init)\<close>

definition checkWritable :: "'conf repo_env \<Rightarrow> string \<Rightarrow> ('conf, unit) run" where
  "checkWritable E dir =
     check_then (act (EvMkdirAll dir) (map_option OsErr (eMkdirAll E dir))) (\<lambda>_.
     (case eStatMade E dir of
        None \<Rightarrow>
          (let testfile = path_Join [dir, ''test''] in
           check_then (act (EvCreate testfile)
             (case eCreate E testfile of None \<Rightarrow> None
              | Some err \<Rightarrow> Some (IpfsErr (if IsPermission (Some err)
                   then dir @ '' is not writeable by the current user''
                   else ''unexpected error while checking writeablility of repo root: '' @ fs_text err))))
           (\<lambda>_. act (EvRemove testfile) (map_option OsErr (eRemove E testfile))))
      | Some err \<Rightarrow>
          if IsNotExist (Some err) then act (EvMkdir dir) (map_option OsErr (eMkdir E dir))
          else ret (Inl (if IsPermission (Some err)
                         then IpfsErr (''cannot write to '' @ fs_text err @ '', incorrect permissions'') else OsErr err))))"

fun apply_profiles :: "'conf repo_env \<Rightarrow> string list \<Rightarrow> 'conf \<Rightarrow> ipfs_error + 'conf" where
  "apply_profiles E [] conf = Inr conf"
| "apply_profiles E (profile # ps) conf =
     (case eProfiles E profile of
        None \<Rightarrow> Inl (IpfsErr (''invalid configuration profile: '' @ profile))
      | Some transform \<Rightarrow> rbind (transform conf) (apply_profiles E ps))"

text \<open>\<open>findFreePortAfter\<close>: \<open>free p\<close> says whether listening on port \<open>p\<close> succeeds.\<close>

fun port_loop :: "(int \<Rightarrow> bool) \<Rightarrow> int \<Rightarrow> nat \<Rightarrow> nat \<Rightarrow> int option" where
  "port_loop free port idx 0 = None"
| "port_loop free port idx (Suc tries) =
     (if free (port + int idx) then Some (port + int idx) else port_loop free port (Suc idx) tries)"

definition findFreePortAfter :: "(int \<Rightarrow> bool) \<Rightarrow> int \<Rightarrow> int \<Rightarrow> int" where
  "findFreePortAfter free port maxTries = (case port_loop free port 0 (nat maxTries) of Some p \<Rightarrow> p | None \<Rightarrow> port)"

text \<open>The settings of a new repository; Go's map is walked in some order, \<open>eMapOrder\<close>.\<close>

definition custom_config :: "int \<Rightarrow> (string \<times> cfg_value) list" where
  "custom_config swarmPort = [
     (''Addresses.Swarm'', CTexts [''/ip4/0.0.0.0/tcp/'' @ Itoa swarmPort, ''/ip6/::/tcp/'' @ Itoa swarmPort]),
     (''Addresses.API'', CText []),
     (''Addresses.Gateway'', CText []),
     (''API.HTTPHeaders.Access-Control-Allow-Origin'', CTexts [''*'']),
     (''Reprovider.Interval'', CText ''2h''),
     (''Swarm.ConnMgr.HighWater'', CInt 200),
     (''Swarm.ConnMgr.LowWater'', CInt 100),
     (''Swarm.EnableRelayHop'', CBool True)]"

fun set_keys :: "'conf repo_env \<Rightarrow> (string \<times> cfg_value) list \<Rightarrow> ('conf, unit) run" where
  "set_keys E [] = ([], IOk ())"
| "set_keys E ((k, v) # kvs) = check_then (act (EvSetKey k v) (eSetKey E k)) (\<lambda>_. set_keys E kvs)"

definition initializeCustomConfig :: "'conf repo_env \<Rightarrow> ('conf, unit) run" where
  "initializeCustomConfig E =
     check_then (act EvOpen (eOpenConfig E)) (\<lambda>_.
     (let swarmPort = findFreePortAfter (ePortFree E) 4001 100 in
      set_keys E (eMapOrder E (custom_config swarmPort))))"

definition initializeIpnsKeyspace :: "'conf repo_env \<Rightarrow> ('conf, unit) run" where
  "initializeIpnsKeyspace E =
     check_then (act EvOpen (eOpenKeys E)) (\<lambda>_.
     check_then (ret (case eKeysNode E of Some e \<Rightarrow> Inl e | None \<Rightarrow> Inr ())) (\<lambda>_.
     check_then (ret (case eKeysRouting E of Some e \<Rightarrow> Inl e | None \<Rightarrow> Inr ())) (\<lambda>_.
     act EvKeyspace (eKeyspace E))))"

definition repo_Init :: "'conf repo_env \<Rightarrow> string \<Rightarrow> int \<Rightarrow> string list \<Rightarrow> 'conf option \<Rightarrow> ('conf, unit) run" where
  "repo_Init E repoRoot nBitsForKeypair confProfiles conf =
     check_then (ret (EnsureNoIpfs E repoRoot)) (\<lambda>_.
     check_then (checkWritable E repoRoot) (\<lambda>_.
     if eIsInitialized E repoRoot then ret (Inl errRepoExists) else
     check_then (ret (case conf of None \<Rightarrow> eConfigInit E nBitsForKeypair | Some c \<Rightarrow> Inr c)) (\<lambda>conf.
     check_then (ret (apply_profiles E confProfiles conf)) (\<lambda>conf.
     check_then (act (EvRepoInit repoRoot conf) (eRepoInit E repoRoot conf)) (\<lambda>_.
     check_then (initializeCustomConfig E) (\<lambda>_.
     initializeIpnsKeyspace E))))))"

definition nBitsForKeypairDefault :: int where "nBitsForKeypairDefault = 4096"

definition InitWithDefaults :: "'conf repo_env \<Rightarrow> string \<Rightarrow> string list \<Rightarrow> ('conf, unit) run" where
  "InitWithDefaults E repoRoot profile = repo_Init E repoRoot nBitsForKeypairDefault profile None"

definition InitWithDefaultsIfNotExist :: "'conf repo_env \<Rightarrow> string \<Rightarrow> string list \<Rightarrow> ('conf, unit) run" where
  "InitWithDefaultsIfNotExist E repoRoot profile =
     (if IsNotExist (eStat E repoRoot) then InitWithDefaults E repoRoot profile
      else ret (case eStat E repoRoot of None \<Rightarrow> Inr () | Some e \<Rightarrow> Inl (OsErr e)))"

section \<open>Migrating a repository\<close>

text \<open>The table of migrations has one for each version before the current one.\<close>

definition migrations_len :: nat where "migrations_len = 7"

definition doMigrateOneStep :: "'conf repo_env \<Rightarrow> int \<Rightarrow> ('conf, unit) run" where
  "doMigrateOneStep E n =
     (if n < 0 \<or> n \<ge> int migrations_len then ([], IPanic)
      else act (EvApply n) (case eApply E n of None \<Rightarrow> None
             | Some e \<Rightarrow> Some (IpfsErr (''migration '' @ Itoa n @ '' to '' @ Itoa (n + 1) @ '' failed: '' @ e))))"

function migrate_loop :: "'conf repo_env \<Rightarrow> int \<Rightarrow> int \<Rightarrow> ('conf, unit) run" where
  "migrate_loop E cur to =
     (if cur < to then
        (case doMigrateOneStep E cur of
           (evs, IOk _) \<Rightarrow> (case migrate_loop E (cur + 1) to of (evs', r) \<Rightarrow> (evs @ evs', r))
         | (evs, r) \<Rightarrow> (evs, r))
      else ([], IOk ()))"
  by pat_completeness auto
termination by (relation "measure (\<lambda>(E, cur, to). nat (to - cur))") auto

declare migrate_loop.simps [simp del]

text \<open>The version file: absent means version 0.\<close>

definition GetRepoVersion :: "'conf repo_env \<Rightarrow> ipfs_error + int" where
  "GetRepoVersion E = rbind (eVersion E) (\<lambda>v. case v of None \<Rightarrow> Inr 0 | Some ver \<Rightarrow> eAtoi E ver)"

definition MigrateDirectly :: "'conf repo_env \<Rightarrow> int \<Rightarrow> ('conf, unit) run" where
  "MigrateDirectly E to =
     (if to > int migrations_len then ret (Inl (IpfsErr (''Unknown migration to version '' @ Itoa to)))
      else check_then (ret (GetRepoVersion E)) (\<lambda>from. migrate_loop E from to))"

section \<open>Opening a repository\<close>

text \<open>
  go-ipfs has its own number for the current version; the package panics when it is loaded unless that number is the length of
  the table of migrations (\<open>init\<close> of \<open>migrate-directly.go\<close>).
\<close>

definition RepoVersion :: int where "RepoVersion = int migrations_len"

definition InitDefaultOrMigrateRepoIfNeeded :: "'conf repo_env \<Rightarrow> string \<Rightarrow> string list \<Rightarrow> bool \<Rightarrow> ('conf, unit) run" where
  "InitDefaultOrMigrateRepoIfNeeded E repoPath profile autoMigrate =
     check_then (InitWithDefaultsIfNotExist E repoPath profile) (\<lambda>_.
     (case eOpen E of
        Some ErrNeedMigration \<Rightarrow>
          check_then (act EvOpen None) (\<lambda>_.
            if \<not> autoMigrate then ret (Inl ErrNeedMigration)
            else check_then (MigrateDirectly E RepoVersion) (\<lambda>_. act EvOpen (eReopen E)))
      | e \<Rightarrow> act EvOpen e))"

section \<open>Migrations\<close>

fun applied :: "'conf repo_event list \<Rightarrow> int list" where
  "applied [] = []"
| "applied (EvApply n # evs) = n # applied evs"
| "applied (_ # evs) = applied evs"

lemma applied_append [simp]: "applied (xs @ ys) = applied xs @ applied ys"
  by (induction xs rule: applied.induct) auto

lemma applied_none: "(\<And>n. EvApply n \<notin> set evs) \<Longrightarrow> applied evs = []"
  by (induction evs rule: applied.induct) auto

lemma doMigrateOneStep_cases:
  "doMigrateOneStep E n = ([EvApply n], IOk ()) \<and> 0 \<le> n \<and> n < int migrations_len \<and> eApply E n = None \<or>
   (\<exists>evs e. doMigrateOneStep E n = (evs, IErr e) \<and> 0 \<le> n \<and> n < int migrations_len \<and> eApply E n \<noteq> None \<and> evs = [EvApply n]) \<or>
   doMigrateOneStep E n = ([], IPanic) \<and> (n < 0 \<or> int migrations_len \<le> n)"
  by (auto simp: doMigrateOneStep_def act_def split: option.splits)

lemma migrate_loop_step:
  "migrate_loop E cur to = (if cur < to then check_then (doMigrateOneStep E cur) (\<lambda>_. migrate_loop E (cur + 1) to) else ([], IOk ()))"
  by (subst migrate_loop.simps) (auto simp: check_then_def split: prod.splits ipfs_reply.splits)

lemma up_induct [case_names up]:
  assumes "\<And>cur. (cur < to \<Longrightarrow> P (cur + 1)) \<Longrightarrow> P cur"
  shows "P (cur :: int)"
proof (induction "nat (to - cur)" arbitrary: cur rule: less_induct)
  case less
  have "P (cur + 1)" if "cur < to" using that by (intro less) simp
  then show ?case by (rule assms)
qed

text \<open>A migration that succeeds has applied every migration from the version on, in order.\<close>

lemma migrate_loop_ok:
  "migrate_loop E cur to = (evs, IOk ()) \<Longrightarrow> applied evs = [cur..to - 1] \<and> (\<forall>n \<in> {cur..<to}. eApply E n = None) \<and> (cur < to \<longrightarrow> 0 \<le> cur)"
proof (induction cur arbitrary: evs rule: up_induct[where to = to])
  case (up cur)
  show ?case
  proof (cases "cur < to")
    case True
    with up(2) have "check_then (doMigrateOneStep E cur) (\<lambda>_. migrate_loop E (cur + 1) to) = (evs, IOk ())"
      by (simp add: migrate_loop_step[of E cur to])
    then obtain a b where ab: "doMigrateOneStep E cur = (a, IOk ())" "migrate_loop E (cur + 1) to = (b, IOk ())" "evs = a @ b"
      by (auto simp: check_then_IOk)
    with doMigrateOneStep_cases[of E cur] have ok: "a = [EvApply cur]" "eApply E cur = None" "0 \<le> cur" by auto
    have "{cur..<to} = insert cur {cur + 1..<to}" using True by auto
    with up(1)[OF True ab(2)] ok ab(3) True show ?thesis by (simp add: upto_rec1)
  qed (use up(2) in \<open>simp add: migrate_loop_step[of E cur to]\<close>)
qed

text \<open>From a version between 0 and the target, the table of migrations is never left, and the first that fails ends it.\<close>

lemma migrate_loop_no_panic:
  "0 \<le> cur \<Longrightarrow> to \<le> int migrations_len \<Longrightarrow> snd (migrate_loop E cur to) \<noteq> IPanic"
proof (induction cur rule: up_induct[where to = to])
  case (up cur)
  have "doMigrateOneStep E cur = ([EvApply cur], IOk ()) \<or> (\<exists>evs e. doMigrateOneStep E cur = (evs, IErr e))" if "cur < to"
    using that up(2,3) doMigrateOneStep_cases[of E cur] by auto
  with up show ?case by (auto simp: migrate_loop_step[of E cur to])
qed

lemma migrate_loop_stops:
  "0 \<le> cur \<Longrightarrow> cur \<le> k \<Longrightarrow> k < to \<Longrightarrow> to \<le> int migrations_len \<Longrightarrow> (\<forall>i \<in> {cur..<k}. eApply E i = None) \<Longrightarrow> eApply E k \<noteq> None \<Longrightarrow>
    applied (fst (migrate_loop E cur to)) = [cur..k] \<and> (\<exists>e. snd (migrate_loop E cur to) = IErr e)"
proof (induction cur rule: up_induct[where to = to])
  case (up cur)
  have lt: "cur < to" using up(3,4) by simp
  show ?case
  proof (cases "cur = k")
    case True
    with up lt doMigrateOneStep_cases[of E k] obtain e where "doMigrateOneStep E k = ([EvApply k], IErr e)" by auto
    with True lt show ?thesis by (simp add: migrate_loop_step[of E k to])
  next
    case False
    with up(2-6) have "eApply E cur = None" "\<forall>i \<in> {cur + 1..<k}. eApply E i = None" by simp_all
    moreover from this up(2-5) lt doMigrateOneStep_cases[of E cur] have ok: "doMigrateOneStep E cur = ([EvApply cur], IOk ())" by auto
    ultimately show ?thesis using up lt False by (simp add: migrate_loop_step[of E cur to] upto_rec1)
  qed
qed

lemma migrate_loop_events: "ev \<in> set (fst (migrate_loop E cur to)) \<Longrightarrow> \<exists>n. ev = EvApply n"
proof (induction cur rule: up_induct[where to = to])
  case (up cur)
  then show ?case using doMigrateOneStep_cases[of E cur] by (auto simp: migrate_loop_step[of E cur to] split: if_splits)
qed

lemma MigrateDirectly_events: "ev \<in> set (fst (MigrateDirectly E to)) \<Longrightarrow> \<exists>n. ev = EvApply n"
  by (auto simp: MigrateDirectly_def check_then_def ret_def split: sum.splits if_splits prod.splits
      dest: migrate_loop_events)

section \<open>A new repository\<close>

text \<open>Which calls write into a repository.\<close>

fun writes :: "'conf repo_event \<Rightarrow> bool" where
  "writes (EvRepoInit _ _) = True"
| "writes (EvSetKey _ _) = True"
| "writes EvKeyspace = True"
| "writes _ = False"

lemma set_keys_events: "set (fst (set_keys E kvs)) \<subseteq> (\<lambda>(k, v). EvSetKey k v) ` set kvs"
proof (induction kvs)
  case (Cons kv kvs)
  then show ?case
    using check_then_events[of "act (EvSetKey (fst kv) (snd kv)) (eSetKey E (fst kv))" "\<lambda>_. set_keys E kvs"]
    by (cases kv) fastforce
qed simp

lemma set_keys_ok: "set_keys E kvs = (evs, IOk ()) \<Longrightarrow> evs = map (\<lambda>(k, v). EvSetKey k v) kvs"
  by (induction kvs arbitrary: evs) (auto simp: check_then_IOk)

lemma set_keys_all: "(\<And>k. eSetKey E k = None) \<Longrightarrow> snd (set_keys E kvs) = IOk ()"
  by (induction kvs) (auto simp: act_def)

lemma checkWritable_events: "ev \<in> set (fst (checkWritable E dir)) \<Longrightarrow> \<not> writes ev \<and> (\<forall>n. ev \<noteq> EvApply n)"
  by (auto simp: checkWritable_def check_then_def act_def ret_def Let_def
      split: option.splits prod.splits ipfs_reply.splits if_splits)

lemma repo_Init_guard:
  assumes "ev \<in> set (fst (repo_Init E root bits profiles conf))" "writes ev"
  shows "EnsureNoIpfs E root = Inr () \<and> \<not> eIsInitialized E root"
  using assms checkWritable_events[of ev E root]
  by (auto simp: repo_Init_def check_then_def ret_def split: sum.splits prod.splits ipfs_reply.splits if_splits)

lemma initializeCustomConfig_ok:
  "initializeCustomConfig E = (evs, IOk ()) \<Longrightarrow>
    evs = EvOpen # map (\<lambda>(k, v). EvSetKey k v) (eMapOrder E (custom_config (findFreePortAfter (ePortFree E) 4001 100)))"
  by (auto simp: initializeCustomConfig_def Let_def check_then_IOk dest: set_keys_ok)

lemma initializeIpnsKeyspace_ok: "initializeIpnsKeyspace E = (evs, IOk ()) \<Longrightarrow> evs = [EvOpen, EvKeyspace]"
  by (auto simp: initializeIpnsKeyspace_def check_then_IOk)

lemma repo_Init_ok:
  assumes "repo_Init E root bits profiles conf = (evs, IOk ())"
  obtains w c c' where "EnsureNoIpfs E root = Inr ()" "\<not> eIsInitialized E root"
    "checkWritable E root = (w, IOk ())" "(case conf of None \<Rightarrow> eConfigInit E bits | Some c \<Rightarrow> Inr c) = Inr c"
    "apply_profiles E profiles c = Inr c'"
    "evs = w @ EvRepoInit root c' # EvOpen #
       map (\<lambda>(k, v). EvSetKey k v) (eMapOrder E (custom_config (findFreePortAfter (ePortFree E) 4001 100))) @ [EvOpen, EvKeyspace]"
  using assms by (auto simp: repo_Init_def check_then_IOk split: if_splits
      dest!: initializeCustomConfig_ok initializeIpnsKeyspace_ok)

lemma repo_Init_no_migration: "repo_Init E root bits profiles conf = (evs, IOk ()) \<Longrightarrow> applied evs = []"
  by (rule applied_none, erule repo_Init_ok) (use checkWritable_events[where E = E and dir = root] in \<open>fastforce\<close>)

text \<open>The port found is the first free one of those tried; the given one when none is.\<close>

lemma port_loop_first:
  "port_loop free port idx n = Some p \<Longrightarrow> free p \<and> port + int idx \<le> p \<and> p < port + int idx + int n \<and>
    (\<forall>q. port + int idx \<le> q \<and> q < p \<longrightarrow> \<not> free q)"
proof (induction free port idx n rule: port_loop.induct)
  case (2 free port idx n)
  show ?case
  proof (cases "free (port + int idx)")
    case False
    with 2 have ih: "free p" "port + int idx + 1 \<le> p" "p < port + int idx + 1 + int n"
      "\<forall>q. port + int idx + 1 \<le> q \<and> q < p \<longrightarrow> \<not> free q" by (simp_all add: algebra_simps)
    have "\<not> free q" if "port + int idx \<le> q" "q < p" for q using that False ih(4) by (cases "q = port + int idx") auto
    with ih show ?thesis by auto
  qed (use 2 in auto)
qed simp

lemma findFreePort_range: "findFreePortAfter free port tries \<in> {port..<port + max 1 tries}"
proof (cases "port_loop free port 0 (nat tries)")
  case (Some p)
  with port_loop_first[OF this] show ?thesis by (cases "0 \<le> tries") (auto simp: findFreePortAfter_def max_def)
qed (simp add: findFreePortAfter_def)

section \<open>Opening\<close>

text \<open>
  C12: when \<open>InitDefaultOrMigrateRepoIfNeeded\<close> succeeds, the repository existed, or it did not and now has been created from
  the profiles with all of the program's settings (in whatever order Go walks the map), the swarm port being one of
  the hundred from 4001 on; and it was current, or it was old, migrating is allowed, and every migration from its
  version to the current one was applied once and in order.
\<close>

theorem repo_ready:
  assumes ok: "InitDefaultOrMigrateRepoIfNeeded E path profile autoMigrate = (evs, IOk ())"
    and order: "\<And>l. mset (eMapOrder E l) = mset l"
  shows "(eStat E path = None \<and> (\<forall>ev \<in> set evs. \<not> writes ev) \<or>
      IsNotExist (eStat E path) \<and> EnsureNoIpfs E path = Inr () \<and> \<not> eIsInitialized E path \<and>
      (\<exists>c c' port. eConfigInit E 4096 = Inr c \<and> apply_profiles E profile c = Inr c' \<and> EvRepoInit path c' \<in> set evs \<and>
         port \<in> {4001..4100} \<and> (\<forall>(k, v) \<in> set (custom_config port). EvSetKey k v \<in> set evs))) \<and>
    (eOpen E = None \<and> applied evs = [] \<or>
      eOpen E = Some ErrNeedMigration \<and> autoMigrate \<and> eReopen E = None \<and>
      (\<exists>v. GetRepoVersion E = Inr v \<and> applied evs = [v..6] \<and> (\<forall>n \<in> {v..6}. 0 \<le> n \<and> eApply E n = None)))"
proof -
  from ok obtain a b where ab: "InitWithDefaultsIfNotExist E path profile = (a, IOk ())" "evs = a @ b"
    "(eOpen E = None \<and> b = [EvOpen]) \<or> (eOpen E = Some ErrNeedMigration \<and> autoMigrate \<and> eReopen E = None \<and>
      (\<exists>m. MigrateDirectly E RepoVersion = (m, IOk ()) \<and> b = EvOpen # m @ [EvOpen]))"
    by (auto simp: InitDefaultOrMigrateRepoIfNeeded_def check_then_IOk split: option.splits ipfs_error.splits if_splits)
  have mig: "\<exists>v. GetRepoVersion E = Inr v \<and> applied m = [v..6] \<and> (\<forall>n \<in> {v..6}. 0 \<le> n \<and> eApply E n = None)"
    if m: "MigrateDirectly E RepoVersion = (m, IOk ())" for m
  proof -
    from m obtain v where v: "GetRepoVersion E = Inr v" "migrate_loop E v 7 = (m, IOk ())"
      by (auto simp: MigrateDirectly_def RepoVersion_def migrations_len_def check_then_IOk)
    from migrate_loop_ok[OF v(2)] v(1) show ?thesis by fastforce
  qed
  have quiet: "\<forall>ev \<in> set b. \<not> writes ev"
    using ab(3) MigrateDirectly_events[where E = E and to = RepoVersion] by fastforce
  have two: "eOpen E = None \<and> applied b = [] \<or> eOpen E = Some ErrNeedMigration \<and> autoMigrate \<and> eReopen E = None \<and>
      (\<exists>v. GetRepoVersion E = Inr v \<and> applied b = [v..6] \<and> (\<forall>n \<in> {v..6}. 0 \<le> n \<and> eApply E n = None))"
    using ab(3) mig by fastforce
  show ?thesis
  proof (cases "IsNotExist (eStat E path)")
    case True
    with ab(1) have "repo_Init E path 4096 profile None = (a, IOk ())"
      by (simp add: InitWithDefaultsIfNotExist_def InitWithDefaults_def nBitsForKeypairDefault_def)
    then obtain w c c' where i: "EnsureNoIpfs E path = Inr ()" "\<not> eIsInitialized E path" "eConfigInit E 4096 = Inr c"
      "apply_profiles E profile c = Inr c'" "applied a = []"
      "a = w @ EvRepoInit path c' # EvOpen # map (\<lambda>(k, v). EvSetKey k v)
         (eMapOrder E (custom_config (findFreePortAfter (ePortFree E) 4001 100))) @ [EvOpen, EvKeyspace]"
      by (metis (no_types, lifting) option.simps(4) repo_Init_no_migration repo_Init_ok)
    let ?port = "findFreePortAfter (ePortFree E) 4001 100"
    have "set (eMapOrder E (custom_config ?port)) = set (custom_config ?port)" using order by (metis set_mset_mset)
    then have "\<forall>(k, v) \<in> set (custom_config ?port). EvSetKey k v \<in> set evs" using i(6) ab(2) by force
    moreover have "?port \<in> {4001..4100}" using findFreePort_range[of "ePortFree E" 4001 100] by simp
    moreover have "EvRepoInit path c' \<in> set evs" using i(6) ab(2) by simp
    ultimately show ?thesis using True i(1-5) two ab(2) by auto
  next
    case False
    with ab(1) have "a = []" "eStat E path = None" by (auto simp: InitWithDefaultsIfNotExist_def split: option.splits)
    with two quiet ab(2) show ?thesis by simp
  qed
qed

text \<open>A world in which a new repository is created, and one with an old repository at version 5.\<close>

definition new_world :: "string repo_env" where
  "new_world = \<lparr>
     eStat = (\<lambda>_. Some (NotExist ''no such file'')), eLocked = (\<lambda>_. Inr False), eDataStorePath = (\<lambda>p. Inr p),
     eMkdirAll = (\<lambda>_. None), eStatMade = (\<lambda>_. None), eCreate = (\<lambda>_. None), eRemove = (\<lambda>_. None), eMkdir = (\<lambda>_. None),
     eIsInitialized = (\<lambda>_. False), eConfigInit = (\<lambda>_. Inr ''c''),
     eProfiles = (\<lambda>p. if p = ''server'' then Some (\<lambda>c. Inr (c @ ''+'' @ p)) else None),
     eRepoInit = (\<lambda>_ _. None), eOpenConfig = None, eSetKey = (\<lambda>_. None), ePortFree = (\<lambda>p. p \<ge> 4003), eMapOrder = rev,
     eOpenKeys = None, eKeysNode = None, eKeysRouting = None, eKeyspace = None, eOpen = None,
     eVersion = Inr (Some ''5''), eAtoi = (\<lambda>_. Inr 5), eApply = (\<lambda>_. None), eReopen = None\<rparr>"

definition old_world :: "string repo_env" where
  "old_world = new_world\<lparr>eStat := (\<lambda>_. None), eOpen := Some ErrNeedMigration\<rparr>"

theorem repo_ready_witness:
  "(\<exists>evs. InitDefaultOrMigrateRepoIfNeeded new_world ''/r'' [''server''] False = (evs, IOk ()) \<and>
     (\<exists>c'. EvRepoInit ''/r'' c' \<in> set evs \<and> apply_profiles new_world [''server''] ''c'' = Inr c')) \<and>
   (\<exists>evs. InitDefaultOrMigrateRepoIfNeeded old_world ''/r'' [] True = (evs, IOk ()) \<and> applied evs = [5..6])"
proof
  have o: "mset (eMapOrder new_world l) = mset l" "mset (eMapOrder old_world l) = mset l" for l
    by (simp_all add: new_world_def old_world_def)
  have "snd (InitDefaultOrMigrateRepoIfNeeded new_world ''/r'' [''server''] False) = IOk ()"
    by (simp add: InitDefaultOrMigrateRepoIfNeeded_def InitWithDefaultsIfNotExist_def InitWithDefaults_def repo_Init_def
        EnsureNoIpfs_def checkWritable_def initializeCustomConfig_def initializeIpnsKeyspace_def act_def ret_def Let_def
        IsNotExist_def set_keys_all new_world_def)
  then obtain evs where e: "InitDefaultOrMigrateRepoIfNeeded new_world ''/r'' [''server''] False = (evs, IOk ())"
    by (metis prod.collapse)
  have "eStat new_world ''/r'' \<noteq> None" "eConfigInit new_world 4096 = Inr ''c''" by (simp_all add: new_world_def)
  with repo_ready[OF e o(1)] e show "\<exists>evs. InitDefaultOrMigrateRepoIfNeeded new_world ''/r'' [''server''] False = (evs, IOk ()) \<and>
     (\<exists>c'. EvRepoInit ''/r'' c' \<in> set evs \<and> apply_profiles new_world [''server''] ''c'' = Inr c')" by auto
  have "snd (InitDefaultOrMigrateRepoIfNeeded old_world ''/r'' [] True) = IOk ()" by code_simp
  then obtain evs where e: "InitDefaultOrMigrateRepoIfNeeded old_world ''/r'' [] True = (evs, IOk ())"
    by (metis prod.collapse)
  have "eOpen old_world \<noteq> None" "GetRepoVersion old_world = Inr 5"
    by (simp_all add: old_world_def new_world_def GetRepoVersion_def)
  with repo_ready[OF e o(2)] e show "\<exists>evs. InitDefaultOrMigrateRepoIfNeeded old_world ''/r'' [] True = (evs, IOk ()) \<and> applied evs = [5..6]"
    by auto
qed

text \<open>Nothing is ever written into a repository that is locked by another process or already initialised.\<close>

lemma repo_writes_guarded:
  assumes "ev \<in> set (fst (InitDefaultOrMigrateRepoIfNeeded E path profile autoMigrate))" "writes ev"
  shows "EnsureNoIpfs E path = Inr () \<and> \<not> eIsInitialized E path \<and> IsNotExist (eStat E path)"
proof -
  have "\<not> writes x" if "x \<in> set (fst (MigrateDirectly E RepoVersion))" for x using MigrateDirectly_events[OF that] by auto
  with assms have "ev \<in> set (fst (InitWithDefaultsIfNotExist E path profile))"
    by (auto simp: InitDefaultOrMigrateRepoIfNeeded_def check_then_def act_def ret_def
        split: prod.splits ipfs_reply.splits option.splits ipfs_error.splits if_splits)
  with assms(2) show ?thesis
    by (auto simp: InitWithDefaultsIfNotExist_def InitWithDefaults_def split: if_splits dest: repo_Init_guard)
qed

end
