(* ===== verification/IpfsHttp.thy ===== *)
theory IpfsHttp
  imports Netutil HybridDomain IpfsRepo
begin

text \<open>
  The HTTP side of the IPFS node: the servers that swap their handler as the node goes on and off line and the making of the
  API and gateway handlers (\<open>src/pkg/ipfs/server.go\<close>), and the rewriting of requests for IPNS names
  (\<open>src/pkg/ipfs/ipnd_hostname.go\<close>).
\<close>

section \<open>Servers\<close>

text \<open>
  What an \<open>HttpServer\<close> holds: the handler for off line, one that reports an error, or the real one, which was made
  for the node with the given number.
\<close>

datatype http_handler = HOffline | HError ipfs_error | HServe nat

definition SetOnline :: "nat \<Rightarrow> ipfs_error option \<Rightarrow> http_handler" where
  "SetOnline handler err = (case err of Some e \<Rightarrow> HError e | None \<Rightarrow> HServe handler)"

definition SetOffline :: "ipfs_error option \<Rightarrow> http_handler" where
  "SetOffline err = (case err of Some e \<Rightarrow> HError e | None \<Rightarrow> HOffline)"

text \<open>
  The calls on the \<open>ResponseWriter\<close>, where \<open>text\<close> is \<open>err.Error()\<close>; \<open>Inl n\<close> is what the real
  handler of the node \<open>n\<close> does.
\<close>

definition handler_ServeHTTP :: "(ipfs_error \<Rightarrow> bytes) \<Rightarrow> http_handler \<Rightarrow> nat + rw_op list" where
  "handler_ServeHTTP text h = (case h of
     HOffline \<Rightarrow> Inr [OpWriteHeader 503]
   | HError e \<Rightarrow> Inr [OpWriteHeader 502, OpWrite (text e)]
   | HServe n \<Rightarrow> Inl n)"

section \<open>Muxes\<close>

text \<open>
  The muxes made so far and what is registered at them: a pattern with Go's default mux, with the IPNS rewriting in front of
  another mux, or with a handler of go-ipfs.
\<close>

datatype mux_handler = DefaultServeMux | RewriteTo nat | LibHandler string

record mux_store =
  muxes :: nat
  registered :: "(nat \<times> string \<times> mux_handler) list"

definition NewServeMux :: "mux_store \<Rightarrow> nat \<times> mux_store" where
  "NewServeMux st = (muxes st, st\<lparr>muxes := Suc (muxes st)\<rparr>)"

definition mux_Handle :: "nat \<Rightarrow> string \<Rightarrow> mux_handler \<Rightarrow> mux_store \<Rightarrow> mux_store" where
  "mux_Handle mux pattern h st = st\<lparr>registered := registered st @ [(mux, pattern, h)]\<rparr>"

text \<open>An option registers handlers at a mux and gives the mux for the options after it.\<close>

type_synonym serve_option = "nat \<Rightarrow> mux_store \<Rightarrow> ipfs_error + (nat \<times> mux_store)"

definition defaultMux :: "string \<Rightarrow> serve_option" where
  "defaultMux path mux st = Inr (mux, mux_Handle mux path DefaultServeMux st)"

definition IPNSHostnameOption :: serve_option where
  "IPNSHostnameOption mux st =
     (case NewServeMux st of (childMux, st) \<Rightarrow> Inr (childMux, mux_Handle mux ''/'' (RewriteTo childMux) st))"

fun apply_options :: "serve_option list \<Rightarrow> nat \<Rightarrow> mux_store \<Rightarrow> ipfs_error + mux_store" where
  "apply_options [] mux st = Inr st"
| "apply_options (opt # opts) mux st = rbind (opt mux st) (\<lambda>(mux, st). apply_options opts mux st)"

definition makeHandler :: "serve_option list \<Rightarrow> mux_store \<Rightarrow> ipfs_error + (nat \<times> mux_store)" where
  "makeHandler options st =
     (case NewServeMux st of (topMux, st) \<Rightarrow> rbind (apply_options options topMux st) (\<lambda>st. Inr (topMux, st)))"

text \<open>
  The options of go-ipfs, and the conversion of an address for the listener that exists while the handler is made.
\<close>

record lib_options =
  CheckVersionOption :: serve_option
  CommandsOption :: serve_option
  CommandsROOption :: serve_option
  WebUIOption :: serve_option
  GatewayOption :: "bool \<Rightarrow> string list \<Rightarrow> serve_option"
  VersionOption :: serve_option
  MutexFractionOption :: "string \<Rightarrow> serve_option"
  LogOption :: serve_option
  RedirectOption :: "string \<Rightarrow> string \<Rightarrow> serve_option"
  ToNetAddr :: "string \<Rightarrow> ipfs_error option"

definition newHttpHandler :: "lib_options \<Rightarrow> string \<Rightarrow> serve_option list \<Rightarrow> mux_store \<Rightarrow> ipfs_error + (nat \<times> mux_store)" where
  "newHttpHandler L maddr opts st = (case ToNetAddr L maddr of Some e \<Rightarrow> Inl e | None \<Rightarrow> makeHandler opts st)"

definition newApiHandler :: "lib_options \<Rightarrow> string \<Rightarrow> mux_store \<Rightarrow> ipfs_error + (nat \<times> mux_store)" where
  "newApiHandler L fakeApiListenAddr =
     newHttpHandler L fakeApiListenAddr
       [CheckVersionOption L, CommandsOption L, WebUIOption L, GatewayOption L True [''/ipfs'', ''/ipns''], VersionOption L,
        defaultMux ''/debug/vars'', defaultMux ''/debug/pprof/'', MutexFractionOption L ''/debug/pprof-mutex/'', LogOption L]"

definition newGatewayHandler ::
  "lib_options \<Rightarrow> ipfs_error + (bool \<times> string) \<Rightarrow> string \<Rightarrow> mux_store \<Rightarrow> ipfs_error + (nat \<times> mux_store)" where
  "newGatewayHandler L config gatewayListenAddr st =
     rbind config (\<lambda>(writable, rootRedirect).
       newHttpHandler L gatewayListenAddr
         ([IPNSHostnameOption, GatewayOption L writable [''/ipfs'', ''/ipns''], VersionOption L, CheckVersionOption L, CommandsROOption L] @
          (if rootRedirect \<noteq> [] then [RedirectOption L [] rootRedirect] else [])) st)"

section \<open>IPNS host names\<close>

text \<open>
  The path of a request and the original-path header, after the rewriting: \<open>host\<close> is \<open>r.Host\<close> up to its first
  colon; it is rewritten when it is a domain, is not excluded, and resolves (or resolves recursively).
\<close>

datatype resolve_result = Resolved | ResolveRecursion | ResolveErr

definition IPNSHostname ::
  "(string \<Rightarrow> bool) \<Rightarrow> (string \<Rightarrow> bool) \<Rightarrow> (string \<Rightarrow> resolve_result) \<Rightarrow> string \<Rightarrow> string \<Rightarrow> string \<times> string option" where
  "IPNSHostname exclude isDomain resolve rhost path =
     (let host = hd (Split (CHR '':'') rhost); name = ''/ipns/'' @ host in
      if host \<noteq> [] \<and> isDomain host \<and> \<not> exclude host \<and> resolve name \<noteq> ResolveErr
      then (name @ path, Some path) else (path, None))"

text \<open>The hosts a node excludes (\<open>src/node/ipfs.go\<close>): those of its own naming scheme.\<close>

definition ExcludeIPNS :: "string \<Rightarrow> bool" where
  "ExcludeIPNS host = HasSuffix host HybridSuffix"

section \<open>The gateway\<close>

text \<open>What an option of go-ipfs may do: register handlers of its own at the mux it was given, and hand that mux on.\<close>

definition lib_option :: "serve_option \<Rightarrow> bool" where
  "lib_option opt \<longleftrightarrow> (\<forall>mux st mux' st'. opt mux st = Inr (mux', st') \<longrightarrow> mux' = mux \<and> muxes st' = muxes st \<and>
     (\<exists>hs. registered st' = registered st @ map (\<lambda>(p, h). (mux, p, LibHandler h)) hs))"

lemma lib_options_register:
  assumes "\<forall>opt \<in> set opts. lib_option opt" "apply_options opts mux st = Inr st'"
  shows "\<exists>hs. registered st' = registered st @ map (\<lambda>(p, h). (mux, p, LibHandler h)) hs"
  using assms
proof (induction opts arbitrary: st)
  case Nil
  then show ?case by (auto intro: exI[of _ "[]"])
next
  case (Cons opt opts)
  from Cons.prems(2) obtain mux1 st1 where st1: "opt mux st = Inr (mux1, st1)" "apply_options opts mux1 st1 = Inr st'"
    by (auto simp: rbind_Inr_iff)
  with Cons.prems(1) obtain hs1 where "mux1 = mux" "registered st1 = registered st @ map (\<lambda>(p, h). (mux, p, LibHandler h)) hs1"
    unfolding lib_option_def by fastforce
  with Cons.IH[of st1] st1(2) Cons.prems(1) obtain hs2 where
    "registered st' = registered st @ map (\<lambda>(p, h). (mux, p, LibHandler h)) (hs1 @ hs2)" by auto
  then show ?case by blast
qed

text \<open>
  Every handler of the gateway is behind the rewriting: its top mux has a single pattern, which takes every path to
  the rewriting in front of the mux with all other handlers.
\<close>

lemma gateway_behind_rewrite:
  assumes ok: "newGatewayHandler L config addr \<lparr>muxes = 0, registered = []\<rparr> = Inr (mux, st)"
    and lib: "\<And>b ps. lib_option (GatewayOption L b ps)" "lib_option (VersionOption L)" "lib_option (CheckVersionOption L)"
      "lib_option (CommandsROOption L)" "\<And>p t. lib_option (RedirectOption L p t)"
  shows "mux = 0 \<and> (\<exists>hs. registered st = (0, ''/'', RewriteTo 1) # map (\<lambda>(p, h). (1, p, LibHandler h)) hs)"
proof -
  from ok obtain w r where c: "config = Inr (w, r)"
    "newHttpHandler L addr (IPNSHostnameOption # (
       [GatewayOption L w [''/ipfs'', ''/ipns''], VersionOption L, CheckVersionOption L, CommandsROOption L] @
       (if r \<noteq> [] then [RedirectOption L [] r] else []))) \<lparr>muxes = 0, registered = []\<rparr> = Inr (mux, st)"
    (is "newHttpHandler L addr (IPNSHostnameOption # ?opts) _ = _")
    by (auto simp: newGatewayHandler_def rbind_Inr_iff)
  from c(2) have top: "mux = 0" and st: "apply_options ?opts 1 \<lparr>muxes = 2, registered = [(0, ''/'', RewriteTo 1)]\<rparr> = Inr st"
    by (auto simp: newHttpHandler_def makeHandler_def NewServeMux_def IPNSHostnameOption_def mux_Handle_def rbind_Inr_iff
        numeral_2_eq_2 simp del: apply_options.simps(2) split: option.splits
        simp: apply_options.simps(2)[of IPNSHostnameOption])
  have "\<forall>opt \<in> set ?opts. lib_option opt" using lib by auto
  from lib_options_register[OF this st] top show ?thesis by simp
qed

text \<open>Requests for names of the hybrid scheme are never rewritten to IPNS paths.\<close>

lemma hybrid_not_rewritten:
  "HasSuffix (hd (Split (CHR '':'') rhost)) HybridSuffix \<Longrightarrow> IPNSHostname ExcludeIPNS isDomain resolve rhost path = (path, None)"
  by (simp add: IPNSHostname_def ExcludeIPNS_def Let_def)

end
