(* ===== verification/ListenDialer.thy ===== *)
theory ListenDialer
  imports GoLib "HOL-Library.Multiset"
begin

text \<open>
  The in-memory listener and dialer of \<open>src/pkg/ipfs/listendialer.go\<close>, over which the HTTP handlers of the IPFS node are
  made: the connections with their pipes and addresses, and \<open>Accept\<close>, \<open>Dial\<close> and \<open>Close\<close> as a transition system with its
  invariant.
\<close>

section \<open>Addresses and connections\<close>

record combinedAddr =
  maddr :: string
  naddr :: string

definition toCombinedAddr :: "(string \<Rightarrow> 'e + string) \<Rightarrow> string \<Rightarrow> 'e + combinedAddr" where
  "toCombinedAddr ToNetAddr ma = rbind (ToNetAddr ma) (\<lambda>na. Inr \<lparr>maddr = ma, naddr = na\<rparr>)"

text \<open>\<open>net.Pipe\<close> makes two ends; pipes are numbered in the order in which they are made.\<close>

datatype pipe_end = FirstEnd nat | SecondEnd nat

record conn =
  netConn :: pipe_end
  laddr :: string
  raddr :: string

definition LocalMultiaddr :: "conn \<Rightarrow> string" where "LocalMultiaddr c = laddr c"
definition RemoteMultiaddr :: "conn \<Rightarrow> string" where "RemoteMultiaddr c = raddr c"

section \<open>The listener and its dialer\<close>

text \<open>
  Calls of \<open>Accept\<close> and \<open>Dial\<close> are numbered. A call of \<open>Dial\<close> waits in its \<open>select\<close> with the two connections it made, of which it
  offers the one for the server on the unbuffered channel. \<open>closedEnds\<close> are the ends that were closed.
\<close>

datatype ld_result = LdConn conn | LdClosed | LdCtx

record ld_state =
  listenerAddr :: combinedAddr
  dialerAddr :: combinedAddr
  ldClosed :: bool
  accepting :: "nat list"
  dialing :: "(nat \<times> conn \<times> conn) list"
  acceptOut :: "(nat \<times> ld_result) list"
  dialOut :: "(nat \<times> ld_result) list"
  pipes :: nat
  closedEnds :: "pipe_end list"

definition NewListenDialer :: "(string \<Rightarrow> 'e + string) \<Rightarrow> string \<Rightarrow> string \<Rightarrow> 'e + ld_state" where
  "NewListenDialer ToNetAddr la da =
     rbind (toCombinedAddr ToNetAddr la) (\<lambda>la. rbind (toCombinedAddr ToNetAddr da) (\<lambda>da.
       Inr \<lparr>listenerAddr = la, dialerAddr = da, ldClosed = False, accepting = [], dialing = [], acceptOut = [], dialOut = [],
          pipes = 0, closedEnds = []\<rparr>))"

text \<open>The connections for the client and for the server that \<open>Dial\<close> makes of a new pipe.\<close>

definition dial_conns :: "ld_state \<Rightarrow> conn \<times> conn" where
  "dial_conns s =
     (let nclient = FirstEnd (pipes s); nserver = SecondEnd (pipes s)
      in (\<lparr>netConn = nclient, laddr = maddr (dialerAddr s), raddr = maddr (listenerAddr s)\<rparr>,
          \<lparr>netConn = nserver, laddr = maddr (listenerAddr s), raddr = maddr (dialerAddr s)\<rparr>))"

inductive ld_step :: "ld_state \<Rightarrow> ld_state \<Rightarrow> bool" where
  accept_call: "a \<notin> set (accepting s) \<Longrightarrow> a \<notin> fst ` set (acceptOut s) \<Longrightarrow> ld_step s (s\<lparr>accepting := a # accepting s\<rparr>)"
| dial_call: "d \<notin> fst ` set (dialing s) \<Longrightarrow> d \<notin> fst ` set (dialOut s) \<Longrightarrow>
    ld_step s (s\<lparr>dialing := (d, dial_conns s) # dialing s, pipes := Suc (pipes s)\<rparr>)"
| meet: "a \<in> set (accepting s) \<Longrightarrow> (d, client, server) \<in> set (dialing s) \<Longrightarrow>
    ld_step s (s\<lparr>accepting := removeAll a (accepting s), dialing := remove1 (d, client, server) (dialing s),
      acceptOut := (a, LdConn server) # acceptOut s, dialOut := (d, LdConn client) # dialOut s\<rparr>)"
| ld_close: "ld_step s (s\<lparr>ldClosed := True\<rparr>)"
| accept_closed: "ldClosed s \<Longrightarrow> a \<in> set (accepting s) \<Longrightarrow>
    ld_step s (s\<lparr>accepting := removeAll a (accepting s), acceptOut := (a, LdClosed) # acceptOut s\<rparr>)"
| dial_closed: "ldClosed s \<Longrightarrow> (d, client, server) \<in> set (dialing s) \<Longrightarrow>
    ld_step s (s\<lparr>dialing := remove1 (d, client, server) (dialing s), dialOut := (d, LdClosed) # dialOut s,
      closedEnds := netConn client # closedEnds s\<rparr>)"
| dial_ctx: "(d, client, server) \<in> set (dialing s) \<Longrightarrow>
    ld_step s (s\<lparr>dialing := remove1 (d, client, server) (dialing s), dialOut := (d, LdCtx) # dialOut s,
      closedEnds := netConn client # closedEnds s\<rparr>)"

section \<open>Invariant\<close>

text \<open>The connections that were returned, and the number of the pipe an end belongs to.\<close>

fun got :: "(nat \<times> ld_result) list \<Rightarrow> (nat \<times> conn) list" where
  "got [] = []"
| "got ((x, LdConn c) # rs) = (x, c) # got rs"
| "got ((x, LdClosed) # rs) = got rs"
| "got ((x, LdCtx) # rs) = got rs"

fun pipe_no :: "pipe_end \<Rightarrow> nat" where
  "pipe_no (FirstEnd p) = p"
| "pipe_no (SecondEnd p) = p"

abbreviation conn_pipe :: "conn \<Rightarrow> nat" where "conn_pipe c \<equiv> pipe_no (netConn c)"

lemma set_got: "(x, c) \<in> set (got rs) \<longleftrightarrow> (x, LdConn c) \<in> set rs"
  by (induction rs rule: got.induct) auto

definition client_of :: "ld_state \<Rightarrow> conn \<Rightarrow> bool" where
  "client_of s c \<longleftrightarrow> netConn c = FirstEnd (conn_pipe c) \<and> laddr c = maddr (dialerAddr s) \<and> raddr c = maddr (listenerAddr s)"

definition server_of :: "ld_state \<Rightarrow> conn \<Rightarrow> bool" where
  "server_of s c \<longleftrightarrow> netConn c = SecondEnd (conn_pipe c) \<and> laddr c = maddr (listenerAddr s) \<and> raddr c = maddr (dialerAddr s)"

text \<open>The pipes of waiting dials, of dials that returned a connection, and of dials that closed their end.\<close>

definition waiting_pipes :: "ld_state \<Rightarrow> nat list" where
  "waiting_pipes s = map (\<lambda>(d, client, server). conn_pipe client) (dialing s)"

definition dialed_pipes :: "ld_state \<Rightarrow> nat list" where
  "dialed_pipes s = map (conn_pipe \<circ> snd) (got (dialOut s))"

definition accepted_pipes :: "ld_state \<Rightarrow> nat list" where
  "accepted_pipes s = map (conn_pipe \<circ> snd) (got (acceptOut s))"

definition closed_pipes :: "ld_state \<Rightarrow> nat list" where
  "closed_pipes s = map pipe_no (closedEnds s)"

lemmas pipes_defs = waiting_pipes_def dialed_pipes_def accepted_pipes_def closed_pipes_def

definition calls_ok :: "ld_state \<Rightarrow> bool" where
  "calls_ok s \<longleftrightarrow> distinct (map fst (acceptOut s)) \<and> distinct (map fst (dialOut s)) \<and> distinct (map fst (dialing s)) \<and>
     set (accepting s) \<inter> fst ` set (acceptOut s) = {} \<and> fst ` set (dialing s) \<inter> fst ` set (dialOut s) = {} \<and>
     ((\<exists>x \<in> set (acceptOut s) \<union> set (dialOut s). snd x = LdClosed) \<longrightarrow> ldClosed s)"

definition conns_ok :: "ld_state \<Rightarrow> bool" where
  "conns_ok s \<longleftrightarrow> (\<forall>(d, client, server) \<in> set (dialing s). client_of s client \<and> server_of s server \<and> conn_pipe server = conn_pipe client) \<and>
     (\<forall>(d, c) \<in> set (got (dialOut s)). client_of s c) \<and> (\<forall>(a, c) \<in> set (got (acceptOut s)). server_of s c) \<and>
     (\<forall>e \<in> set (closedEnds s). \<exists>p. e = FirstEnd p)"

definition pipes_ok :: "ld_state \<Rightarrow> bool" where
  "pipes_ok s \<longleftrightarrow> mset (waiting_pipes s @ dialed_pipes s @ closed_pipes s) = mset [0..<pipes s] \<and>
     mset (accepted_pipes s) = mset (dialed_pipes s)"

lemma remove1_key: "distinct (map fst xs) \<Longrightarrow> x \<in> set xs \<Longrightarrow> map fst (remove1 x xs) = remove1 (fst x) (map fst xs)"
  by (induction xs) (auto simp: image_iff)

lemma remove1_keys:
  assumes "distinct (map fst xs)" "x \<in> set xs"
  shows "distinct (map fst (remove1 x xs))" "fst ` set (remove1 x xs) = fst ` set xs - {fst x}"
proof -
  note r = remove1_key[OF assms]
  show "distinct (map fst (remove1 x xs))" unfolding r using assms(1) by (rule distinct_remove1)
  have "set (map fst (remove1 x xs)) = set (map fst xs) - {fst x}" unfolding r using assms(1) by (rule set_remove1_eq)
  then show "fst ` set (remove1 x xs) = fst ` set xs - {fst x}" by simp
qed

lemma calls_ok_step: "ld_step s t \<Longrightarrow> calls_ok s \<Longrightarrow> calls_ok t"
proof (induction rule: ld_step.induct)
  case (meet a s d client server)
  then have "d \<notin> fst ` set (dialOut s)" by (force simp: calls_ok_def)
  with meet remove1_keys[of "dialing s" "(d, client, server)"] show ?case by (auto simp: calls_ok_def)
next
  case (dial_closed s d client server)
  then have "d \<notin> fst ` set (dialOut s)" by (force simp: calls_ok_def)
  with dial_closed remove1_keys[of "dialing s" "(d, client, server)"] show ?case by (auto simp: calls_ok_def)
next
  case (dial_ctx d client server s)
  then have "d \<notin> fst ` set (dialOut s)" by (force simp: calls_ok_def)
  with dial_ctx remove1_keys[of "dialing s" "(d, client, server)"] show ?case by (auto simp: calls_ok_def)
qed (auto simp: calls_ok_def)

lemma conns_ok_step: "ld_step s t \<Longrightarrow> conns_ok s \<Longrightarrow> conns_ok t"
proof (induction rule: ld_step.induct)
  case (dial_call d s)
  then show ?case by (auto simp: conns_ok_def dial_conns_def client_of_def server_of_def Let_def)
qed (force simp: conns_ok_def client_of_def server_of_def dest: notin_set_remove1 set_remove1_subset[THEN subsetD])+

lemma waiting_remove: "(d, client, server) \<in> set (dialing s) \<Longrightarrow>
    mset (waiting_pipes s) = add_mset (conn_pipe client) (mset (map (\<lambda>(d, client, server). conn_pipe client) (remove1 (d, client, server) (dialing s))))"
proof -
  assume "(d, client, server) \<in> set (dialing s)"
  then have "mset (dialing s) = add_mset (d, client, server) (mset (remove1 (d, client, server) (dialing s)))" by simp
  from arg_cong[OF this, of "image_mset (\<lambda>(d, client, server). conn_pipe client)"] show ?thesis
    by (simp add: waiting_pipes_def del: mset_remove1)
qed

lemma pipes_ok_step: "ld_step s t \<Longrightarrow> conns_ok s \<Longrightarrow> pipes_ok s \<Longrightarrow> pipes_ok t"
proof (induction rule: ld_step.induct)
  case (meet a s d client server)
  then have "conn_pipe server = conn_pipe client" by (auto simp: conns_ok_def)
  with meet waiting_remove[OF meet(2)] show ?case by (simp add: pipes_ok_def pipes_defs)
next
  case (dial_closed s d client server)
  with waiting_remove[OF dial_closed(2)] show ?case by (simp add: pipes_ok_def pipes_defs)
next
  case (dial_ctx d client server s)
  with waiting_remove[OF dial_ctx(1)] show ?case by (simp add: pipes_ok_def pipes_defs)
qed (simp_all add: pipes_ok_def pipes_defs dial_conns_def Let_def)

abbreviation ld_inv :: "ld_state \<Rightarrow> bool" where "ld_inv s \<equiv> calls_ok s \<and> conns_ok s \<and> pipes_ok s"

interpretation listen_dialer: invariant_system ld_step "\<lambda>s. NewListenDialer ToNetAddr la da = Inr s" ld_inv for ToNetAddr la da
proof
  show "ld_inv s" if "NewListenDialer ToNetAddr la da = Inr s" for s
    using that by (auto simp: NewListenDialer_def rbind_Inr_iff calls_ok_def conns_ok_def pipes_ok_def pipes_defs)
  show "ld_inv t" if "ld_inv s" "ld_step s t" for s t
    using that calls_ok_step conns_ok_step pipes_ok_step by blast
qed

section \<open>After closing\<close>

lemma ld_drain: "ldClosed s \<Longrightarrow> \<exists>t. reach ld_step s t \<and> accepting t = [] \<and> dialing t = []"
proof (induction "length (accepting s) + length (dialing s)" arbitrary: s rule: less_induct)
  case less
  show ?case
  proof (cases "accepting s")
    case (Cons a as)
    let ?t = "s\<lparr>accepting := removeAll a (accepting s), acceptOut := (a, LdClosed) # acceptOut s\<rparr>"
    have "ld_step s ?t" using less.prems Cons by (intro ld_step.accept_closed) simp_all
    moreover have "\<exists>t. reach ld_step ?t t \<and> accepting t = [] \<and> dialing t = []"
      using length_removeAll_less[of a "accepting s"] Cons less.prems by (intro less.hyps) simp_all
    ultimately show ?thesis by (blast intro: reach_first)
  next
    case Nil
    show ?thesis
    proof (cases "dialing s")
      case (Cons x ds)
      obtain d client server where x: "x = (d, client, server)" by (cases x)
      let ?t = "s\<lparr>dialing := remove1 (d, client, server) (dialing s), dialOut := (d, LdClosed) # dialOut s,
        closedEnds := netConn client # closedEnds s\<rparr>"
      have "ld_step s ?t" using less.prems Cons x by (intro ld_step.dial_closed) simp_all
      moreover have "\<exists>t. reach ld_step ?t t \<and> accepting t = [] \<and> dialing t = []"
        using Cons x less.prems by (intro less.hyps) simp_all
      ultimately show ?thesis by (blast intro: reach_first)
    qed (use Nil in \<open>blast intro: reach_refl\<close>)
  qed
qed

section \<open>Pairing\<close>

text \<open>The two connections of one pipe, as their owners see them.\<close>

definition opposite :: "conn \<Rightarrow> conn \<Rightarrow> bool" where
  "opposite client server \<longleftrightarrow> (\<exists>p. netConn client = FirstEnd p \<and> netConn server = SecondEnd p) \<and>
     LocalMultiaddr client = RemoteMultiaddr server \<and> RemoteMultiaddr client = LocalMultiaddr server"

lemma opposite_conns: "client_of s c \<Longrightarrow> server_of s c' \<Longrightarrow> opposite c c' \<longleftrightarrow> conn_pipe c = conn_pipe c'"
  by (auto simp: opposite_def client_of_def server_of_def LocalMultiaddr_def RemoteMultiaddr_def)

lemma distinct_map_eq: "distinct (map f xs) \<Longrightarrow> x \<in> set xs \<Longrightarrow> y \<in> set xs \<Longrightarrow> f x = f y \<Longrightarrow> x = y"
  by (auto simp: distinct_map inj_on_def)

lemma pipes_distinct:
  assumes "pipes_ok s"
  shows "distinct (dialed_pipes s)" "distinct (accepted_pipes s)" "set (accepted_pipes s) = set (dialed_pipes s)"
    "distinct (waiting_pipes s @ dialed_pipes s @ closed_pipes s)" "set (waiting_pipes s @ dialed_pipes s @ closed_pipes s) = {..<pipes s}"
proof -
  have m: "mset (waiting_pipes s @ dialed_pipes s @ closed_pipes s) = mset [0..<pipes s]" "mset (accepted_pipes s) = mset (dialed_pipes s)"
    using assms by (simp_all add: pipes_ok_def)
  show d: "distinct (waiting_pipes s @ dialed_pipes s @ closed_pipes s)" using mset_eq_imp_distinct_iff[OF m(1)] by simp
  show "set (waiting_pipes s @ dialed_pipes s @ closed_pipes s) = {..<pipes s}" using mset_eq_setD[OF m(1)] by (simp add: atLeast0LessThan)
  from d show "distinct (dialed_pipes s)" by simp
  with mset_eq_imp_distinct_iff[OF m(2)] show "distinct (accepted_pipes s)" by simp
  show "set (accepted_pipes s) = set (dialed_pipes s)" using mset_eq_setD[OF m(2)] .
qed

lemma accepted_has_dial:
  assumes "ld_inv s" "(a, LdConn c) \<in> set (acceptOut s)"
  shows "\<exists>!d. \<exists>c'. (d, LdConn c') \<in> set (dialOut s) \<and> opposite c' c"
proof -
  note p = pipes_distinct[of s]
  have c: "server_of s c" "\<And>d c'. (d, c') \<in> set (got (dialOut s)) \<Longrightarrow> client_of s c'"
    using assms by (auto simp: conns_ok_def set_got[symmetric])
  have "conn_pipe c \<in> set (dialed_pipes s)" using assms p(3) by (force simp: accepted_pipes_def set_got[symmetric])
  then obtain d c' where d: "(d, c') \<in> set (got (dialOut s))" "conn_pipe c' = conn_pipe c" by (auto simp: dialed_pipes_def)
  have "e = d" if "(e, c2) \<in> set (got (dialOut s))" "conn_pipe c2 = conn_pipe c" for e c2
    using distinct_map_eq[of "conn_pipe \<circ> snd" "got (dialOut s)" "(e, c2)" "(d, c')"] that d p(1) assms(1) by (simp add: dialed_pipes_def)
  with d c show ?thesis unfolding set_got[symmetric] by (metis opposite_conns)
qed

lemma dialed_has_accept:
  assumes "ld_inv s" "(d, LdConn c) \<in> set (dialOut s)"
  shows "\<exists>!a. \<exists>c'. (a, LdConn c') \<in> set (acceptOut s) \<and> opposite c c'"
proof -
  note p = pipes_distinct[of s]
  have c: "client_of s c" "\<And>a c'. (a, c') \<in> set (got (acceptOut s)) \<Longrightarrow> server_of s c'"
    using assms by (auto simp: conns_ok_def set_got[symmetric])
  have "conn_pipe c \<in> set (accepted_pipes s)" using assms p(3) by (force simp: dialed_pipes_def set_got[symmetric])
  then obtain a c' where a: "(a, c') \<in> set (got (acceptOut s))" "conn_pipe c' = conn_pipe c" by (auto simp: accepted_pipes_def)
  have "e = a" if "(e, c2) \<in> set (got (acceptOut s))" "conn_pipe c2 = conn_pipe c" for e c2
    using distinct_map_eq[of "conn_pipe \<circ> snd" "got (acceptOut s)" "(e, c2)" "(a, c')"] that a p(2) assms(1) by (simp add: accepted_pipes_def)
  with a c show ?thesis unfolding set_got[symmetric] by (metis opposite_conns)
qed

text \<open>A pipe whose end was closed is none that a call has got, and when no dial waits every pipe is one or the other.\<close>

lemma pipes_used:
  assumes "ld_inv s"
  shows "\<forall>(d, c) \<in> set (got (dialOut s)). netConn c \<notin> set (closedEnds s)"
    "dialing s = [] \<Longrightarrow> p < pipes s \<Longrightarrow> FirstEnd p \<in> set (closedEnds s) \<or> (\<exists>d c. (d, LdConn c) \<in> set (dialOut s) \<and> netConn c = FirstEnd p)"
proof -
  note p = pipes_distinct[of s]
  have ends: "\<forall>e \<in> set (closedEnds s). \<exists>p. e = FirstEnd p" "\<forall>(d, c) \<in> set (got (dialOut s)). client_of s c"
    using assms by (simp_all add: conns_ok_def)
  have "set (dialed_pipes s) \<inter> set (closed_pipes s) = {}" using p(4) assms by auto
  then show "\<forall>(d, c) \<in> set (got (dialOut s)). netConn c \<notin> set (closedEnds s)"
    by (fastforce simp: dialed_pipes_def closed_pipes_def)
  assume "dialing s = []" "p < pipes s"
  then have "p \<in> set (dialed_pipes s) \<union> set (closed_pipes s)" using p(5) assms by (auto simp: waiting_pipes_def)
  then show "FirstEnd p \<in> set (closedEnds s) \<or> (\<exists>d c. (d, LdConn c) \<in> set (dialOut s) \<and> netConn c = FirstEnd p)"
    using ends by (fastforce simp: dialed_pipes_def closed_pipes_def set_got client_of_def)
qed

text \<open>
  C31: whatever \<open>Accept\<close> and \<open>Dial\<close> are called in parallel: the connection an \<open>Accept\<close> returned is the second end of a pipe whose
  first end exactly one \<open>Dial\<close> returned, and the other way round, with local and remote address exchanged; a call has one
  outcome; the end a call got is not one that a failed dial closed, and once no dial waits, every pipe that was made is in use or
  closed; calls only fail as closed after \<open>Close\<close>, and after it every pending call can end.
\<close>

theorem ListenDialer_pairs:
  assumes "NewListenDialer ToNetAddr la da = Inr s0" "reach ld_step s0 s"
  shows "(\<forall>a c. (a, LdConn c) \<in> set (acceptOut s) \<longrightarrow> (\<exists>!d. \<exists>c'. (d, LdConn c') \<in> set (dialOut s) \<and> opposite c' c)) \<and>
    (\<forall>d c. (d, LdConn c) \<in> set (dialOut s) \<longrightarrow> netConn c \<notin> set (closedEnds s) \<and>
       (\<exists>!a. \<exists>c'. (a, LdConn c') \<in> set (acceptOut s) \<and> opposite c c')) \<and>
    distinct (map fst (acceptOut s)) \<and> distinct (map fst (dialOut s)) \<and>
    (dialing s = [] \<longrightarrow> (\<forall>p < pipes s. FirstEnd p \<in> set (closedEnds s) \<or> (\<exists>d c. (d, LdConn c) \<in> set (dialOut s) \<and> netConn c = FirstEnd p))) \<and>
    ((\<exists>x \<in> set (acceptOut s) \<union> set (dialOut s). snd x = LdClosed) \<longrightarrow> ldClosed s) \<and>
    (ldClosed s \<longrightarrow> (\<exists>t. reach ld_step s t \<and> accepting t = [] \<and> dialing t = []))"
proof -
  have inv: "ld_inv s" using listen_dialer.inv_reachable[OF assms] .
  then have calls: "distinct (map fst (acceptOut s))" "distinct (map fst (dialOut s))"
    "(\<exists>x \<in> set (acceptOut s) \<union> set (dialOut s). snd x = LdClosed) \<longrightarrow> ldClosed s" by (simp_all add: calls_ok_def)
  have "netConn c \<notin> set (closedEnds s)" if "(d, LdConn c) \<in> set (dialOut s)" for d c
    using pipes_used(1)[OF inv] that by (auto simp: set_got[symmetric])
  then show ?thesis
    by (intro conjI allI impI calls) (use accepted_has_dial[OF inv] dialed_has_accept[OF inv] pipes_used(2)[OF inv] ld_drain[of s] in simp_all)
qed

theorem ListenDialer_pairs_witness:
  "\<exists>s0 s c c'. NewListenDialer Inr ''/ip4/l'' ''/ip4/d'' = (Inr s0 :: unit + ld_state) \<and> reach ld_step s0 s \<and>
     acceptOut s = [(1, LdConn c)] \<and> dialOut s = [(2, LdConn c')] \<and> opposite c' c \<and> RemoteMultiaddr c = ''/ip4/d''"
proof -
  obtain s0 where s0: "NewListenDialer Inr ''/ip4/l'' ''/ip4/d'' = (Inr s0 :: unit + ld_state)"
    by (simp add: NewListenDialer_def toCombinedAddr_def)
  then have i: "accepting s0 = []" "dialing s0 = []" "acceptOut s0 = []" "dialOut s0 = []" "pipes s0 = 0"
    "maddr (listenerAddr s0) = ''/ip4/l''" "maddr (dialerAddr s0) = ''/ip4/d''"
    by (auto simp: NewListenDialer_def toCombinedAddr_def)
  obtain c' c where cc: "dial_conns s0 = (c', c)" by force
  let ?a = "s0\<lparr>accepting := [1]\<rparr>"
  let ?b = "?a\<lparr>dialing := [(2, c', c)], pipes := 1\<rparr>"
  let ?c = "?b\<lparr>accepting := [], dialing := [], acceptOut := [(1, LdConn c)], dialOut := [(2, LdConn c')]\<rparr>"
  have st: "ld_step s0 ?a" "ld_step ?a ?b" "ld_step ?b ?c"
    using ld_step.accept_call[of 1 s0] ld_step.dial_call[of 2 ?a] ld_step.meet[of 1 ?b 2 c' c] i cc
    by (simp_all add: dial_conns_def Let_def)
  have r: "reach ld_step s0 ?c" by (rule reach_step, rule reach_step, rule reach_step, rule reach_refl) (rule st)+
  from ListenDialer_pairs[OF s0 r] have "opposite c' c" by auto
  moreover have "RemoteMultiaddr c = ''/ip4/d''" using cc i by (auto simp: dial_conns_def Let_def RemoteMultiaddr_def)
  ultimately show ?thesis using s0 r by (intro exI[of _ s0] exI[of _ ?c] exI[of _ c] exI[of _ c']) simp
qed

end
