(* ===== verification/Ipfs.thy ===== *)
theory Ipfs
  imports IpfsHttp ListenDialer
begin

text \<open>
  The IPFS side of a node, \<open>src/pkg/ipfs\<close>: the daemon that goes on and off line with its two HTTP servers
  (\<open>daemon.go\<close>, \<open>utils.go\<close>), the stream listeners with their admission check (\<open>net.go\<close>), pins, garbage collection and
  files (\<open>pin.go\<close>, \<open>gc.go\<close>, \<open>io.go\<close>), and the node for stand-alone migrations (\<open>migrate-standalone.go\<close>).

  go-ipfs itself (nodes, hosts, the API) is third-party code: the results of its calls are arguments.
\<close>

section \<open>Making nodes (daemon.go)\<close>

record ipfs_Config =
  FakeApiListenAddr :: string
  GatewayListenAddr :: string
  RepoPath :: string
  Profile :: "string list"
  AutoMigrate :: bool
  EnableIPNSPubSub :: bool
  EnablePubSub :: bool
  EnableMultiplex :: bool

datatype routing_option = DHTClientOption | DHTOption | NilRouterOption

text \<open>What is read of the configuration file of a repository.\<close>

record repo_cfg =
  RoutingType :: string
  GCPeriod :: string
  GatewayWritable :: bool
  RootRedirect :: string

record 'conf daemon_env =
  deRepo :: "'conf repo_env"
  BestKnownPath :: "ipfs_error + string"
  OsOpen :: "string \<Rightarrow> fs_error option"
  LoadPlugins :: "string \<Rightarrow> ipfs_error option"
  GetConfig :: "ipfs_error + repo_cfg"
  NewOffline :: "ipfs_error option"
  NewOnline :: "routing_option \<Rightarrow> (string \<times> bool) list \<Rightarrow> ipfs_error option"
  GetNode :: "ipfs_error option"
  GetApi :: "ipfs_error option"
  deLib :: lib_options

definition checkPermissions :: "'conf daemon_env \<Rightarrow> string \<Rightarrow> ipfs_error + bool" where
  "checkPermissions D path =
     (if IsNotExist (OsOpen D path) then Inr False
      else if IsPermission (OsOpen D path) then (case OsOpen D path of Some e \<Rightarrow> Inl (OsErr e) | None \<Rightarrow> Inr True)
      else Inr True)"

definition CheckPlugins :: "'conf daemon_env \<Rightarrow> string \<Rightarrow> ipfs_error + unit" where
  "CheckPlugins D repoPath =
     rbind (checkPermissions D repoPath) (\<lambda>ok.
       if ok then (case LoadPlugins D (path_Join [repoPath, ''plugins'']) of Some e \<Rightarrow> Inl e | None \<Rightarrow> Inr ()) else Inr ())"

definition open_repo :: "'conf daemon_env \<Rightarrow> ipfs_Config \<Rightarrow> ('conf, unit) run" where
  "open_repo D c = InitDefaultOrMigrateRepoIfNeeded (deRepo D) (RepoPath c) (Profile c) (AutoMigrate c)"

definition no_err :: "ipfs_error option \<Rightarrow> ipfs_error + unit" where
  "no_err e = (case e of Some e \<Rightarrow> Inl e | None \<Rightarrow> Inr ())"

definition createOfflineNode :: "'conf daemon_env \<Rightarrow> ipfs_Config \<Rightarrow> unit ipfs_reply" where
  "createOfflineNode D c = snd (check_then (open_repo D c) (\<lambda>_. ret (no_err (NewOffline D))))"

definition routing_of :: "string \<Rightarrow> ipfs_error + routing_option" where
  "routing_of t =
     (if t = ''dhtclient'' then Inr DHTClientOption
      else if t = ''dht'' then Inr DHTOption
      else if t = ''none'' then Inr NilRouterOption
      else Inl (IpfsErr (''unrecognized routing option: '' @ t)))"

definition extra_opts :: "ipfs_Config \<Rightarrow> (string \<times> bool) list" where
  "extra_opts c = [(''pubsub'', EnablePubSub c), (''ipnsps'', EnableIPNSPubSub c), (''mplex'', EnableMultiplex c)]"

text \<open>\<open>startDaemon\<close>, with whether it started the goroutine that collects garbage (\<open>startGC\<close>).\<close>

definition startDaemon :: "'conf daemon_env \<Rightarrow> ipfs_Config \<Rightarrow> bool ipfs_reply" where
  "startDaemon D c =
     snd (check_then (open_repo D c) (\<lambda>_.
       ret (rbind (GetConfig D) (\<lambda>cfg. rbind (routing_of (RoutingType cfg)) (\<lambda>routing.
         rbind (no_err (NewOnline D routing (extra_opts c))) (\<lambda>_. Inr (GCPeriod cfg \<noteq> [])))))))"

section \<open>The daemon (daemon.go, utils.go)\<close>

text \<open>
  The node in use: none, off line or on line; each node that was made has a number. \<open>streams\<close> are the protocols
  registered at the host of the node on line, \<open>live\<close> the nodes made and not closed or cancelled, \<open>collecting\<close> those with a
  goroutine that collects garbage. The callbacks are known by whether they are set; \<open>notified\<close> is what they were told.
\<close>

datatype ipfs_node = NoNode | OfflineNode nat | OnlineNode nat

datatype ipfs_note = NConnected nat | NDisconnected ipfs_node

record ipfs =
  config :: ipfs_Config
  inode :: ipfs_node
  api :: "nat option"
  apiServer :: http_handler
  gatewayServer :: http_handler
  plisteners :: "string list"
  onConnected :: bool
  onDisconnected :: bool
  streams :: "string list"
  live :: "nat list"
  collecting :: "nat list"
  notified :: "ipfs_note list"

definition NewIpfs :: "'conf daemon_env \<Rightarrow> ipfs_Config \<Rightarrow> nat \<Rightarrow> ipfs ipfs_reply" where
  "NewIpfs D c n =
     (case (if RepoPath c = [] then BestKnownPath D else Inr (RepoPath c)) of Inl e \<Rightarrow> IErr e | Inr repoPath \<Rightarrow>
      let c = c\<lparr>RepoPath := repoPath\<rparr> in
     (case CheckPlugins D repoPath of Inl e \<Rightarrow> IErr e | Inr _ \<Rightarrow>
     (case createOfflineNode D c of IErr e \<Rightarrow> IErr e | IPanic \<Rightarrow> IPanic
      | IOk _ \<Rightarrow> IOk \<lparr>config = c, inode = OfflineNode n, api = None, apiServer = SetOffline None,
          gatewayServer = SetOffline None, plisteners = [], onConnected = False, onDisconnected = False,
          streams = [], live = [n], collecting = [], notified = []\<rparr>)))"

text \<open>\<open>isOnline\<close>; \<open>None\<close> is the nil dereference when there is no node.\<close>

definition isOnline :: "ipfs \<Rightarrow> bool option" where
  "isOnline hi = (case inode hi of NoNode \<Rightarrow> None | OfflineNode _ \<Rightarrow> Some False | OnlineNode _ \<Rightarrow> Some True)"

definition close_node :: "ipfs_node \<Rightarrow> nat list \<Rightarrow> nat list" where
  "close_node nd l = (case nd of NoNode \<Rightarrow> l | OfflineNode m \<Rightarrow> removeAll m l | OnlineNode m \<Rightarrow> removeAll m l)"

definition err_of :: "ipfs_error + 'a \<Rightarrow> ipfs_error option" where
  "err_of r = (case r of Inl e \<Rightarrow> Some e | Inr _ \<Rightarrow> None)"

definition api_handler_err :: "'conf daemon_env \<Rightarrow> ipfs_Config \<Rightarrow> ipfs_error option" where
  "api_handler_err D c = err_of (newApiHandler (deLib D) (FakeApiListenAddr c) \<lparr>muxes = 0, registered = []\<rparr>)"

definition gateway_handler_err :: "'conf daemon_env \<Rightarrow> ipfs_Config \<Rightarrow> ipfs_error option" where
  "gateway_handler_err D c = err_of (newGatewayHandler (deLib D)
     (rbind (GetConfig D) (\<lambda>cfg. Inr (GatewayWritable cfg, RootRedirect cfg))) (GatewayListenAddr c) \<lparr>muxes = 0, registered = []\<rparr>)"

text \<open>
  \<open>Connect\<close>, making the node number \<open>n\<close>. Errors of the first three calls cancel the daemon; errors of making the handlers
  do not.
\<close>

definition Connect :: "'conf daemon_env \<Rightarrow> nat \<Rightarrow> ipfs \<Rightarrow> unit ipfs_reply \<times> ipfs" where
  "Connect D n hi =
     (case isOnline hi of None \<Rightarrow> (IPanic, hi) | Some True \<Rightarrow> (IOk (), hi) | Some False \<Rightarrow>
     (case startDaemon D (config hi) of IPanic \<Rightarrow> (IPanic, hi) | IErr x \<Rightarrow> (IErr x, hi) | IOk gc \<Rightarrow>
     (case GetNode D of Some x \<Rightarrow> (IErr x, hi) | None \<Rightarrow>
     (case GetApi D of Some x \<Rightarrow> (IErr x, hi) | None \<Rightarrow>
      let hi = hi\<lparr>live := n # live hi, collecting := (if gc then n # collecting hi else collecting hi)\<rparr>;
          err = api_handler_err D (config hi);
          hi = hi\<lparr>apiServer := SetOnline n err\<rparr> in
     (case err of Some x \<Rightarrow> (IErr x, hi) | None \<Rightarrow>
      let err = gateway_handler_err D (config hi);
          hi = hi\<lparr>gatewayServer := SetOnline n err\<rparr> in
     (case err of Some x \<Rightarrow> (IErr x, hi)
      | None \<Rightarrow> (IOk (), hi\<lparr>live := close_node (inode hi) (live hi), inode := OnlineNode n, api := Some n,
           streams := plisteners hi,
           notified := (if onConnected hi then NConnected n # notified hi else notified hi)\<rparr>)))))))"

text \<open>\<open>Disconnect\<close>, making the node number \<open>m\<close> for off line use. A panic leaves the closed node in place.\<close>

definition Disconnect :: "'conf daemon_env \<Rightarrow> nat \<Rightarrow> ipfs \<Rightarrow> unit ipfs_reply \<times> ipfs" where
  "Disconnect D m hi =
     (case inode hi of
        NoNode \<Rightarrow> (IPanic, hi)
      | OfflineNode _ \<Rightarrow> (IErr ErrIsOffline, hi)
      | OnlineNode n \<Rightarrow>
          let hi = hi\<lparr>streams := [], live := removeAll n (live hi), collecting := removeAll n (collecting hi)\<rparr>;
              tell = (\<lambda>hi. hi\<lparr>notified := (if onDisconnected hi then NDisconnected (inode hi) # notified hi else notified hi)\<rparr>) in
          (case createOfflineNode D (config hi) of
             IPanic \<Rightarrow> (IPanic, hi)
           | IErr e \<Rightarrow> (IErr e, tell (hi\<lparr>inode := NoNode, apiServer := SetOffline (Some e), gatewayServer := SetOffline (Some e)\<rparr>))
           | IOk _ \<Rightarrow> (IOk (), tell (hi\<lparr>inode := OfflineNode m, apiServer := SetOffline None,
               gatewayServer := SetOffline None, live := m # live hi\<rparr>))))"

definition Connected :: "ipfs \<Rightarrow> ipfs" where "Connected hi = hi\<lparr>onConnected := True\<rparr>"
definition Disconnected :: "ipfs \<Rightarrow> ipfs" where "Disconnected hi = hi\<lparr>onDisconnected := True\<rparr>"

definition getDaemonNode :: "ipfs \<Rightarrow> nat ipfs_reply" where
  "getDaemonNode hi = (case inode hi of NoNode \<Rightarrow> IPanic | OfflineNode _ \<Rightarrow> IErr ErrIsOffline | OnlineNode n \<Rightarrow> IOk n)"

definition getOfflineNode :: "ipfs \<Rightarrow> nat ipfs_reply" where
  "getOfflineNode hi = (case inode hi of NoNode \<Rightarrow> IPanic | OfflineNode n \<Rightarrow> IOk n | OnlineNode _ \<Rightarrow> IErr ErrIsOnline)"

definition coreAPI :: "ipfs \<Rightarrow> nat option ipfs_reply" where
  "coreAPI hi = (case inode hi of NoNode \<Rightarrow> IPanic | OfflineNode _ \<Rightarrow> IErr ErrIsOffline | OnlineNode _ \<Rightarrow> IOk (api hi))"

definition reply_bind :: "'a ipfs_reply \<Rightarrow> ('a \<Rightarrow> 'b ipfs_reply) \<Rightarrow> 'b ipfs_reply" where
  "reply_bind r f = (case r of IOk x \<Rightarrow> f x | IErr e \<Rightarrow> IErr e | IPanic \<Rightarrow> IPanic)"

definition lib_call :: "ipfs_error + 'a \<Rightarrow> 'a ipfs_reply" where
  "lib_call r = (case r of Inl e \<Rightarrow> IErr e | Inr x \<Rightarrow> IOk x)"

text \<open>\<open>Dial\<close>: connect to the peer, then open a stream with the protocol; both at the node on line.\<close>

definition ipfs_Dial :: "(nat \<Rightarrow> string \<Rightarrow> ipfs_error + unit) \<Rightarrow> (nat \<Rightarrow> string \<Rightarrow> string \<Rightarrow> ipfs_error + 'stream) \<Rightarrow>
    string \<Rightarrow> string \<Rightarrow> ipfs \<Rightarrow> 'stream ipfs_reply" where
  "ipfs_Dial connect newStream peer protocol hi =
     reply_bind (getDaemonNode hi) (\<lambda>n.
     reply_bind (lib_call (connect n peer)) (\<lambda>_.
     lib_call (newStream n peer protocol)))"

section \<open>Pins, garbage, files (pin.go, gc.go, io.go)\<close>

text \<open>
  The pinning of a node: parsing of paths and hashes, resolving, pinning, flushing, and the mode of a pin. \<open>text\<close> is
  \<open>err.Error()\<close>.
\<close>

record ('path, 'dag, 'hash) pin_env =
  peText :: "ipfs_error \<Rightarrow> string"
  ParsePath :: "string \<Rightarrow> ipfs_error + 'path"
  Resolve :: "nat \<Rightarrow> 'path \<Rightarrow> ipfs_error + 'dag"
  PinDag :: "nat \<Rightarrow> 'dag \<Rightarrow> ipfs_error + unit"
  FromB58String :: "string \<Rightarrow> ipfs_error + 'hash"
  UnpinHash :: "nat \<Rightarrow> 'hash \<Rightarrow> ipfs_error + unit"
  PinMode :: "nat \<Rightarrow> 'hash \<Rightarrow> ipfs_error + string"
  Flush :: "nat \<Rightarrow> ipfs_error + unit"

definition pin_error :: "('p, 'd, 'h) pin_env \<Rightarrow> ipfs_error + 'a \<Rightarrow> ipfs_error + 'a" where
  "pin_error P r = (case r of Inl e \<Rightarrow> Inl (IpfsErr (''pin: '' @ peText P e)) | Inr x \<Rightarrow> Inr x)"

definition Pin :: "('p, 'd, 'h) pin_env \<Rightarrow> string \<Rightarrow> ipfs \<Rightarrow> unit ipfs_reply" where
  "Pin P hash hi =
     reply_bind (getDaemonNode hi) (\<lambda>n.
     reply_bind (lib_call (ParsePath P hash)) (\<lambda>p.
     reply_bind (lib_call (pin_error P (Resolve P n p))) (\<lambda>dagnode.
     reply_bind (lib_call (pin_error P (PinDag P n dagnode))) (\<lambda>_.
     lib_call (Flush P n)))))"

definition Unpin :: "('p, 'd, 'h) pin_env \<Rightarrow> string \<Rightarrow> ipfs \<Rightarrow> unit ipfs_reply" where
  "Unpin P hash hi =
     reply_bind (getDaemonNode hi) (\<lambda>n.
     reply_bind (lib_call (FromB58String P hash)) (\<lambda>mhash.
     reply_bind (lib_call (UnpinHash P n mhash)) (\<lambda>_.
     lib_call (Flush P n))))"

definition IsPinned :: "('p, 'd, 'h) pin_env \<Rightarrow> string \<Rightarrow> ipfs \<Rightarrow> bool ipfs_reply" where
  "IsPinned P hash hi =
     reply_bind (getDaemonNode hi) (\<lambda>n.
     reply_bind (lib_call (FromB58String P hash)) (\<lambda>mhash.
     reply_bind (lib_call (PinMode P n mhash)) (\<lambda>mode.
     IOk (mode = ''direct'' \<or> mode = ''internal'' \<or> mode = ''indirect'' \<or> mode = ''recursive''))))"

text \<open>\<open>GC\<close>: the hashes reported by the collection, in order, unless it ends in an error.\<close>

definition GC :: "(ipfs_node \<Rightarrow> 'cid list \<times> ipfs_error option) \<Rightarrow> ('cid \<Rightarrow> 'hash) \<Rightarrow> ipfs \<Rightarrow> 'hash list ipfs_reply" where
  "GC collect cidHash hi = (case collect (inode hi) of (ks, err) \<Rightarrow>
     (case err of Some e \<Rightarrow> IErr e | None \<Rightarrow> IOk (map cidHash ks)))"

definition Get :: "(string \<Rightarrow> ipfs_error + 'path) \<Rightarrow> (nat option \<Rightarrow> 'path \<Rightarrow> ipfs_error + 'file) \<Rightarrow> string \<Rightarrow> ipfs \<Rightarrow> 'file ipfs_reply" where
  "Get parsePath unixfsGet path hi =
     reply_bind (lib_call (parsePath path)) (\<lambda>p.
     reply_bind (coreAPI hi) (\<lambda>a. lib_call (unixfsGet a p)))"

text \<open>The settings \<open>Add\<close> hands to the API: those given, with the API's own CID version when none is given.\<close>

definition add_settings :: "int \<times> 'opts \<Rightarrow> int \<times> 'opts \<Rightarrow> int \<times> 'opts" where
  "add_settings settings target = (if fst settings = 0 then fst target else fst settings, snd settings)"

definition Add :: "(nat option \<Rightarrow> (int \<times> 'opts \<Rightarrow> int \<times> 'opts) \<Rightarrow> ipfs_error + 'path) \<Rightarrow> int \<times> 'opts \<Rightarrow> ipfs \<Rightarrow> 'path ipfs_reply" where
  "Add unixfsAdd settings hi = reply_bind (coreAPI hi) (\<lambda>a. lib_call (unixfsAdd a (add_settings settings)))"

section \<open>Stream listeners (net.go)\<close>

definition ipfs_Listen :: "string \<Rightarrow> ipfs \<Rightarrow> string ipfs_reply \<times> ipfs" where
  "ipfs_Listen protocol hi =
     (if protocol \<in> set (plisteners hi) then (IErr ErrProtocolListened, hi)
      else if inode hi = NoNode then (IPanic, hi)
      else (IOk protocol, hi\<lparr>plisteners := protocol # plisteners hi,
              streams := (if isOnline hi = Some True then protocol # streams hi else streams hi)\<rparr>))"

text \<open>\<open>Listener.close\<close> takes the listener out of the map; the handler stays at the host and closes what arrives.\<close>

definition Listener_close :: "string \<Rightarrow> ipfs \<Rightarrow> ipfs" where
  "Listener_close protocol hi = hi\<lparr>plisteners := removeAll protocol (plisteners hi)\<rparr>"

text \<open>
  \<open>Accept\<close> over what happens at the listener: streams arriving, and the end of its context. The check may have a
  state and may panic. The result, the state of the check, the streams closed, and what is left.
\<close>

datatype 'st accept_event = Incoming 'st | CtxDone
datatype 'st accept_out = Conn 'st | CtxErr | AcceptPanic | Blocked

fun Accept :: "('s \<Rightarrow> 'st \<Rightarrow> bool option \<times> 's) option \<Rightarrow> 's \<Rightarrow> 'st accept_event list \<Rightarrow>
    'st accept_out \<times> 's \<times> 'st list \<times> 'st accept_event list" where
  "Accept verify s [] = (Blocked, s, [], [])"
| "Accept verify s (CtxDone # evs) = (CtxErr, s, [], evs)"
| "Accept verify s (Incoming st # evs) =
     (case verify of
        None \<Rightarrow> (Conn st, s, [], evs)
      | Some v \<Rightarrow>
          (case v s st of
             (None, s) \<Rightarrow> (AcceptPanic, s, [], evs)
           | (Some True, s) \<Rightarrow> (Conn st, s, [], evs)
           | (Some False, s) \<Rightarrow>
               (case Accept verify s evs of (r, s, cl, rest) \<Rightarrow> (r, s, st # cl, rest))))"

section \<open>A node for migrations (migrate-standalone.go)\<close>

text \<open>
  \<open>openTempRepo\<close>: an old temporary repository is thrown away and made new. \<open>first\<close> and \<open>second\<close> are the results of opening it.
\<close>

definition openTempRepo ::
  "'conf repo_env \<Rightarrow> ipfs_error option \<Rightarrow> fs_error option \<Rightarrow> ipfs_error option \<Rightarrow> string \<Rightarrow> unit ipfs_reply" where
  "openTempRepo E first removed second repoPath =
     (if first = None then IOk ()
      else if first \<noteq> Some ErrNeedMigration then lib_call (no_err first)
      else case removed of Some e \<Rightarrow> IErr (OsErr e)
        | None \<Rightarrow> reply_bind (snd (InitWithDefaultsIfNotExist E repoPath [])) (\<lambda>_. lib_call (no_err second)))"

text \<open>
  \<open>NewTempNode\<close>: whether the context it made is cancelled, with its result; \<open>MigrateStandalone\<close> cancels it after
  the migration.
\<close>

definition NewTempNode ::
  "'conf daemon_env \<Rightarrow> ipfs_error option \<Rightarrow> fs_error option \<Rightarrow> ipfs_error option \<Rightarrow> ipfs_Config \<Rightarrow> string \<Rightarrow> bool \<times> unit ipfs_reply" where
  "NewTempNode D first removed second c repoPath =
     (let r = reply_bind (openTempRepo (deRepo D) first removed second repoPath) (\<lambda>_. reply_bind (lib_call (no_err (NewOffline D))) (\<lambda>_.
        reply_bind (lib_call (no_err (GetApi D))) (\<lambda>_.
        lib_call (no_err (gateway_handler_err D (c\<lparr>RepoPath := repoPath\<rparr>)))))) in
      (case r of IErr _ \<Rightarrow> True | _ \<Rightarrow> False, r))"

definition TempNode_Get :: "(string \<Rightarrow> ipfs_error + 'path) \<Rightarrow> ('path \<Rightarrow> ipfs_error + 'file) \<Rightarrow> string \<Rightarrow> ipfs_error + 'file" where
  "TempNode_Get parsePath unixfsGet path = rbind (parsePath path) unixfsGet"

definition MigrateStandalone ::
  "'conf daemon_env \<Rightarrow> ipfs_error option \<Rightarrow> fs_error option \<Rightarrow> ipfs_error option \<Rightarrow> ipfs_Config \<Rightarrow> string \<Rightarrow> ipfs_error option \<Rightarrow>
    bool \<times> unit ipfs_reply" where
  "MigrateStandalone D first removed second c repoPath migrate =
     (case NewTempNode D first removed second c repoPath of
        (cancelled, IOk _) \<Rightarrow> (True, lib_call (no_err migrate))
      | (cancelled, r) \<Rightarrow> (cancelled, r))"

text \<open>
  \<open>TempNode.RoundTrip\<close>: the \<open>select\<close> has only the case of the ended context, so a request waits for it and then fails; \<open>None\<close>
  is a call that has not returned.
\<close>

definition TempNode_RoundTrip :: "bool \<Rightarrow> (ipfs_error + 'resp) option" where
  "TempNode_RoundTrip ctxDone = (if ctxDone then Some (Inl (IpfsErr ''skip alternate protocol'')) else None)"

section \<open>The daemon on and off line\<close>

text \<open>Any call that returns, with any results of the library; a panic ends the program.\<close>

inductive ipfs_step :: "ipfs \<Rightarrow> ipfs \<Rightarrow> bool" where
  step_connect: "n \<notin> set (live hi) \<Longrightarrow> Connect (D :: string daemon_env) n hi = (r, hi') \<Longrightarrow> r \<noteq> IPanic \<Longrightarrow> ipfs_step hi hi'"
| step_disconnect: "n \<notin> set (live hi) \<Longrightarrow> Disconnect (D :: string daemon_env) n hi = (r, hi') \<Longrightarrow> r \<noteq> IPanic \<Longrightarrow> ipfs_step hi hi'"
| step_listen: "ipfs_Listen p hi = (q, hi') \<Longrightarrow> q \<noteq> IPanic \<Longrightarrow> ipfs_step hi hi'"
| step_close: "ipfs_step hi (Listener_close p hi)"
| step_connected: "ipfs_step hi (Connected hi)"
| step_disconnected: "ipfs_step hi (Disconnected hi)"

definition ipfs_inv :: "ipfs \<Rightarrow> bool" where
  "ipfs_inv hi \<longleftrightarrow>
     (\<forall>n. inode hi = OnlineNode n \<longrightarrow> apiServer hi = HServe n \<and> gatewayServer hi = HServe n \<and> n \<in> set (live hi) \<and> api hi = Some n \<and>
       set (plisteners hi) \<subseteq> set (streams hi)) \<and>
     (\<forall>n. inode hi = OfflineNode n \<longrightarrow> n \<in> set (live hi)) \<and>
     (isOnline hi \<noteq> Some True \<longrightarrow> streams hi = []) \<and>
     (inode hi = NoNode \<longrightarrow> (\<exists>e. apiServer hi = HError e \<and> gatewayServer hi = HError e)) \<and>
     set (collecting hi) \<subseteq> set (live hi) \<and>
     (\<forall>m. inode hi = OfflineNode m \<longrightarrow> m \<notin> set (collecting hi))"

lemma Connect_inv: "ipfs_inv hi \<Longrightarrow> n \<notin> set (live hi) \<Longrightarrow> Connect D n hi = (r, hi') \<Longrightarrow> ipfs_inv hi'"
  by (cases "inode hi") (auto simp: Connect_def ipfs_inv_def isOnline_def SetOnline_def close_node_def Let_def
      split: option.splits ipfs_reply.splits if_splits)

lemma Disconnect_inv: "ipfs_inv hi \<Longrightarrow> n \<notin> set (live hi) \<Longrightarrow> Disconnect D n hi = (r, hi') \<Longrightarrow> r \<noteq> IPanic \<Longrightarrow> ipfs_inv hi'"
  by (cases "inode hi") (auto simp: Disconnect_def ipfs_inv_def isOnline_def SetOffline_def Let_def
      split: option.splits ipfs_reply.splits if_splits)

lemma ipfs_Listen_inv: "ipfs_inv hi \<Longrightarrow> ipfs_Listen p hi = (q, hi') \<Longrightarrow> ipfs_inv hi'"
  by (cases "inode hi") (auto simp: ipfs_Listen_def ipfs_inv_def isOnline_def split: if_splits)

lemma ipfs_setters_inv: "ipfs_inv hi \<Longrightarrow> ipfs_inv (Listener_close p hi) \<and> ipfs_inv (Connected hi) \<and> ipfs_inv (Disconnected hi)"
  by (auto simp: Listener_close_def Connected_def Disconnected_def ipfs_inv_def isOnline_def)

lemma NewIpfs_ok:
  assumes "NewIpfs D c n = IOk hi"
  shows "\<exists>path. hi = \<lparr>config = c\<lparr>RepoPath := path\<rparr>, inode = OfflineNode n, api = None, apiServer = HOffline,
    gatewayServer = HOffline, plisteners = [], onConnected = False, onDisconnected = False, streams = [], live = [n],
    collecting = [], notified = []\<rparr>"
proof (cases "if RepoPath c = [] then BestKnownPath D else Inr (RepoPath c)")
  case (Inr path)
  with assms show ?thesis
    by (cases "CheckPlugins D path"; cases "createOfflineNode D (c\<lparr>RepoPath := path\<rparr>)")
      (auto simp: NewIpfs_def Let_def SetOffline_def)
qed (use assms in \<open>simp add: NewIpfs_def\<close>)

interpretation daemon: invariant_system ipfs_step "\<lambda>hi. \<exists>D :: string daemon_env. \<exists>c n. NewIpfs D c n = IOk hi" ipfs_inv
proof
  show "ipfs_inv hi" if "\<exists>D :: string daemon_env. \<exists>c n. NewIpfs D c n = IOk hi" for hi
    using that by (auto simp: ipfs_inv_def isOnline_def dest!: NewIpfs_ok)
  show "ipfs_inv t" if inv: "ipfs_inv s" and st: "ipfs_step s t" for s t
    using st
  proof cases
    case (step_connect n D r)
    with inv show ?thesis by (blast intro: Connect_inv)
  next
    case (step_disconnect n D r)
    with inv show ?thesis by (blast intro: Disconnect_inv)
  next
    case (step_listen p q)
    with inv show ?thesis by (blast intro: ipfs_Listen_inv)
  qed (use inv ipfs_setters_inv in auto)
qed

text \<open>
  C11: whatever is called and whatever the library answers, as long as nothing panics: whenever the node is on line, both HTTP
  servers serve with handlers made for that node, the API is that of the node in use, its daemon is running, and every protocol listened on has its
  stream handler at the host, also those that were listened on while off line; without a node both servers answer
  502 with the error; and only running nodes collect garbage, never the one off line.
\<close>

theorem ipfs_online_serves:
  assumes "NewIpfs (D :: string daemon_env) c n0 = IOk hi0" "reach ipfs_step hi0 hi"
  shows "(\<forall>n. inode hi = OnlineNode n \<longrightarrow> handler_ServeHTTP text (apiServer hi) = Inl n \<and> handler_ServeHTTP text (gatewayServer hi) = Inl n \<and>
      coreAPI hi = IOk (Some n) \<and> n \<in> set (live hi) \<and> set (plisteners hi) \<subseteq> set (streams hi)) \<and>
    (inode hi = NoNode \<longrightarrow> (\<exists>e. handler_ServeHTTP text (apiServer hi) = Inr [OpWriteHeader 502, OpWrite (text e)] \<and>
       handler_ServeHTTP text (gatewayServer hi) = Inr [OpWriteHeader 502, OpWrite (text e)])) \<and>
    set (collecting hi) \<subseteq> set (live hi) \<and> (\<forall>m. inode hi = OfflineNode m \<longrightarrow> m \<in> set (live hi) \<and> m \<notin> set (collecting hi))"
proof -
  have "ipfs_inv hi" using daemon.inv_reachable[OF _ assms(2)] assms(1) by blast
  then show ?thesis by (fastforce simp: ipfs_inv_def handler_ServeHTTP_def coreAPI_def)
qed

text \<open>A library in which everything works.\<close>

definition example_daemon :: "string daemon_env" where
  "example_daemon = (let reg = (\<lambda>p mux st. Inr (mux, mux_Handle mux p (LibHandler p) st)) in
     \<lparr>deRepo = new_world\<lparr>eStat := (\<lambda>_. None)\<rparr>, BestKnownPath = Inr ''/r'', OsOpen = (\<lambda>_. None), LoadPlugins = (\<lambda>_. None),
      GetConfig = Inr \<lparr>RoutingType = ''dht'', GCPeriod = ''1h'', GatewayWritable = False, RootRedirect = []\<rparr>,
      NewOffline = None, NewOnline = (\<lambda>_ _. None), GetNode = None, GetApi = None,
      deLib = \<lparr>CheckVersionOption = reg ''/v'', CommandsOption = reg ''/c'', CommandsROOption = reg ''/c'', WebUIOption = reg ''/w'',
        GatewayOption = (\<lambda>_ _. reg ''/g''), VersionOption = reg ''/version'', MutexFractionOption = reg, LogOption = reg ''/logs'',
        RedirectOption = (\<lambda>p _. reg p), ToNetAddr = (\<lambda>_. None)\<rparr>\<rparr>)"

definition example_ipfs_Config :: ipfs_Config where
  "example_ipfs_Config = \<lparr>FakeApiListenAddr = ''/ip4/127.0.127.1/tcp/1270'', GatewayListenAddr = ''/ip4/0.0.0.0/tcp/7777'', RepoPath = [],
     Profile = [], AutoMigrate = False, EnableIPNSPubSub = False, EnablePubSub = False, EnableMultiplex = False\<rparr>"

lemma example_daemon_starts:
  "createOfflineNode example_daemon c = IOk ()" "startDaemon example_daemon c = IOk True"
  by (simp_all add: createOfflineNode_def startDaemon_def open_repo_def InitDefaultOrMigrateRepoIfNeeded_def
      InitWithDefaultsIfNotExist_def IsNotExist_def ret_def act_def no_err_def routing_of_def example_daemon_def new_world_def Let_def)

lemma example_daemon_plugins:
  "CheckPlugins example_daemon p = Inr ()" "BestKnownPath example_daemon = Inr ''/r''" "GetNode example_daemon = None" "GetApi example_daemon = None"
  by (simp_all add: CheckPlugins_def checkPermissions_def IsNotExist_def IsPermission_def example_daemon_def Let_def)

lemmas example_daemon_simps = example_daemon_starts example_daemon_plugins

lemma example_daemon_handlers:
  "api_handler_err example_daemon c = None" "gateway_handler_err example_daemon c = None"
  by (simp_all add: api_handler_err_def gateway_handler_err_def err_of_def newApiHandler_def newGatewayHandler_def newHttpHandler_def
      makeHandler_def NewServeMux_def defaultMux_def IPNSHostnameOption_def example_daemon_def Let_def)

theorem ipfs_online_serves_witness:
  "\<exists>hi0 hi. NewIpfs example_daemon example_ipfs_Config 0 = IOk hi0 \<and> reach ipfs_step hi0 hi \<and> inode hi = OnlineNode 1 \<and>
     handler_ServeHTTP (\<lambda>_. []) (apiServer hi) = Inl 1 \<and> coreAPI hi = IOk (Some 1) \<and>
     set (plisteners hi) \<subseteq> set (streams hi) \<and> ''/p'' \<in> set (plisteners hi) \<and> set (collecting hi) = {1}"
proof -
  let ?a = "case NewIpfs example_daemon example_ipfs_Config 0 of IOk hi \<Rightarrow> hi"
  let ?b = "snd (ipfs_Listen ''/p'' ?a)" let ?c = "snd (Connect example_daemon 1 ?b)"
  have n: "NewIpfs example_daemon example_ipfs_Config 0 = IOk ?a"
    by (simp add: NewIpfs_def example_daemon_simps example_ipfs_Config_def)
  from NewIpfs_ok[OF n] have a: "inode ?a = OfflineNode 0" "plisteners ?a = []" "live ?a = [0]" "collecting ?a = []" by auto
  have "ipfs_step ?a ?b" by (rule step_listen[OF prod.collapse[symmetric]]) (simp add: ipfs_Listen_def a)
  moreover have c: "fst (Connect example_daemon 1 ?b) = IOk ()" "inode ?c = OnlineNode 1" "''/p'' \<in> set (plisteners ?c)"
      "set (collecting ?c) = {1}"
    by (simp_all add: Connect_def ipfs_Listen_def isOnline_def a example_daemon_simps example_daemon_handlers Let_def)
  moreover have "ipfs_step ?b ?c"
  proof (rule step_connect[OF _ prod.collapse[symmetric]])
    show "1 \<notin> set (live ?b)" by (simp add: ipfs_Listen_def a)
    show "fst (Connect example_daemon 1 ?b) \<noteq> IPanic" unfolding c(1) by simp
  qed
  ultimately have r: "reach ipfs_step ?a ?c" by (blast intro: reach_refl reach_step)
  from ipfs_online_serves[OF n r, of "\<lambda>_. []"] n r c(2-4) show ?thesis by blast
qed

text \<open>
  When making a handler fails, \<open>Connect\<close> reports the error but leaves the daemon it started running, with nothing left that
  could cancel it; and when it is the gateway that fails, the API server already serves that daemon although the
  node is off line.
\<close>

theorem Connect_leaks_daemon:
  assumes "inode hi = OfflineNode m" "n \<noteq> m" "startDaemon D (config hi) = IOk gc" "GetNode D = None" "GetApi D = None"
    "api_handler_err D (config hi) = None" "gateway_handler_err D (config hi) = Some x"
  shows "fst (Connect D n hi) = IErr x \<and> n \<in> set (live (snd (Connect D n hi))) \<and>
    inode (snd (Connect D n hi)) = OfflineNode m \<and> apiServer (snd (Connect D n hi)) = HServe n"
  using assms by (simp add: Connect_def isOnline_def SetOnline_def Let_def)

section \<open>Migrations with a node of their own\<close>

text \<open>
  A temporary node never answers a request over its transport: before its context ends a request does not return, and after it
  the answer is an error.
\<close>

lemma TempNode_never_answers: "TempNode_RoundTrip ctxDone \<noteq> Some (Inr resp)"
  by (simp add: TempNode_RoundTrip_def)

text \<open>The context of a temporary node is cancelled on every way out that is not a panic.\<close>

lemma MigrateStandalone_cancels:
  "snd (MigrateStandalone D first removed second c repoPath migrate) \<noteq> IPanic \<Longrightarrow> fst (MigrateStandalone D first removed second c repoPath migrate)"
  by (auto simp: MigrateStandalone_def NewTempNode_def Let_def split: prod.splits ipfs_reply.splits)

section \<open>Admission of streams\<close>

text \<open>
  A stream \<open>Accept\<close> hands out was accepted by the check, and every stream before it was rejected and closed.
\<close>

lemma Accept_admits:
  assumes "Accept (Some v) s evs = (Conn st, s', cl, rest)" "P s" "\<And>s x b s2. P s \<Longrightarrow> v s x = (b, s2) \<Longrightarrow> P s2"
  shows "evs = map Incoming cl @ Incoming st # rest \<and> (\<exists>s1. P s1 \<and> v s1 st = (Some True, s'))"
  using assms(1,2)
proof (induction evs arbitrary: s cl)
  case (Cons ev evs)
  show ?case
  proof (cases ev)
    case (Incoming x)
    obtain b s1 where v: "v s x = (b, s1)" by force
    show ?thesis
    proof (cases "b = Some False")
      case True
      obtain r s2 cl2 rest2 where a: "Accept (Some v) s1 evs = (r, s2, cl2, rest2)" by (metis prod_cases4)
      with Cons.prems(1) v True Incoming have r: "r = Conn st" "s2 = s'" "cl = x # cl2" "rest2 = rest" by auto
      from Cons.IH[of s1 cl2] a r assms(3)[OF Cons.prems(2) v] show ?thesis by (simp add: Incoming r(3))
    next
      case False
      with Cons.prems v Incoming show ?thesis by (auto split: option.splits if_splits)
    qed
  qed (use Cons.prems in simp)
qed simp

end
