(* ===== verification/StreamListener.thy ===== *)
theory StreamListener
  imports Ipfs "HOL-Library.Multiset"
begin

text \<open>
  A stream listener with its goroutines, \<open>Listener\<close> of \<open>src/pkg/ipfs/net.go\<close>: the host runs \<open>onStream\<close> in a goroutine for each
  stream that arrives, which offers it on an unbuffered channel or closes it when the listener's context has ended;
  \<open>Accept\<close> takes streams from the channel until one passes the check. The transition system below refines the function
  \<open>Accept\<close> of theory \<open>Ipfs\<close>: each call of it returns what the function gives on the streams it took.
\<close>

section \<open>Addresses\<close>

record streamAddr =
  saProtocol :: string
  saPeer :: string

definition streamAddr_Network :: "streamAddr \<Rightarrow> string" where "streamAddr_Network sa = saProtocol sa"
definition streamAddr_String :: "streamAddr \<Rightarrow> string" where "streamAddr_String sa = saPeer sa"

text \<open>A stream as its address methods see it: its protocol and the peers of its connection.\<close>

record p2p_stream =
  stProtocol :: string
  stLocalPeer :: string
  stRemotePeer :: string

definition LocalAddr :: "p2p_stream \<Rightarrow> streamAddr" where
  "LocalAddr st = \<lparr>saProtocol = stProtocol st, saPeer = stLocalPeer st\<rparr>"

definition RemoteAddr :: "p2p_stream \<Rightarrow> streamAddr" where
  "RemoteAddr st = \<lparr>saProtocol = stProtocol st, saPeer = stRemotePeer st\<rparr>"

definition Listener_Addr :: "string \<Rightarrow> string \<Rightarrow> streamAddr" where
  "Listener_Addr self protocol = \<lparr>saProtocol = protocol, saPeer = self\<rparr>"

section \<open>The listener\<close>

datatype 'st accept_pc = AIdle | AWaiting | AReturned "'st accept_out"

text \<open>
  \<open>arrived\<close> are all streams that arrived, \<open>offered\<close> those whose goroutine waits. Of the current or last call of \<open>Accept\<close>:
  \<open>vstart\<close> and \<open>vstate\<close> are the states of the check when it began and now, \<open>taken\<close> what its \<open>select\<close> chose, \<open>dropped\<close> the streams it
  closed. \<open>handed\<close>, \<open>rejected\<close> and \<open>hostClosed\<close> are the streams returned, closed by \<open>Accept\<close> and closed by \<open>onStream\<close>.
\<close>

record ('s, 'st) stream_listener =
  arrived :: "'st list"
  offered :: "'st list"
  ctxDone :: bool
  acceptor :: "'st accept_pc"
  vstart :: 's
  vstate :: 's
  taken :: "'st accept_event list"
  dropped :: "'st list"
  handed :: "'st list"
  rejected :: "'st list"
  hostClosed :: "'st list"
  panicked :: "'st list"

definition new_listener :: "'s \<Rightarrow> ('s, 'st) stream_listener" where
  "new_listener v = \<lparr>arrived = [], offered = [], ctxDone = False, acceptor = AIdle, vstart = v, vstate = v, taken = [], dropped = [],
     handed = [], rejected = [], hostClosed = [], panicked = []\<rparr>"

definition check :: "('s \<Rightarrow> 'st \<Rightarrow> bool option \<times> 's) option \<Rightarrow> 's \<Rightarrow> 'st \<Rightarrow> bool option \<times> 's" where
  "check verify v st = (case verify of None \<Rightarrow> (Some True, v) | Some f \<Rightarrow> f v st)"

text \<open>
  \<open>Accept\<close> is called by one goroutine at a time, as the accept loop does; the state of the check may change between calls.
\<close>

inductive sl_step :: "('s \<Rightarrow> 'st \<Rightarrow> bool option \<times> 's) option \<Rightarrow> ('s, 'st) stream_listener \<Rightarrow> ('s, 'st) stream_listener \<Rightarrow> bool"
  for verify where
  arrive: "sl_step verify s (s\<lparr>arrived := st # arrived s, offered := st # offered s\<rparr>)"
| on_closed: "st \<in> set (offered s) \<Longrightarrow> ctxDone s \<Longrightarrow>
    sl_step verify s (s\<lparr>offered := remove1 st (offered s), hostClosed := st # hostClosed s\<rparr>)"
| call: "acceptor s \<noteq> AWaiting \<Longrightarrow> acceptor s \<noteq> AReturned AcceptPanic \<Longrightarrow>
    sl_step verify s (s\<lparr>acceptor := AWaiting, vstart := v, vstate := v, taken := [], dropped := []\<rparr>)"
| hand: "acceptor s = AWaiting \<Longrightarrow> st \<in> set (offered s) \<Longrightarrow> check verify (vstate s) st = (Some True, v) \<Longrightarrow>
    sl_step verify s (s\<lparr>offered := remove1 st (offered s), acceptor := AReturned (Conn st), vstate := v,
      taken := taken s @ [Incoming st], handed := st # handed s\<rparr>)"
| reject: "acceptor s = AWaiting \<Longrightarrow> st \<in> set (offered s) \<Longrightarrow> check verify (vstate s) st = (Some False, v) \<Longrightarrow>
    sl_step verify s (s\<lparr>offered := remove1 st (offered s), vstate := v, taken := taken s @ [Incoming st],
      dropped := dropped s @ [st], rejected := st # rejected s\<rparr>)"
| check_panics: "acceptor s = AWaiting \<Longrightarrow> st \<in> set (offered s) \<Longrightarrow> check verify (vstate s) st = (None, v) \<Longrightarrow>
    sl_step verify s (s\<lparr>offered := remove1 st (offered s), acceptor := AReturned AcceptPanic, vstate := v,
      taken := taken s @ [Incoming st], panicked := st # panicked s\<rparr>)"
| accept_done: "acceptor s = AWaiting \<Longrightarrow> ctxDone s \<Longrightarrow>
    sl_step verify s (s\<lparr>acceptor := AReturned CtxErr, taken := taken s @ [CtxDone]\<rparr>)"
| sl_close: "sl_step verify s (s\<lparr>ctxDone := True\<rparr>)"

section \<open>Refinement of \<open>Accept\<close>\<close>

text \<open>The call in progress is a prefix of a call of the function; a call that returned is one.\<close>

definition call_refines :: "('s \<Rightarrow> 'st \<Rightarrow> bool option \<times> 's) option \<Rightarrow> ('s, 'st) stream_listener \<Rightarrow> bool" where
  "call_refines verify s \<longleftrightarrow>
     (acceptor s = AWaiting \<longrightarrow> (\<forall>evs. Accept verify (vstart s) (taken s @ evs) =
        (case Accept verify (vstate s) evs of (r, v, cl, rest) \<Rightarrow> (r, v, dropped s @ cl, rest)))) \<and>
     (\<forall>r. acceptor s = AReturned r \<longrightarrow> (\<forall>evs. Accept verify (vstart s) (taken s @ evs) = (r, vstate s, dropped s, evs)))"

definition streams_kept :: "('s, 'st) stream_listener \<Rightarrow> bool" where
  "streams_kept s \<longleftrightarrow>
     mset (arrived s) = mset (offered s) + mset (handed s) + mset (rejected s) + mset (hostClosed s) + mset (panicked s)"

lemma Accept_check:
  "Accept verify v (Incoming st # evs) =
     (case check verify v st of
        (None, w) \<Rightarrow> (AcceptPanic, w, [], evs)
      | (Some True, w) \<Rightarrow> (Conn st, w, [], evs)
      | (Some False, w) \<Rightarrow> (case Accept verify w evs of (r, w, cl, rest) \<Rightarrow> (r, w, st # cl, rest)))"
  by (cases verify) (auto simp: check_def split: prod.splits option.splits bool.splits)

lemma call_refines_step:
  assumes "sl_step verify s t" "call_refines verify s" shows "call_refines verify t"
  using assms
proof cases
  case (hand st v)
  with assms(2) show ?thesis by (simp add: call_refines_def Accept_check del: Accept.simps(3))
next
  case (reject st v)
  with assms(2) show ?thesis by (auto simp: call_refines_def Accept_check simp del: Accept.simps(3) split: prod.splits)
next
  case (check_panics st v)
  with assms(2) show ?thesis by (simp add: call_refines_def Accept_check del: Accept.simps(3))
next
  case accept_done
  with assms(2) show ?thesis by (simp add: call_refines_def)
next
  case (call v)
  then show ?thesis by (simp add: call_refines_def split: prod.splits)
qed (use assms(2) in \<open>simp_all add: call_refines_def\<close>)

lemma streams_kept_step: "sl_step verify s t \<Longrightarrow> streams_kept s \<Longrightarrow> streams_kept t"
  by (induction rule: sl_step.induct) (auto simp: streams_kept_def)

interpretation stream_listener: invariant_system "sl_step verify" "\<lambda>s. \<exists>v. s = new_listener v" "\<lambda>s. call_refines verify s \<and> streams_kept s"
  for verify
proof
  show "call_refines verify s \<and> streams_kept s" if "\<exists>v. s = new_listener v" for s
    using that by (auto simp: new_listener_def call_refines_def streams_kept_def)
  show "call_refines verify t \<and> streams_kept t" if "call_refines verify s \<and> streams_kept s" "sl_step verify s t" for s t
    using that call_refines_step streams_kept_step by blast
qed

lemma sl_drain:
  assumes "ctxDone s" shows "\<exists>t. reach (sl_step verify) s t \<and> offered t = [] \<and> acceptor t \<noteq> AWaiting"
  using assms
proof (induction "length (offered s)" arbitrary: s rule: less_induct)
  case less
  show ?case
  proof (cases "offered s")
    case Nil
    show ?thesis
    proof (cases "acceptor s = AWaiting")
      case True
      let ?t = "s\<lparr>acceptor := AReturned CtxErr, taken := taken s @ [CtxDone]\<rparr>"
      have "sl_step verify s ?t" using True less.prems by (rule sl_step.accept_done)
      then have "reach (sl_step verify) s ?t" by (blast intro: reach_refl reach_step)
      with Nil show ?thesis by (intro exI[of _ ?t]) simp
    qed (use Nil in \<open>blast intro: reach_refl\<close>)
  next
    case (Cons st sts)
    let ?t = "s\<lparr>offered := remove1 st (offered s), hostClosed := st # hostClosed s\<rparr>"
    have "sl_step verify s ?t" using Cons less.prems by (intro sl_step.on_closed) simp_all
    moreover have "\<exists>u. reach (sl_step verify) ?t u \<and> offered u = [] \<and> acceptor u \<noteq> AWaiting"
      using Cons less.prems by (intro less.hyps) simp_all
    ultimately show ?thesis by (blast intro: reach_first)
  qed
qed

text \<open>
  C14: every call of \<open>Accept\<close> on a listener returns what the sequential \<open>Accept\<close> gives on the streams it took, whatever
  streams arrive meanwhile and whenever the listener is closed; no stream is lost or handed out twice: each one that
  arrived is waiting, was handed out, or was closed (or its check panicked); and after closing, no stream and no call is
  left waiting for ever.
\<close>

theorem Accept_refined:
  assumes "reach (sl_step verify) (new_listener v0) s"
  shows "(\<forall>r. acceptor s = AReturned r \<longrightarrow> Accept verify (vstart s) (taken s) = (r, vstate s, dropped s, [])) \<and>
    mset (arrived s) = mset (offered s) + mset (handed s) + mset (rejected s) + mset (hostClosed s) + mset (panicked s) \<and>
    (ctxDone s \<longrightarrow> (\<exists>t. reach (sl_step verify) s t \<and> offered t = [] \<and> acceptor t \<noteq> AWaiting))"
proof -
  have inv: "call_refines verify s \<and> streams_kept s" using stream_listener.inv_reachable[OF _ assms] by blast
  then have "Accept verify (vstart s) (taken s) = (r, vstate s, dropped s, [])" if "acceptor s = AReturned r" for r
    using that unfolding call_refines_def by (metis append_Nil2)
  with inv sl_drain[of s verify] show ?thesis by (auto simp: streams_kept_def)
qed

theorem Accept_refined_witness:
  "\<exists>s. reach (sl_step (Some (\<lambda>v st. (Some (st = ''good''), v)))) (new_listener ()) s \<and> acceptor s = AReturned (Conn ''good'') \<and>
     rejected s = [''bad''] \<and> Accept (Some (\<lambda>v st. (Some (st = ''good''), v))) () (taken s) = (Conn ''good'', (), dropped s, [])"
proof -
  let ?v = "Some (\<lambda>(v :: unit) st. (Some (st = ''good''), v))"
  let ?a = "(new_listener () :: (unit, string) stream_listener)\<lparr>arrived := [''bad''], offered := [''bad'']\<rparr>"
  let ?b = "?a\<lparr>arrived := [''good'', ''bad''], offered := [''good'', ''bad'']\<rparr>"
  let ?c = "?b\<lparr>acceptor := AWaiting\<rparr>"
  let ?d = "?c\<lparr>offered := [''good''], taken := [Incoming ''bad''], dropped := [''bad''], rejected := [''bad'']\<rparr>"
  let ?e = "?d\<lparr>offered := [], acceptor := AReturned (Conn ''good''), taken := [Incoming ''bad'', Incoming ''good''], handed := [''good'']\<rparr>"
  have st: "sl_step ?v (new_listener ()) ?a" "sl_step ?v ?a ?b" "sl_step ?v ?b ?c" "sl_step ?v ?c ?d" "sl_step ?v ?d ?e"
    using sl_step.arrive[of ?v "new_listener ()" "''bad''"] sl_step.arrive[of ?v ?a "''good''"] sl_step.call[of ?b ?v "()"]
      sl_step.reject[of ?c "''bad''" ?v "()"] sl_step.hand[of ?d "''good''" ?v "()"]
    by (simp_all add: new_listener_def check_def)
  have r: "reach (sl_step ?v) (new_listener ()) ?e"
    by (rule reach_step, rule reach_step, rule reach_step, rule reach_step, rule reach_step, rule reach_refl) (rule st)+
  from Accept_refined[OF r] r show ?thesis by (intro exI[of _ ?e]) simp
qed

section \<open>Serving a listener (coreh2server.go)\<close>

text \<open>
  \<open>Serve\<close> runs the accept loop of \<open>netutil\<close> on the listener; each connection is given to the HTTP/2 server, which calls
  \<open>ServeHTTP\<close> for its requests. The results of calling \<open>Accept\<close> again and again: the end of the context is an error
  that is not temporary, and after a panic there is nothing.
\<close>

lemma Accept_consumes:
  "Accept verify s evs = (r, s', cl, rest) \<Longrightarrow> length rest \<le> length evs \<and> (\<forall>st. r = Conn st \<longrightarrow> length rest < length evs)"
proof (induction evs arbitrary: s cl)
  case (Cons ev evs)
  show ?case
  proof (cases ev)
    case (Incoming st)
    obtain b w where c: "check verify s st = (b, w)" by force
    obtain r2 s2 cl2 rest2 where a: "Accept verify w evs = (r2, s2, cl2, rest2)" by (metis prod_cases4)
    show ?thesis
    proof (cases "b = Some False")
      case True
      with Cons.prems Incoming c a have "r2 = r" "rest2 = rest" "s2 = s'"
        by (auto simp: Accept_check simp del: Accept.simps(3))
      with Cons.IH[OF a[unfolded this]] show ?thesis by auto
    next
      case False
      with Cons.prems Incoming c show ?thesis
        by (auto simp: Accept_check simp del: Accept.simps(3) split: option.splits bool.splits)
    qed
  qed (use Cons.prems in simp)
qed simp

function accept_all :: "('s \<Rightarrow> 'st \<Rightarrow> bool option \<times> 's) option \<Rightarrow> 's \<Rightarrow> 'st accept_event list \<Rightarrow> ('st, unit) accept_result list" where
  "accept_all verify s evs =
     (case Accept verify s evs of
        (Conn st, s', cl, rest) \<Rightarrow> Accepted st # accept_all verify s' rest
      | (CtxErr, s', cl, rest) \<Rightarrow> [FatalErr ()]
      | _ \<Rightarrow> [])"
  by pat_completeness auto
termination
  by (relation "measure (\<lambda>(verify, s, evs). length evs)") (simp, metis Accept_consumes case_prod_conv in_measure)

declare accept_all.simps [simp del]

definition Core_Serve :: "('s \<Rightarrow> 'st \<Rightarrow> bool option \<times> 's) option \<Rightarrow> 's \<Rightarrow> 'st accept_event list \<Rightarrow> ('st, unit) serve_event list" where
  "Core_Serve verify s evs = SimpleServe 0 (accept_all verify s evs)"

lemma SimpleServe_conns: "ServeConn c \<in> set (SimpleServe d rs) \<longleftrightarrow> Accepted c \<in> set (takeWhile (\<lambda>r. \<forall>e. r \<noteq> FatalErr e) rs)"
  by (induction d rs rule: SimpleServe.induct) (auto simp: Let_def)

text \<open>Every connection that is served was returned by a call of \<open>Accept\<close> in a state that the check keeps to.\<close>

lemma accept_all_admitted:
  assumes "Accepted st \<in> set (accept_all (Some v) s evs)" "P s" "\<And>s x b s2. P s \<Longrightarrow> v s x = (b, s2) \<Longrightarrow> P s2"
  shows "\<exists>s1 s2. P s1 \<and> v s1 st = (Some True, s2)"
  using assms(1,2)
proof (induction "length evs" arbitrary: s evs rule: less_induct)
  case less
  obtain r s' cl rest where a: "Accept (Some v) s evs = (r, s', cl, rest)" by (metis prod_cases4)
  with less.prems obtain st' where r: "r = Conn st'"
    by (cases r) (auto simp: accept_all.simps[of "Some v" s evs])
  have "\<exists>s1. P s1 \<and> v s1 st' = (Some True, s')"
    using Accept_admits[where P = P, OF a[unfolded r] less.prems(2)] assms(3) by blast
  then obtain s1 where s1: "P s1" "v s1 st' = (Some True, s')" by blast
  have "st = st' \<or> Accepted st \<in> set (accept_all (Some v) s' rest)"
    using less.prems(1) a r by (simp add: accept_all.simps[of "Some v" s evs])
  then show ?case
  proof
    assume "Accepted st \<in> set (accept_all (Some v) s' rest)"
    moreover have "length rest < length evs" using Accept_consumes[OF a] r by blast
    moreover have "P s'" by (rule assms(3)[OF s1])
    ultimately show ?thesis using less.hyps by blast
  qed (use s1 in blast)
qed

lemma Core_Serve_admitted:
  assumes "ServeConn st \<in> set (Core_Serve (Some v) s evs)" "P s" "\<And>s x b s2. P s \<Longrightarrow> v s x = (b, s2) \<Longrightarrow> P s2"
  shows "\<exists>s1 s2. P s1 \<and> v s1 st = (Some True, s2)"
proof -
  have "Accepted st \<in> set (accept_all (Some v) s evs)"
    using assms(1) unfolding Core_Serve_def SimpleServe_conns by (rule set_takeWhileD[THEN conjunct1])
  then show ?thesis using assms(2,3) by (rule accept_all_admitted)
qed

end
