(* ===== verification/Interrupts.thy ===== *)
theory Interrupts
  imports GoLib
begin

text \<open>
  The interrupt handler of \<open>src/cmd/hybrid/hybrid.go\<close>: a channel of one signal that the signal package sends to, the goroutine
  that counts and handles signals, the goroutine that cancels the context after the first one, and \<open>Close\<close>, which closes the
  channel and waits for both.
\<close>

section \<open>The transition system\<close>

datatype canceller = CNone | CRunning | CDone
datatype closer = NotClosing | ClosingWait | CloseReturned

record IntrHandler =
  sigBuf :: bool
  sigClosed :: bool
  registered :: bool
  sigCount :: nat
  loopDone :: bool
  canceller :: canceller
  intrCancelled :: bool
  closer :: closer
  exited :: bool
  sendPanic :: bool

text \<open>The state after \<open>setupInterruptHandler\<close>.\<close>

definition setupInterruptHandler :: IntrHandler where
  "setupInterruptHandler = \<lparr>sigBuf = False, sigClosed = False, registered = True, sigCount = 0, loopDone = False, canceller = CNone,
     intrCancelled = False, closer = NotClosing, exited = False, sendPanic = False\<rparr>"

definition alive :: "IntrHandler \<Rightarrow> bool" where
  "alive s \<longleftrightarrow> \<not> exited s \<and> \<not> sendPanic s"

text \<open>
  The signal package sends without blocking: a signal is lost when one is waiting. Sending to a closed channel panics. The
  loop handles what is in the channel before it sees that it is closed, and only then unregisters.
\<close>

inductive intr_step :: "IntrHandler \<Rightarrow> IntrHandler \<Rightarrow> bool" where
  deliver: "alive s \<Longrightarrow> registered s \<Longrightarrow> \<not> sigClosed s \<Longrightarrow> intr_step s (s\<lparr>sigBuf := True\<rparr>)"
| deliver_closed: "alive s \<Longrightarrow> registered s \<Longrightarrow> sigClosed s \<Longrightarrow> intr_step s (s\<lparr>sendPanic := True\<rparr>)"
| handle_first: "alive s \<Longrightarrow> \<not> loopDone s \<Longrightarrow> sigBuf s \<Longrightarrow> sigCount s = 0 \<Longrightarrow>
    intr_step s (s\<lparr>sigBuf := False, sigCount := 1, canceller := CRunning\<rparr>)"
| handle_again: "alive s \<Longrightarrow> \<not> loopDone s \<Longrightarrow> sigBuf s \<Longrightarrow> sigCount s \<noteq> 0 \<Longrightarrow>
    intr_step s (s\<lparr>sigBuf := False, sigCount := Suc (sigCount s), exited := True\<rparr>)"
| loop_end: "alive s \<Longrightarrow> \<not> loopDone s \<Longrightarrow> sigClosed s \<Longrightarrow> \<not> sigBuf s \<Longrightarrow>
    intr_step s (s\<lparr>loopDone := True, registered := False\<rparr>)"
| cancel: "alive s \<Longrightarrow> canceller s = CRunning \<Longrightarrow> intr_step s (s\<lparr>canceller := CDone, intrCancelled := True\<rparr>)"
| close_call: "alive s \<Longrightarrow> closer s = NotClosing \<Longrightarrow> intr_step s (s\<lparr>sigClosed := True, closer := ClosingWait\<rparr>)"
| close_return: "alive s \<Longrightarrow> closer s = ClosingWait \<Longrightarrow> loopDone s \<Longrightarrow> canceller s \<noteq> CRunning \<Longrightarrow>
    intr_step s (s\<lparr>closer := CloseReturned\<rparr>)"

section \<open>Invariant\<close>

definition intr_inv :: "IntrHandler \<Rightarrow> bool" where
  "intr_inv s \<longleftrightarrow> (sigClosed s \<longleftrightarrow> closer s \<noteq> NotClosing) \<and> (registered s \<longleftrightarrow> \<not> loopDone s) \<and>
     (loopDone s \<longrightarrow> sigClosed s \<and> \<not> sigBuf s) \<and> (canceller s = CNone \<longleftrightarrow> sigCount s = 0) \<and>
     (intrCancelled s \<longleftrightarrow> canceller s = CDone) \<and> (closer s = CloseReturned \<longrightarrow> loopDone s \<and> canceller s \<noteq> CRunning) \<and>
     (exited s \<longleftrightarrow> 2 \<le> sigCount s) \<and> (sendPanic s \<longrightarrow> sigClosed s)"

interpretation interrupts: invariant_system intr_step "\<lambda>s. s = setupInterruptHandler" intr_inv
proof
  show "intr_inv s" if "s = setupInterruptHandler" for s using that by (simp add: intr_inv_def setupInterruptHandler_def)
  show "intr_inv t" if "intr_inv s" "intr_step s t" for s t
    using that(2,1) by cases (auto simp: intr_inv_def alive_def)
qed

text \<open>A call of \<open>Close\<close> that waits can return, unless a second signal ends the process.\<close>

lemma close_can_return:
  assumes "intr_inv s" "alive s" "closer s = ClosingWait"
  shows "\<exists>t. reach intr_step s t \<and> (closer t = CloseReturned \<or> exited t)"
proof -
  have fin: "\<exists>t. reach intr_step u t \<and> closer t = CloseReturned"
    if u: "alive u" "closer u = ClosingWait" "loopDone u" for u
  proof (cases "canceller u = CRunning")
    case True
    let ?a = "u\<lparr>canceller := CDone, intrCancelled := True\<rparr>" let ?b = "?a\<lparr>closer := CloseReturned\<rparr>"
    have "intr_step u ?a" "intr_step ?a ?b"
      using u True intr_step.cancel[of u] intr_step.close_return[of ?a] by (simp_all add: alive_def)
    then have "reach intr_step u ?b" by (blast intro: reach_refl reach_step)
    then show ?thesis by force
  next
    case False
    then have "intr_step u (u\<lparr>closer := CloseReturned\<rparr>)" using u by (intro intr_step.close_return)
    then have "reach intr_step u (u\<lparr>closer := CloseReturned\<rparr>)" by (blast intro: reach_refl reach_step)
    then show ?thesis by force
  qed
  have drained: "\<exists>t. reach intr_step u t \<and> closer t = CloseReturned"
    if u: "alive u" "closer u = ClosingWait" "\<not> sigBuf u" "sigClosed u" for u
  proof (cases "loopDone u")
    case False
    let ?a = "u\<lparr>loopDone := True, registered := False\<rparr>"
    have "intr_step u ?a" using u False by (intro intr_step.loop_end)
    moreover have "\<exists>t. reach intr_step ?a t \<and> closer t = CloseReturned" by (rule fin) (use u in \<open>simp_all add: alive_def\<close>)
    ultimately show ?thesis by (blast intro: reach_first)
  qed (use fin u in blast)
  have c: "sigClosed s" "sigBuf s \<Longrightarrow> \<not> loopDone s" using assms by (auto simp: intr_inv_def)
  show ?thesis
  proof (cases "sigBuf s")
    case buf: True
    show ?thesis
    proof (cases "sigCount s = 0")
      case True
      let ?a = "s\<lparr>sigBuf := False, sigCount := 1, canceller := CRunning\<rparr>"
      have "intr_step s ?a" using assms(2) buf True c by (intro intr_step.handle_first) simp_all
      moreover have "\<exists>t. reach intr_step ?a t \<and> closer t = CloseReturned"
        by (rule drained) (use assms c in \<open>simp_all add: alive_def\<close>)
      ultimately show ?thesis by (blast intro: reach_first)
    next
      case False
      then have "intr_step s (s\<lparr>sigBuf := False, sigCount := Suc (sigCount s), exited := True\<rparr>)"
        using assms(2) buf c by (intro intr_step.handle_again) simp_all
      then have "reach intr_step s (s\<lparr>sigBuf := False, sigCount := Suc (sigCount s), exited := True\<rparr>)"
        by (blast intro: reach_refl reach_step)
      then show ?thesis by force
    qed
  next
    case False
    with drained[OF assms(2,3) _ c(1)] show ?thesis by blast
  qed
qed

text \<open>
  The first signal only cancels the context and a second one ends the process; when \<open>Close\<close> has returned, both goroutines have
  ended, no signal is delivered any more, and the context was cancelled exactly if a signal had come; and a waiting
  \<open>Close\<close> can always return unless a second signal ends the process.
\<close>

theorem interrupts_ok:
  assumes "reach intr_step setupInterruptHandler s"
  shows "(exited s \<longleftrightarrow> 2 \<le> sigCount s) \<and>
    (closer s = CloseReturned \<longrightarrow> loopDone s \<and> \<not> registered s \<and> canceller s \<noteq> CRunning \<and> (intrCancelled s \<longleftrightarrow> sigCount s \<noteq> 0)) \<and>
    (closer s = ClosingWait \<and> alive s \<longrightarrow> (\<exists>t. reach intr_step s t \<and> (closer t = CloseReturned \<or> exited t)))"
proof -
  have inv: "intr_inv s" using interrupts.inv_reachable[OF refl assms] .
  then show ?thesis using close_can_return[of s] by (cases "canceller s") (auto simp: intr_inv_def)
qed

text \<open>
  \<open>Close\<close> closes the channel before the loop unregisters it: a signal that comes in between is sent to a closed channel.
\<close>

theorem late_signal_panics: "\<exists>s. reach intr_step setupInterruptHandler s \<and> sendPanic s \<and> sigCount s = 0"
proof -
  let ?a = "setupInterruptHandler\<lparr>sigClosed := True, closer := ClosingWait\<rparr>" let ?b = "?a\<lparr>sendPanic := True\<rparr>"
  have "intr_step setupInterruptHandler ?a" "intr_step ?a ?b"
    using intr_step.close_call[of setupInterruptHandler] intr_step.deliver_closed[of ?a]
    by (simp_all add: setupInterruptHandler_def alive_def)
  then have "reach intr_step setupInterruptHandler ?b" by (blast intro: reach_refl reach_step)
  then show ?thesis by (intro exI[of _ ?b]) (simp add: setupInterruptHandler_def)
qed

end
