(* ===== verification/HeaderClone.thy ===== *)
theory HeaderClone
  imports GoLib
begin

text \<open>
  \<open>CloneRequest\<close> and \<open>CloneHeader\<close> of \<open>src/pkg/netutil/util.go\<close>. What a clone is for is that changing it does not change the
  original, so headers are modelled with their aliasing: a header is a map in a store, whose values are slices of arrays
  in the same store.
\<close>

section \<open>The store\<close>

type_synonym addr = nat

text \<open>
  \<open>maps\<close> are the maps with their entries in the order a loop over them visits them, \<open>arrays\<close> the arrays of the slices;
  addresses from \<open>free\<close> on are not in use.
\<close>

record hstore =
  hmaps :: "addr \<Rightarrow> (string \<times> addr) list"
  arrays :: "addr \<Rightarrow> string list"
  free :: addr

text \<open>\<open>make([]string, len(vv))\<close> and \<open>copy\<close>.\<close>

definition copy_slice :: "addr \<Rightarrow> hstore \<Rightarrow> addr \<times> hstore" where
  "copy_slice a s = (free s, s\<lparr>arrays := (arrays s)(free s := arrays s a), free := Suc (free s)\<rparr>)"

fun clone_values :: "(string \<times> addr) list \<Rightarrow> hstore \<Rightarrow> (string \<times> addr) list \<times> hstore" where
  "clone_values [] s = ([], s)"
| "clone_values ((k, a) # kvs) s =
     (case copy_slice a s of (b, s) \<Rightarrow> (case clone_values kvs s of (h2, s) \<Rightarrow> ((k, b) # h2, s)))"

text \<open>The header may be nil, which has no entries; the clone never is.\<close>

definition entries :: "addr option \<Rightarrow> hstore \<Rightarrow> (string \<times> addr) list" where
  "entries h s = (case h of None \<Rightarrow> [] | Some a \<Rightarrow> hmaps s a)"

definition CloneHeader :: "addr option \<Rightarrow> hstore \<Rightarrow> addr \<times> hstore" where
  "CloneHeader h s =
     (case clone_values (entries h s) s of
        (h2, s) \<Rightarrow> (free s, s\<lparr>hmaps := (hmaps s)(free s := h2), free := Suc (free s)\<rparr>))"

text \<open>The other fields of a request are shared with its copy.\<close>

record 'r http_request =
  hrHeader :: "addr option"
  hrOther :: 'r

definition CloneRequest :: "'r http_request \<Rightarrow> hstore \<Rightarrow> 'r http_request \<times> hstore" where
  "CloneRequest req s = (case CloneHeader (hrHeader req) s of (h, s) \<Rightarrow> (req\<lparr>hrHeader := Some h\<rparr>, s))"

section \<open>What can be done with a header\<close>

definition header_view :: "addr option \<Rightarrow> hstore \<Rightarrow> string \<rightharpoonup> string list" where
  "header_view h s k = map_option (arrays s) (map_of (entries h s) k)"

text \<open>
  Changes of the store through a header: storing another slice under a key, deleting a key, writing to the array of one
  of its slices.
\<close>

datatype header_change = PutSlice string "string list" | DeleteKey string | WriteAt string nat string

fun header_write :: "addr \<Rightarrow> header_change \<Rightarrow> hstore \<Rightarrow> hstore" where
  "header_write h (PutSlice k vs) s =
     s\<lparr>arrays := (arrays s)(free s := vs), hmaps := (hmaps s)(h := (k, free s) # filter (\<lambda>x. fst x \<noteq> k) (hmaps s h)), free := Suc (free s)\<rparr>"
| "header_write h (DeleteKey k) s = s\<lparr>hmaps := (hmaps s)(h := filter (\<lambda>x. fst x \<noteq> k) (hmaps s h))\<rparr>"
| "header_write h (WriteAt k i v) s =
     (case map_of (hmaps s h) k of None \<Rightarrow> s | Some a \<Rightarrow> s\<lparr>arrays := (arrays s)(a := (arrays s a)[i := v])\<rparr>)"

section \<open>Separation\<close>

text \<open>A header whose map and arrays lie in a region of the store.\<close>

definition header_in :: "addr set \<Rightarrow> addr option \<Rightarrow> hstore \<Rightarrow> bool" where
  "header_in R h s \<longleftrightarrow> set_option h \<subseteq> R \<and> snd ` set (entries h s) \<subseteq> R"

definition agree_on :: "addr set \<Rightarrow> hstore \<Rightarrow> hstore \<Rightarrow> bool" where
  "agree_on R s t \<longleftrightarrow> (\<forall>a \<in> R. hmaps s a = hmaps t a \<and> arrays s a = arrays t a)"

lemma agree_view: "header_in R h s \<Longrightarrow> agree_on R s t \<Longrightarrow> header_in R h t \<and> header_view h t = header_view h s"
proof -
  assume h: "header_in R h s" and eq: "agree_on R s t"
  then have e: "entries h t = entries h s" by (cases h) (auto simp: entries_def header_in_def agree_on_def)
  have "map_option (arrays t) (map_of (entries h s) k) = map_option (arrays s) (map_of (entries h s) k)" for k
  proof (cases "map_of (entries h s) k")
    case (Some a)
    then have "a \<in> R" using h map_of_SomeD[OF Some] by (force simp: header_in_def)
    with Some eq show ?thesis by (simp add: agree_on_def)
  qed simp
  with h e show ?thesis by (auto simp: header_in_def header_view_def fun_eq_iff)
qed

lemma clone_values_ok:
  assumes "clone_values kvs s = (h2, t)" "snd ` set kvs \<subseteq> {..<free s}"
  shows "free s \<le> free t \<and> hmaps t = hmaps s \<and> (\<forall>a < free s. arrays t a = arrays s a) \<and>
    snd ` set h2 \<subseteq> {free s..<free t} \<and> map fst h2 = map fst kvs \<and> map (arrays t \<circ> snd) h2 = map (arrays s \<circ> snd) kvs"
  using assms
proof (induction kvs arbitrary: s h2)
  case (Cons kv kvs)
  obtain k a where kv: "kv = (k, a)" by force
  let ?s = "s\<lparr>arrays := (arrays s)(free s := arrays s a), free := Suc (free s)\<rparr>"
  obtain r where r: "clone_values kvs ?s = (r, t)" "h2 = (k, free s) # r"
    using Cons.prems(1) by (auto simp: kv copy_slice_def split: prod.splits)
  have sub: "snd ` set kvs \<subseteq> {..<free s}" using Cons.prems(2) by auto
  then have "snd ` set kvs \<subseteq> {..<free ?s}" by auto
  note IH = Cons.IH[OF r(1) this]
  have old: "map (arrays ?s \<circ> snd) kvs = map (arrays s \<circ> snd) kvs" using sub by (auto simp: image_subset_iff)
  have "arrays t (free s) = arrays s a" "\<forall>b < free s. arrays t b = arrays s b" using IH by auto
  with IH old r(2) kv show ?case by auto
qed auto

lemma map_of_same_keys:
  "map fst xs = map fst ys \<Longrightarrow> map (f \<circ> snd) xs = map (g \<circ> snd) ys \<Longrightarrow> map_option f (map_of xs k) = map_option g (map_of ys k)"
  by (induction xs ys rule: list_induct2') auto

lemma CloneHeader_ok:
  assumes "CloneHeader h s = (h2, t)" "header_in {..<free s} h s"
  shows "header_view (Some h2) t = header_view h s" "agree_on {..<free s} s t" "header_in {free s..<free t} (Some h2) t"
proof -
  obtain kvs u where u: "clone_values (entries h s) s = (kvs, u)" "h2 = free u"
    "t = u\<lparr>hmaps := (hmaps u)(free u := kvs), free := Suc (free u)\<rparr>"
    using assms(1) by (auto simp: CloneHeader_def split: prod.splits)
  have sub: "snd ` set (entries h s) \<subseteq> {..<free s}" using assms(2) by (simp add: header_in_def)
  note c = clone_values_ok[OF u(1) sub]
  show "header_view (Some h2) t = header_view h s"
    using map_of_same_keys[of kvs "entries h s" "arrays u" "arrays s"] c by (simp add: header_view_def entries_def u(2,3) fun_eq_iff)
  show "agree_on {..<free s} s t" using c by (auto simp: agree_on_def u(3))
  show "header_in {free s..<free t} (Some h2) t" using c by (auto simp: header_in_def entries_def u(2,3))
qed

text \<open>Writing through a header changes only its own region, which stays apart from what was there before.\<close>

lemma header_write_separate:
  assumes "header_in {n..<free s} (Some h) s" "n \<le> free s"
  shows "agree_on {..<n} s (header_write h w s) \<and> header_in {n..<free (header_write h w s)} (Some h) (header_write h w s) \<and>
    free s \<le> free (header_write h w s)"
proof (cases w)
  case (WriteAt k i v)
  show ?thesis
  proof (cases "map_of (hmaps s h) k")
    case (Some a)
    with assms(1) have "a \<in> {n..<free s}" using map_of_SomeD[OF Some] by (force simp: header_in_def entries_def)
    with assms WriteAt Some show ?thesis by (auto simp: agree_on_def header_in_def entries_def)
  qed (use assms WriteAt in \<open>auto simp: agree_on_def header_in_def entries_def\<close>)
qed (use assms in \<open>force simp: agree_on_def header_in_def entries_def image_subset_iff\<close>)+

lemma agree_on_trans: "agree_on R s t \<Longrightarrow> agree_on R t u \<Longrightarrow> agree_on R s u"
  by (simp add: agree_on_def)

lemma header_writes_separate:
  assumes "header_in {n..<free s} (Some h) s" "n \<le> free s"
  shows "agree_on {..<n} s (fold (header_write h) ws s)"
  using assms
proof (induction ws arbitrary: s)
  case (Cons w ws)
  note w = header_write_separate[OF Cons.prems, of w]
  with Cons.IH[of "header_write h w s"] Cons.prems show ?case by (auto intro: agree_on_trans)
qed (simp add: agree_on_def)

section \<open>Properties\<close>

text \<open>
  C32: a cloned request has the same header values, and whatever is then written through the header of the clone, the values of
  the original's header are still the same.
\<close>

theorem CloneRequest_separate:
  assumes "CloneRequest req s = (req2, t)" "header_in {..<free s} (hrHeader req) s"
  shows "\<exists>h2. hrHeader req2 = Some h2 \<and> hrOther req2 = hrOther req \<and> header_view (Some h2) t = header_view (hrHeader req) s \<and>
    (\<forall>ws. header_view (hrHeader req) (fold (header_write h2) ws t) = header_view (hrHeader req) s)"
proof -
  obtain h2 where h2: "CloneHeader (hrHeader req) s = (h2, t)" "req2 = req\<lparr>hrHeader := Some h2\<rparr>"
    using assms(1) by (auto simp: CloneRequest_def split: prod.splits)
  note c = CloneHeader_ok[OF h2(1) assms(2)]
  from c(3) have le: "free s \<le> free t" by (simp add: header_in_def)
  have "header_view (hrHeader req) (fold (header_write h2) ws t) = header_view (hrHeader req) s" for ws
    using agree_view[OF assms(2) agree_on_trans[OF c(2) header_writes_separate[OF c(3) le, of ws]]] by blast
  with c(1) h2(2) show ?thesis by simp
qed

text \<open>
  A header with one value: writing over the value of the clone leaves that of the original, which would not be so if the clone shared
  its array.
\<close>

definition example_hstore :: hstore where
  "example_hstore = \<lparr>hmaps = (\<lambda>_. [])(0 := [(''A'', 1)]), arrays = (\<lambda>_. [])(1 := [''x'']), free = 2\<rparr>"

theorem CloneRequest_separate_witness:
  "\<exists>req2 h2 t. CloneRequest \<lparr>hrHeader = Some 0, hrOther = ()\<rparr> example_hstore = (req2, t) \<and> hrHeader req2 = Some h2 \<and>
     header_view (Some h2) (header_write h2 (WriteAt ''A'' 0 ''y'') t) ''A'' = Some [''y''] \<and>
     header_view (Some 0) (header_write h2 (WriteAt ''A'' 0 ''y'') t) ''A'' = Some [''x'']"
proof -
  let ?req = "\<lparr>hrHeader = Some 0, hrOther = ()\<rparr>"
  obtain req2 t where c: "CloneRequest ?req example_hstore = (req2, t)" by (cases "CloneRequest ?req example_hstore")
  have "header_in {..<free example_hstore} (hrHeader ?req) example_hstore"
    by (simp add: header_in_def entries_def example_hstore_def)
  from CloneRequest_separate[OF c this] obtain h2 where h2: "hrHeader req2 = Some h2"
    "\<And>ws. header_view (Some 0) (fold (header_write h2) ws t) = header_view (Some 0) example_hstore"
    by auto
  have "header_view (Some 0) (header_write h2 (WriteAt ''A'' 0 ''y'') t) = header_view (Some 0) example_hstore"
    using h2(2)[of "[WriteAt ''A'' 0 ''y'']"] by simp
  moreover have "header_view (Some 0) example_hstore ''A'' = Some [''x'']"
    by (simp add: header_view_def entries_def example_hstore_def)
  moreover have "header_view (Some h2) (header_write h2 (WriteAt ''A'' 0 ''y'') t) ''A'' = Some [''y'']"
    using c h2(1) by (auto simp: CloneRequest_def CloneHeader_def copy_slice_def entries_def example_hstore_def header_view_def)
  ultimately show ?thesis using c h2(1) by auto
qed

end
