(* ===== verification/Core.thy ===== *)
theory Core
  imports HybridDomain Netutil
begin

text \<open>
  \<open>src/pkg/core\<close>: from a request to what is done about it.

  A \<open>Context\<close> is built from a request that came over a plain connection or through an HTTP handler
  (\<open>context.go\<close>); \<open>Core.Proxy\<close> (\<open>core.go\<close>) sends it to a local server, to the proxy of the next node or
  through the routers; \<open>ServeHTTP\<close> (\<open>coreh2server.go\<close>) is the entry for requests of other nodes;
  \<open>httperr.go\<close> holds the error answers and \<open>router.go\<close> the interfaces \<open>Router\<close> and \<open>Proxy\<close> with the
  direct and the upstream proxy.

  What an operation does to the outside (dialling, copying streams, answering) is the list of its
  events in order; what the outside answers (\<open>world\<close>) is an argument.
\<close>

section \<open>Requests and contexts (context.go)\<close>

record url =
  uScheme :: string
  uHost :: string
  uPath :: string
  uRawQuery :: string

datatype body = NilBody | NoBody | SomeBody
datatype reader = ReadConn | ReadBody body

record request =
  rqMethod :: string
  rqURL :: url
  rqHost :: string
  rqHeader :: "header option"
  rqBody :: body
  rqContentLength :: int
  rqRequestURI :: string
  rqClose :: bool
  rqProto :: "nat \<times> nat"

text \<open>
  \<open>xRW\<close> and \<open>xWriter\<close>: whether \<open>ResponseWriter\<close> and \<open>Writer\<close> are non-nil. \<open>ContextConfig\<close> holds
  constants of the node and is left out.
\<close>

record Context =
  xRW :: bool
  xWriter :: bool
  xRequest :: request
  xUnsafeReader :: reader
  xConnect :: bool
  xHostPort :: string
  xHostNoPort :: string
  xPort :: string
  xHasPort :: bool
  xIP :: ip
  xDialHostPort :: string
  xDomain :: domain

datatype ctx_error = ErrRequestURI | ErrAddr string addr_error | ErrDomain domain_error

datatype transport = TpDefault | TpExist string | TpH2 | TpZip string

record response =
  rsStatusCode :: int
  rsBody :: bytes
  rsClose :: bool

text \<open>
  What is outside: \<open>idna.ToASCII\<close>, \<open>net.ParseIP\<close> (nil is the empty list), dialling an address
  (an error or success), a round trip through a transport, the first response read from a remote with
  what is buffered behind it, and whether writing to the client fails.
\<close>

record world =
  toASCII :: "string \<Rightarrow> string + string"
  ParseIP :: "string \<Rightarrow> ip"
  Dial :: "string \<Rightarrow> string option"
  RoundTrip :: "transport \<Rightarrow> request \<Rightarrow> string + response"
  ReadResponse :: "request \<Rightarrow> string + response \<times> bytes"
  ClientWrite :: "bytes \<Rightarrow> string option"

definition parseHostPortIP :: "world \<Rightarrow> Context \<Rightarrow> ctx_error + Context" where
  "parseHostPortIP w c =
     (let req = xRequest c in
      if xConnect c then
        (case SplitHostPort (rqHost req) of
           Inl e \<Rightarrow> Inl (ErrAddr (rqHost req) e)
         | Inr (hostNoPort, port) \<Rightarrow>
             Inr (c\<lparr>xHostNoPort := hostNoPort, xPort := port, xHasPort := True,
               xHostPort := JoinHostPort hostNoPort port, xIP := ParseIP w hostNoPort\<rparr>))
      else
        (case AuthorityAddrFull (toASCII w) (uScheme (rqURL req)) (rqHost req) of (hp, hn, p) \<Rightarrow>
           Inr (c\<lparr>xHostPort := hp, xHostNoPort := hn, xPort := p, xHasPort := p \<noteq> [], xIP := ParseIP w hn\<rparr>)))"

definition parseDomain :: "Context \<Rightarrow> ctx_error + Context" where
  "parseDomain c = (case NewDomain (xHostNoPort c) of
     Inl e \<Rightarrow> Inl (ErrDomain e) | Inr d \<Rightarrow> Inr (c\<lparr>xDomain := d\<rparr>))"

definition adjustRequestAndDialHost :: "Context \<Rightarrow> Context" where
  "adjustRequestAndDialHost c =
     (if IsHybrid (xDomain c) then
        (let h = NextHostname (xDomain c) @ (if xHasPort c then '':'' @ xPort c else []);
             req = (xRequest c)\<lparr>rqHost := h, rqURL := (rqURL (xRequest c))\<lparr>uHost := h\<rparr>\<rparr>
         in c\<lparr>xRequest := req, xDialHostPort := DialHostname (xDomain c) @ '':'' @ xPort c\<rparr>)
      else c\<lparr>xDialHostPort := xHostPort c\<rparr>)"

text \<open>Whether some header name is \<open>upgrade\<close>, in any case (lines 107--112).\<close>

definition upgrades :: "request \<Rightarrow> bool" where
  "upgrades r = list_ex (\<lambda>kv. EqualFold (fst kv) ''upgrade'') (case rqHeader r of None \<Rightarrow> [] | Some h \<Rightarrow> h)"

text \<open>
  \<open>resp\<close>: the \<open>ResponseWriter\<close>, if any, and whether hijacking it gives a connection. \<open>conn\<close>: whether
  a connection was passed.
\<close>

definition newContext :: "world \<Rightarrow> request \<Rightarrow> bool option \<Rightarrow> bool \<Rightarrow> ctx_error + Context" where
  "newContext w req resp conn =
     (let isConnect = (rqMethod req = ''CONNECT'') in
      if \<not> isConnect \<and> uScheme (rqURL req) = [] then Inl ErrRequestURI
      else
        let conn = (conn \<or> resp = Some True);
            connect = (isConnect \<or> upgrades req);
            req' = (if isConnect then req\<lparr>rqContentLength := -1\<rparr> else req)\<lparr>rqRequestURI := []\<rparr>;
            c = \<lparr>xRW = (resp \<noteq> None), xWriter = conn, xRequest = req',
                 xUnsafeReader = (if conn then ReadConn else ReadBody (rqBody req)), xConnect = connect,
                 xHostPort = [], xHostNoPort = [], xPort = [], xHasPort = True, xIP = [],
                 xDialHostPort = [], xDomain = zero_domain\<rparr>
        in if rqHost req = [] then Inl ErrRequestURI
           else rbind (parseHostPortIP w c) (\<lambda>c. rbind (parseDomain c) (\<lambda>c. Inr (adjustRequestAndDialHost c))))"

definition NewContextWithConn :: "world \<Rightarrow> string + request \<Rightarrow> (string + ctx_error) + Context" where
  "NewContextWithConn w rd = (case rd of
     Inl e \<Rightarrow> Inl (Inl e)
   | Inr req \<Rightarrow> (case newContext w req None True of Inl e \<Rightarrow> Inl (Inr e) | Inr c \<Rightarrow> Inr c))"

definition NewContextFromHandler :: "world \<Rightarrow> bool \<Rightarrow> request \<Rightarrow> ctx_error + Context" where
  "NewContextFromHandler w hijack req = newContext w req (Some hijack) False"

section \<open>Error answers (httperr.go)\<close>

record http_err =
  Code :: int
  ClientType :: string
  ClientName :: string
  TargetHost :: string
  Info :: string

text \<open>
  \<open>json.Encoder\<close> on the struct: empty fields are left out; quotes, backslashes and control
  characters are escaped, and so are the characters \<open><\<close>, \<open>>\<close> and \<open>&\<close>. (Bytes of other
  UTF-8 sequences pass unchanged.)
\<close>

definition hex_digit :: "nat \<Rightarrow> char" where
  "hex_digit n = ''0123456789abcdef'' ! n"

definition json_char :: "char \<Rightarrow> string" where
  "json_char c = (let n = (of_char c :: nat) in
     if c = CHR 0x22 then [CHR 0x5C, CHR 0x22] else if c = CHR 0x5C then [CHR 0x5C, CHR 0x5C]
     else if n = 10 then [CHR 0x5C, CHR ''n''] else if n = 13 then [CHR 0x5C, CHR ''r'']
     else if n = 9 then [CHR 0x5C, CHR ''t'']
     else if n < 32 \<or> c = CHR ''<'' \<or> c = CHR ''>'' \<or> c = CHR ''&'' then
       CHR 0x5C # ''u00'' @ [hex_digit (n div 16), hex_digit (n mod 16)]
     else [c])"

definition json_string :: "string \<Rightarrow> string" where
  "json_string s = CHR 0x22 # concat (map json_char s) @ [CHR 0x22]"

definition json_fields :: "(string \<times> string) list \<Rightarrow> string" where
  "json_fields fs = ''{'' @ Join '','' (map (\<lambda>(k, v). json_string k @ '':'' @ json_string v)
     (filter (\<lambda>(k, v). v \<noteq> []) fs)) @ ''}'' @ [CHR 0x0A]"

definition HttpErr_body :: "http_err \<Rightarrow> string" where
  "HttpErr_body he = json_fields [(''ClientType'', ClientType he), (''ClientName'', ClientName he),
     (''TargetHost'', TargetHost he), (''Info'', Info he)]"

definition bytes_of :: "string \<Rightarrow> bytes" where
  "bytes_of s = map of_char s"

text \<open>\<open>Response\<close>: status, header, body. \<open>Write\<close> sends it as it is.\<close>

definition HttpErr_Response :: "http_err \<Rightarrow> int \<times> header \<times> bytes" where
  "HttpErr_Response he = (Code he, [(''Content-Type'', [''application/json''])], bytes_of (HttpErr_body he))"

fun digits_of :: "nat \<Rightarrow> string" where
  "digits_of n = (if n < 10 then [hex_digit n] else digits_of (n div 10) @ [hex_digit (n mod 10)])"

declare digits_of.simps [simp del]

text \<open>The calls on the \<open>http.ResponseWriter\<close>, in order.\<close>

definition HttpErr_WriteResponse :: "http_err \<Rightarrow> rw_op list" where
  "HttpErr_WriteResponse he = (case HttpErr_Response he of (code, h, b) \<Rightarrow>
     OpWriteHeader (Code he) # map (\<lambda>(k, vs). OpSetHeader k (hd vs)) h @
     [OpSetHeader ''Content-Length'' (digits_of (length b)), OpWrite b])"

section \<open>What a node does: events\<close>

datatype sink = ToWriter | ToRW

datatype event =
    EvDial string
  | EvSpawn "event list"
  | EvSend bool request
  | EvCopyToRemote reader
  | EvCloseRemote
  | EvConnectOK sink
  | EvRelay sink
  | EvWriteClient sink bytes
  | EvReverse transport request
  | EvRoundTrip transport request
  | EvWriteResponse response
  | EvRawResponse string
  | EvErrWrite "int \<times> header \<times> bytes"
  | EvErrRW "rw_op list"
  | EvLocal sink string request
  | EvStatus int
  | EvPanic string

type_synonym outcome = "string option \<times> event list"

definition client :: "Context \<Rightarrow> sink" where
  "client c = (if xWriter c then ToWriter else ToRW)"

definition bodyReader :: "Context \<Rightarrow> reader" where
  "bodyReader c = (case rqBody (xRequest c) of SomeBody \<Rightarrow> ReadBody SomeBody | _ \<Rightarrow> xUnsafeReader c)"

definition copyToRemote :: "Context \<Rightarrow> event list" where
  "copyToRemote c = [EvCopyToRemote (bodyReader c), EvCloseRemote]"

definition copyFromRemote :: "Context \<Rightarrow> event list" where
  "copyFromRemote c = [EvRelay (client c)]"

definition writeConncectOK :: "Context \<Rightarrow> event list" where
  "writeConncectOK c = [EvConnectOK (client c)]"

definition writeBytesFromRemote :: "world \<Rightarrow> Context \<Rightarrow> bytes \<Rightarrow> outcome" where
  "writeBytesFromRemote w c b = (ClientWrite w b, [EvWriteClient (client c) b])"

text \<open>
  The request is written with the wrapped body (unless it is \<open>NoBody\<close>), then the rest of the body
  reader is copied behind it.
\<close>

definition SendRequest :: "Context \<Rightarrow> bool \<Rightarrow> event list" where
  "SendRequest c withProxy =
     (let req = xRequest c;
          req = (if rqBody req \<noteq> NoBody then req\<lparr>rqBody := SomeBody\<rparr> else req)
      in EvSend withProxy req # copyToRemote c)"

definition ReverseToResponse :: "transport \<Rightarrow> Context \<Rightarrow> event list" where
  "ReverseToResponse tp c = [EvReverse tp (xRequest c)]"

definition HttpErr :: "Context \<Rightarrow> http_err \<Rightarrow> event list" where
  "HttpErr c he = (if xWriter c then [EvErrWrite (HttpErr_Response he)] else [EvErrRW (HttpErr_WriteResponse he)])"

definition HybridHttpErr :: "Context \<Rightarrow> int \<Rightarrow> string \<Rightarrow> event list" where
  "HybridHttpErr c code info = HttpErr c \<lparr>Code = code, ClientType = ''Hybrid'', ClientName = [],
     TargetHost = xHostPort c, Info = info\<rparr>"

definition ResponseError :: "response \<Rightarrow> string" where
  "ResponseError res = ''Response '' @ digits_of (nat (rsStatusCode res)) @ '', err: '' @ map (\<lambda>b. char_of (unat b)) (rsBody res)"

definition ProxyUp :: "world \<Rightarrow> string \<Rightarrow> transport \<Rightarrow> bool \<Rightarrow> Context \<Rightarrow> outcome" where
  "ProxyUp w proxyaddr tp keepAlive c =
     (if \<not> xConnect c \<and> \<not> xWriter c then (None, ReverseToResponse tp c)
      else case Dial w proxyaddr of
        Some e \<Rightarrow> (Some e, [EvDial proxyaddr])
      | None \<Rightarrow>
          (case (if keepAlive then Some (map_option (Header_del ''Connection'') (rqHeader (xRequest c)))
                 else map_option (\<lambda>h. Some (Header_set ''Connection'' ''close'' h)) (rqHeader (xRequest c))) of
             None \<Rightarrow> (None, [EvDial proxyaddr, EvPanic ''assignment to entry in nil map'', EvCloseRemote])
           | Some h \<Rightarrow>
               let req = (xRequest c)\<lparr>rqHeader := h\<rparr>;
                   c = c\<lparr>xRequest := req\<rparr>;
                   evs = [EvDial proxyaddr, EvSpawn (SendRequest c True)]
               in if xConnect c \<and> \<not> xWriter c then
                    (case ReadResponse w req of
                       Inl e \<Rightarrow> (Some e, evs @ [EvCloseRemote])
                     | Inr (res, buffered) \<Rightarrow>
                         if rsStatusCode res \<noteq> 200
                         then (Some (ResponseError (res\<lparr>rsBody := []\<rparr>)), evs @ [EvCloseRemote])
                         else
                           let evs = evs @ writeConncectOK c in
                           if buffered \<noteq> [] then
                             (case writeBytesFromRemote w c buffered of
                                (Some e, evs2) \<Rightarrow> (Some e, evs @ evs2 @ [EvCloseRemote])
                              | (None, evs2) \<Rightarrow> (None, evs @ evs2 @ copyFromRemote c @ [EvCloseRemote]))
                           else (None, evs @ copyFromRemote c @ [EvCloseRemote]))
                  else (None, evs @ copyFromRemote c @ [EvCloseRemote])))"

definition Direct :: "world \<Rightarrow> Context \<Rightarrow> outcome" where
  "Direct w c =
     (if \<not> xConnect c \<and> \<not> xWriter c then (None, ReverseToResponse TpDefault c)
      else case Dial w (xDialHostPort c) of
        Some e \<Rightarrow> (Some e, [EvDial (xDialHostPort c)])
      | None \<Rightarrow>
          if xConnect c then
            (None, EvDial (xDialHostPort c) # writeConncectOK c @ [EvSpawn (copyToRemote c)] @ copyFromRemote c @
               [EvCloseRemote])
          else
            (case rqHeader (xRequest c) of
               None \<Rightarrow> (None, [EvDial (xDialHostPort c), EvPanic ''assignment to entry in nil map'', EvCloseRemote])
             | Some _ \<Rightarrow>
                 let h = Header_set ''Connection'' ''close'' (Header_del ''Proxy-Connection'' []);
                     c = c\<lparr>xRequest := (xRequest c)\<lparr>rqHeader := Some h\<rparr>\<rparr>
                 in (None, EvDial (xDialHostPort c) # EvSpawn (SendRequest c False) # copyFromRemote c @ [EvCloseRemote])))"

definition PipeTransport :: "world \<Rightarrow> transport \<Rightarrow> Context \<Rightarrow> outcome" where
  "PipeTransport w tp c =
     (if \<not> xConnect c \<and> \<not> xWriter c then (None, ReverseToResponse tp c)
      else
        let evs = [EvRoundTrip tp (xRequest c)] in
        case RoundTrip w tp (xRequest c) of
          Inl e \<Rightarrow> (Some e, evs)
        | Inr res \<Rightarrow>
            if \<not> xConnect c then (None, evs @ [EvWriteResponse (res\<lparr>rsClose := True\<rparr>)])
            else if rsStatusCode res \<noteq> 200 then (Some (ResponseError res), evs)
            else (None, evs @ writeConncectOK c @ copyFromRemote c))"

section \<open>Proxies of the package (router.go)\<close>

record ExistProxy =
  ep_name :: string
  ep_host :: string
  ep_keepAlive :: bool

definition directProxy_HttpErr :: "Context \<Rightarrow> int \<Rightarrow> string \<Rightarrow> event list" where
  "directProxy_HttpErr c code info = HttpErr c \<lparr>Code = code, ClientType = ''Direct'', ClientName = ''Host:'',
     TargetHost = xHostPort c, Info = info\<rparr>"

definition ExistProxy_HttpErr :: "ExistProxy \<Rightarrow> Context \<Rightarrow> int \<Rightarrow> string \<Rightarrow> event list" where
  "ExistProxy_HttpErr p c code info = HttpErr c \<lparr>Code = code, ClientType = ''Exist'', ClientName = ep_name p,
     TargetHost = xHostPort c, Info = info\<rparr>"

definition ExistProxy_Do :: "world \<Rightarrow> ExistProxy \<Rightarrow> Context \<Rightarrow> outcome" where
  "ExistProxy_Do w p c = ProxyUp w (ep_host p) (TpExist (ep_host p)) (ep_keepAlive p) c"

section \<open>Core.Proxy (core.go)\<close>

text \<open>
  The two interfaces of the package. A \<open>Proxy\<close> has \<open>Do\<close> and \<open>HttpErr\<close>; a \<open>Router\<close> has \<open>Disabled\<close>
  and \<open>Route\<close>, which may change the router (its caches).
\<close>

record 'p proxy_ops =
  Do :: "'p \<Rightarrow> Context \<Rightarrow> outcome"
  ProxyHttpErr :: "'p \<Rightarrow> Context \<Rightarrow> int \<Rightarrow> string \<Rightarrow> event list"
  DirectProxy :: 'p

datatype 'p route_result = RouteTo 'p | NoRoute | RoutePanic string

record ('r, 'p) router_ops =
  Disabled :: "'r \<Rightarrow> bool"
  Route :: "'r \<Rightarrow> Context \<Rightarrow> 'p route_result \<times> 'r"

record ('r, 'p) core =
  Routers :: "'r list"
  Proxies :: "string \<Rightarrow> 'p option"
  LocalServers :: "(string \<Rightarrow> bool) option"

definition context_proxy :: "'p proxy_ops \<Rightarrow> 'p \<Rightarrow> Context \<Rightarrow> event list" where
  "context_proxy ps p c = (case Do ps p c of
     (None, evs) \<Rightarrow> evs
   | (Some err, evs) \<Rightarrow> evs @ ProxyHttpErr ps p c 502 err)"

text \<open>The loop over the routers; the routers as they are afterwards.\<close>

fun route_pick :: "('r, 'p) router_ops \<Rightarrow> 'r list \<Rightarrow> Context \<Rightarrow> 'p route_result \<times> 'r list" where
  "route_pick rs [] c = (NoRoute, [])"
| "route_pick rs (rc # rest) c =
     (if Disabled rs rc then (case route_pick rs rest c of (p, rest') \<Rightarrow> (p, rc # rest'))
      else case Route rs rc c of
        (NoRoute, rc') \<Rightarrow> (case route_pick rs rest c of (p, rest') \<Rightarrow> (p, rc' # rest'))
      | (p, rc') \<Rightarrow> (p, rc' # rest))"

definition routeProxy ::
  "('r, 'p) router_ops \<Rightarrow> 'p proxy_ops \<Rightarrow> ('r, 'p) core \<Rightarrow> Context \<Rightarrow> event list \<times> ('r, 'p) core" where
  "routeProxy rs ps k c = (case route_pick rs (Routers k) c of
     (RouteTo p, routers) \<Rightarrow> (context_proxy ps p c, k\<lparr>Routers := routers\<rparr>)
   | (NoRoute, routers) \<Rightarrow> (context_proxy ps (DirectProxy ps) c, k\<lparr>Routers := routers\<rparr>)
   | (RoutePanic m, routers) \<Rightarrow> ([EvPanic m], k\<lparr>Routers := routers\<rparr>))"

text \<open>\<open>ResponseWriterOrWrapOne\<close>: the given \<open>ResponseWriter\<close>, else one around the connection.\<close>

definition ResponseWriterOrWrapOne :: "Context \<Rightarrow> sink" where
  "ResponseWriterOrWrapOne c = (if xRW c then ToRW else ToWriter)"

definition Core_Proxy ::
  "('r, 'p) router_ops \<Rightarrow> 'p proxy_ops \<Rightarrow> ('r, 'p) core \<Rightarrow> Context \<Rightarrow> event list \<times> ('r, 'p) core" where
  "Core_Proxy rs ps k c =
     (let d = xDomain c in
      if IsHybrid d then
        if IsEnd d then
          if (case LocalServers k of None \<Rightarrow> False | Some ls \<Rightarrow> ls (DialHostname d)) then
            ([EvLocal (ResponseWriterOrWrapOne c) (DialHostname d) (xRequest c)], k)
          else if IsOver d then routeProxy rs ps k c
          else (HybridHttpErr c 404 [], k)
        else
          (case Proxies k (Next d) of
             None \<Rightarrow> (HybridHttpErr c 404 (Next d), k)
           | Some p \<Rightarrow> (context_proxy ps p c, k))
      else routeProxy rs ps k c)"

section \<open>Requests from other nodes (coreh2server.go)\<close>

definition HostHttpPrefix :: char where "HostHttpPrefix = CHR ''H''"
definition HostHttpsPrefix :: char where "HostHttpsPrefix = CHR ''S''"

definition ctx_error_text :: "ctx_error \<Rightarrow> string" where
  "ctx_error_text e = (case e of
     ErrRequestURI \<Rightarrow> ''bad RequestURI''
   | ErrAddr addr why \<Rightarrow> (if addr = [] then [] else ''address '' @ addr @ '': '') @
       (case why of MissingPort \<Rightarrow> ''missing port in address''
        | TooManyColons \<Rightarrow> ''too many colons in address''
        | MissingBracket \<Rightarrow> ''missing '' @ [CHR 0x27] @ '']'' @ [CHR 0x27] @ '' in address''
        | UnexpectedOpen \<Rightarrow> ''unexpected '' @ [CHR 0x27] @ ''['' @ [CHR 0x27] @ '' in address''
        | UnexpectedClose \<Rightarrow> ''unexpected '' @ [CHR 0x27] @ '']'' @ [CHR 0x27] @ '' in address'')
   | ErrDomain _ \<Rightarrow> ''bad hybrid domain'')"

definition ServeHTTP ::
  "world \<Rightarrow> ('r, 'p) router_ops \<Rightarrow> 'p proxy_ops \<Rightarrow> ('r, 'p) core \<Rightarrow> request \<Rightarrow> event list \<times> ('r, 'p) core" where
  "ServeHTTP w rs ps k r =
     (if rqHost r = [] then ([EvPanic ''slice bounds out of range''], k)
      else
        let host = tl (rqHost r) in
        if hd (rqHost r) \<noteq> HostHttpPrefix \<and> hd (rqHost r) \<noteq> HostHttpsPrefix then ([EvStatus 400], k)
        else
          let (h, scheme) = (if hd (rqHost r) = HostHttpPrefix then (TrimSuffix host '':80'', ''http'')
                             else (TrimSuffix host '':443'', ''https''));
              r = r\<lparr>rqURL := (rqURL r)\<lparr>uHost := h, uScheme := scheme\<rparr>, rqProto := (1, 1), rqHost := h\<rparr>
          in case NewContextFromHandler w False r of
               Inl e \<Rightarrow> ([EvErrRW (HttpErr_WriteResponse \<lparr>Code = 400, ClientType = ''Hybrid'', ClientName = ''CTX'',
                   TargetHost = h, Info = ctx_error_text e\<rparr>)], k)
             | Inr c \<Rightarrow> Core_Proxy rs ps k c)"

section \<open>The contract of routers\<close>

text \<open>What a router decides by itself, and the first decision of a list of routers.\<close>

definition decides :: "('r, 'p) router_ops \<Rightarrow> 'r \<Rightarrow> Context \<Rightarrow> 'p route_result" where
  "decides ops r c = (if Disabled ops r then NoRoute else fst (Route ops r c))"

fun first_decision :: "('r, 'p) router_ops \<Rightarrow> 'r list \<Rightarrow> Context \<Rightarrow> 'p route_result" where
  "first_decision ops [] c = NoRoute"
| "first_decision ops (r # rs) c = (case decides ops r c of NoRoute \<Rightarrow> first_decision ops rs c | p \<Rightarrow> p)"

text \<open>
  Routing may change a router, but only its caches: what it decides afterwards, on any request, is
  what it decided before.
\<close>

locale router_contract =
  fixes ops :: "('r, 'p) router_ops"
  assumes disabled_stable: "Disabled ops (snd (Route ops r c)) = Disabled ops r"
    and route_stable: "fst (Route ops (snd (Route ops r c)) c') = fst (Route ops r c')"
begin

lemma decides_stable: "decides ops (snd (Route ops r c)) c' = decides ops r c'"
  by (simp add: decides_def disabled_stable route_stable)

lemma route_pick_first: "fst (route_pick ops rs c) = first_decision ops rs c"
  by (induction rs) (auto simp: decides_def split: prod.splits route_result.splits)

lemma route_pick_decides:
  "map (\<lambda>r. decides ops r c') (snd (route_pick ops rs c)) = map (\<lambda>r. decides ops r c') rs"
proof (induction rs)
  case (Cons r rs)
  obtain p r' where "Route ops r c = (p, r')" by (cases "Route ops r c")
  then show ?case
    using Cons decides_stable[of r c c'] by (cases p) (auto split: prod.splits)
qed simp

lemma first_decision_map:
  "map (\<lambda>r. decides ops r c) rs = map (\<lambda>r. decides ops r c) rs' \<Longrightarrow> first_decision ops rs c = first_decision ops rs' c"
proof (induction rs arbitrary: rs')
  case (Cons r rs)
  then show ?case by (cases rs') (auto split: route_result.splits)
qed simp

text \<open>A whole sequence of requests: each is routed as if it were the first.\<close>

lemma routing_independent:
  "first_decision ops (fold (\<lambda>c rs. snd (route_pick ops rs c)) cs rs) c = first_decision ops rs c"
proof (induction cs arbitrary: rs)
  case (Cons c' cs)
  then show ?case using first_decision_map[OF route_pick_decides[of c rs c']] by simp
qed simp

end

section \<open>The contract of proxies\<close>

text \<open>
  The events that begin an answer to the client. Bytes relayed from a remote are an answer of their
  own when nothing came before them.
\<close>

definition is_head :: "event \<Rightarrow> bool" where
  "is_head e = (case e of EvConnectOK _ \<Rightarrow> True | EvReverse _ _ \<Rightarrow> True | EvWriteResponse _ \<Rightarrow> True
     | EvRawResponse _ \<Rightarrow> True | EvErrWrite _ \<Rightarrow> True | EvErrRW _ \<Rightarrow> True | EvLocal _ _ _ \<Rightarrow> True
     | EvStatus _ \<Rightarrow> True | _ \<Rightarrow> False)"

definition is_relay :: "event \<Rightarrow> bool" where
  "is_relay e = (case e of EvRelay _ \<Rightarrow> True | _ \<Rightarrow> False)"

definition is_panic :: "event \<Rightarrow> bool" where
  "is_panic e = (case e of EvPanic _ \<Rightarrow> True | _ \<Rightarrow> False)"

definition answers :: "event list \<Rightarrow> nat" where
  "answers evs = (let n = length (filter is_head evs) in if n = 0 \<and> list_ex is_relay evs then 1 else n)"

definition panics :: "event list \<Rightarrow> bool" where
  "panics evs = list_ex is_panic evs"

lemmas answer_defs = answers_def panics_def is_head_def is_relay_def is_panic_def

lemma answers_append: "answers a = 0 \<Longrightarrow> answers (a @ b) = answers b"
  by (auto simp: answers_def Let_def filter_empty_conv split: if_splits)

lemma panics_append [simp]: "panics (a @ b) \<longleftrightarrow> panics a \<or> panics b"
  by (simp add: panics_def)

lemma panics_panic: "panics [EvPanic m]"
  by (simp add: answer_defs)

lemma HttpErr_answers: "answers (HttpErr c he) = 1" "\<not> panics (HttpErr c he)"
  by (simp_all add: HttpErr_def answer_defs)

text \<open>
  \<open>Do\<close> answers once when it returns nil and not at all when it returns an error, and \<open>HttpErr\<close>
  answers once. \<open>fits\<close> says which proxies and contexts do not make it panic.
\<close>

locale proxy_contract =
  fixes ops :: "'p proxy_ops" and fits :: "'p \<Rightarrow> Context \<Rightarrow> bool"
  assumes do_answers: "Do ops p c = (None, evs) \<Longrightarrow> panics evs \<or> answers evs = 1"
    and do_error: "Do ops p c = (Some e, evs) \<Longrightarrow> answers evs = 0"
    and herr_answers: "answers (ProxyHttpErr ops p c code info) = 1"
    and herr_no_panic: "\<not> panics (ProxyHttpErr ops p c code info)"
    and do_no_panic: "fits p c \<Longrightarrow> \<not> panics (snd (Do ops p c))"
begin

lemma context_proxy_answers: "panics (context_proxy ops p c) \<or> answers (context_proxy ops p c) = 1"
proof -
  obtain e evs where do: "Do ops p c = (e, evs)" by (cases "Do ops p c")
  then show ?thesis
    using do_answers[of p c evs] do_error[of p c _ evs] herr_answers answers_append
    by (cases e) (auto simp: context_proxy_def)
qed

lemma context_proxy_no_panic: "fits p c \<Longrightarrow> \<not> panics (context_proxy ops p c)"
  using do_no_panic[of p c] herr_no_panic by (auto simp: context_proxy_def split: prod.splits option.splits)

lemma routeProxy_answers: "panics (fst (routeProxy rs ops k c)) \<or> answers (fst (routeProxy rs ops k c)) = 1"
  using context_proxy_answers panics_panic
  by (auto simp: routeProxy_def split: prod.splits route_result.splits)

lemma Core_Proxy_answers: "panics (fst (Core_Proxy rs ops k c)) \<or> answers (fst (Core_Proxy rs ops k c)) = 1"
proof -
  have "answers [EvLocal s n r] = 1" for s n r by (simp add: answer_defs)
  then show ?thesis
    using context_proxy_answers routeProxy_answers[of rs k c]
    by (auto simp: Core_Proxy_def Let_def HybridHttpErr_def HttpErr_answers split: option.splits)
qed

lemma ServeHTTP_answers: "panics (fst (ServeHTTP w rs ops k r)) \<or> answers (fst (ServeHTTP w rs ops k r)) = 1"
proof -
  have "answers [EvStatus n] = 1" "answers [EvErrRW x] = 1" "panics [EvPanic m]" for n x m
    by (simp_all add: answer_defs)
  then show ?thesis
    using Core_Proxy_answers[of rs k] by (auto simp: ServeHTTP_def Let_def split: sum.splits prod.splits)
qed

lemma Core_Proxy_no_panic:
  assumes "\<And>m. first_decision rs (Routers k) c \<noteq> RoutePanic m" "router_contract rs"
    and "\<And>p. first_decision rs (Routers k) c = RouteTo p \<or> p = DirectProxy ops \<or> Proxies k (Next (xDomain c)) = Some p
      \<Longrightarrow> fits p c"
  shows "\<not> panics (fst (Core_Proxy rs ops k c))"
proof -
  have fd: "fst (route_pick rs (Routers k) c) = first_decision rs (Routers k) c"
    by (rule router_contract.route_pick_first[OF assms(2)])
  have "\<not> panics (fst (routeProxy rs ops k c))"
    using assms(1,3) fd context_proxy_no_panic
    by (cases "route_pick rs (Routers k) c"; cases "first_decision rs (Routers k) c") (auto simp: routeProxy_def)
  moreover have "\<not> panics [EvLocal s n r]" for s n r by (simp add: answer_defs)
  ultimately show ?thesis
    using assms(3) context_proxy_no_panic
    by (auto simp: Core_Proxy_def Let_def HybridHttpErr_def HttpErr_answers split: option.splits)
qed

end

end
