(* ===== verification/Bufpool.thy ===== *)
theory Bufpool
  imports GoLib
begin

text \<open>
  Pools of byte slices, \<open>src/pkg/bufpool/bufferpool.go\<close>, and what their users keep of them: a property that every buffer in
  circulation has.
\<close>

section \<open>Pools\<close>

text \<open>
  \<open>bufpool.Pool\<close>: the buffers put back and not taken yet, and the buffer that \<open>New\<close> makes. A pool may
  drop free buffers at any time; taking a dropped buffer is the same as taking a new one.
\<close>

record Pool =
  pool_new :: bytes
  pool_free :: "bytes list"

definition DefaultSize :: nat where
  "DefaultSize = 32 * 1024"

definition NewSize :: "nat \<Rightarrow> Pool" where
  "NewSize n = \<lparr>pool_new = replicate (if n = 0 then DefaultSize else n) 0, pool_free = []\<rparr>"

definition NewSizeModify :: "nat \<Rightarrow> (bytes \<Rightarrow> bytes) \<Rightarrow> Pool" where
  "NewSizeModify n modify = \<lparr>pool_new = modify (replicate n 0), pool_free = []\<rparr>"

definition Pool_Get :: "Pool \<Rightarrow> bytes \<times> Pool" where
  "Pool_Get p = (case pool_free p of [] \<Rightarrow> (pool_new p, p) | b # bs \<Rightarrow> (b, p\<lparr>pool_free := bs\<rparr>))"

definition Pool_Put :: "bytes \<Rightarrow> Pool \<Rightarrow> Pool" where
  "Pool_Put b p = p\<lparr>pool_free := b # pool_free p\<rparr>"

section \<open>What a user of a pool relies on\<close>

definition pool_all :: "(bytes \<Rightarrow> bool) \<Rightarrow> Pool \<Rightarrow> bool" where
  "pool_all P p \<longleftrightarrow> (\<forall>b \<in> set (pool_new p # pool_free p). P b)"

lemma pool_all_Get: "pool_all P p \<Longrightarrow> Pool_Get p = (b, q) \<Longrightarrow> P b \<and> pool_all P q \<and> pool_new q = pool_new p"
  by (auto simp: pool_all_def Pool_Get_def split: list.splits)

lemma pool_all_Put: "pool_all P p \<Longrightarrow> P b \<Longrightarrow> pool_all P (Pool_Put b p)"
  by (simp add: pool_all_def Pool_Put_def)

lemma pool_all_NewSize: "pool_all (\<lambda>b. length b = (if n = 0 then DefaultSize else n)) (NewSize n)"
  by (simp add: pool_all_def NewSize_def)

end
