(* ===== verification/ContextCopy.thy ===== *)
theory ContextCopy
  imports Core Bufpool
begin

text \<open>
  Copying between the two ends of a request: \<open>Copy\<close>, \<open>CopyFlush\<close> and \<open>CopyNoFlush\<close> of \<open>src/pkg/core/context.go\<close>, with a
  buffer of the context's pool.
\<close>

section \<open>Definitions\<close>

text \<open>A buffer is taken and, when the function returns or panics, put back with what copying left in it.\<close>

definition with_buffer :: "Pool \<Rightarrow> (bytes \<Rightarrow> bytes) \<Rightarrow> (bytes \<Rightarrow> 'a) \<Rightarrow> 'a \<times> Pool" where
  "with_buffer pool left f = (case Pool_Get pool of (buf, pool) \<Rightarrow> (f buf, Pool_Put (left buf) pool))"

definition CopyFlush ::
  "Duration \<Rightarrow> Pool \<Rightarrow> (bytes \<Rightarrow> bytes) \<Rightarrow> 'r io_reader \<Rightarrow> 'w io_writer \<Rightarrow> ('w \<Rightarrow> 'w) option \<Rightarrow> nat list \<Rightarrow> 'r \<Rightarrow> 'w \<Rightarrow>
    ('r, 'w) copy_out \<times> Pool" where
  "CopyFlush flushInterval pool left read write flusher ticks src dst =
     with_buffer pool left (\<lambda>buf. CopyBufferFlush read write flusher ticks (Some buf) flushInterval src dst)"

definition CopyNoFlush ::
  "Pool \<Rightarrow> (bytes \<Rightarrow> bytes) \<Rightarrow> 'r io_reader \<Rightarrow> 'w io_writer \<Rightarrow> 'r \<Rightarrow> 'w \<Rightarrow> ('r, 'w) copy_out \<times> Pool" where
  "CopyNoFlush pool left read write src dst = with_buffer pool left (\<lambda>buf. io_CopyBuffer read write (Some buf) src dst)"

definition Context_Copy ::
  "Context \<Rightarrow> Duration \<Rightarrow> Pool \<Rightarrow> (bytes \<Rightarrow> bytes) \<Rightarrow> 'r io_reader \<Rightarrow> 'w io_writer \<Rightarrow> ('w \<Rightarrow> 'w) option \<Rightarrow> nat list \<Rightarrow> 'r \<Rightarrow> 'w \<Rightarrow>
    ('r, 'w) copy_out \<times> Pool" where
  "Context_Copy c flushInterval pool left read write flusher ticks src dst =
     (if xConnect c then CopyFlush flushInterval pool left read write flusher ticks src dst
      else CopyNoFlush pool left read write src dst)"

text \<open>\<open>Copy\<close> of \<open>src/pkg/utils/io.go\<close> does the same with the default pool.\<close>

definition utils_Copy :: "Pool \<Rightarrow> (bytes \<Rightarrow> bytes) \<Rightarrow> 'r io_reader \<Rightarrow> 'w io_writer \<Rightarrow> 'r \<Rightarrow> 'w \<Rightarrow> ('r, 'w) copy_out \<times> Pool" where
  "utils_Copy dpool left read write src dst = with_buffer dpool left (\<lambda>buf. io_CopyBuffer read write (Some buf) src dst)"

section \<open>Copying is complete and keeps the pool\<close>

lemma with_buffer_pool:
  assumes "pool_all (\<lambda>b. length b = n) pool" "\<And>b. length (left b) = length b" "with_buffer pool left f = (x, pool')"
  obtains buf where "length buf = n" "x = f buf" "pool_all (\<lambda>b. length b = n) pool'"
proof -
  obtain buf q where g: "Pool_Get pool = (buf, q)" by force
  from pool_all_Get[OF assms(1) g] assms(2,3) g show ?thesis by (intro that[of buf]) (auto simp: with_buffer_def intro: pool_all_Put)
qed

context flushing_writer
begin

lemma pooled_copy_total:
  assumes "pool_all (\<lambda>b. length b = n) pool" "0 < n" "\<And>b. length (left b) = length b"
    "with_buffer pool left (\<lambda>buf. io_CopyBuffer (stream_read e fin) put (Some buf) cs w) = (r, pool')"
  shows "\<exists>w'. r = CopyRet (int (length (concat cs @ fin))) (if e = EOF then None else Some e) [] w' \<and>
    out w' = out w @ concat cs @ fin \<and> pool_all (\<lambda>b. length b = n) pool'"
proof -
  obtain buf where "length buf = n" "r = io_CopyBuffer (stream_read e fin) put (Some buf) cs w" "pool_all (\<lambda>b. length b = n) pool'"
    using assms(4) by (rule with_buffer_pool[OF assms(1,3)])
  with io_CopyBuffer_total[of "Some buf" e fin cs w] assms(2) show ?thesis by auto
qed

lemma Context_Copy_total:
  assumes "pool_all (\<lambda>b. length b = n) pool" "0 < n" "\<And>b. length (left b) = length b" "flusher = None \<or> flusher = Some flush" "0 \<le> sint flushInterval"
    "Context_Copy c flushInterval pool left (stream_read e fin) put flusher ticks cs w = (r, pool')"
  shows "\<exists>w'. r = CopyRet (int (length (concat cs @ fin))) (if e = EOF then None else Some e) [] w' \<and>
    out w' = out w @ concat cs @ fin \<and> pool_all (\<lambda>b. length b = n) pool'"
proof (cases "xConnect c")
  case True
  with assms(6) have "with_buffer pool left (\<lambda>buf. CopyBufferFlush (stream_read e fin) put flusher ticks (Some buf) flushInterval cs w) =
      (r, pool')" by (simp add: Context_Copy_def CopyFlush_def)
  then obtain buf where "length buf = n" "r = CopyBufferFlush (stream_read e fin) put flusher ticks (Some buf) flushInterval cs w"
    "pool_all (\<lambda>b. length b = n) pool'" by (rule with_buffer_pool[OF assms(1,3)])
  moreover have "\<not> copy_panics flusher (Some buf) flushInterval" using \<open>length buf = n\<close> assms(2,5) by (auto simp: copy_panics_def)
  ultimately show ?thesis using CopyBufferFlush_total[OF assms(4), of "Some buf" flushInterval e fin ticks cs w] by auto
next
  case False
  with assms(6) have "with_buffer pool left (\<lambda>buf. io_CopyBuffer (stream_read e fin) put (Some buf) cs w) = (r, pool')"
    by (simp add: Context_Copy_def CopyNoFlush_def)
  then show ?thesis by (rule pooled_copy_total[OF assms(1-3)])
qed

end

text \<open>
  With a pool made for any size and an interval that is not negative, copying a stream to a connection writes exactly its bytes, with or without flushing, never
  panics, and leaves a pool fit for the next copy.
\<close>

theorem Context_Copy_stream:
  assumes "pool_all (\<lambda>b. length b = (if n = 0 then DefaultSize else n)) pool" "\<And>b. length (left b) = length b"
    "flusher = None \<or> flusher = Some log_flush" "0 \<le> sint flushInterval"
    "Context_Copy c flushInterval pool left (stream_read e fin) log_write flusher ticks cs w = (r, pool')"
  shows "\<exists>w'. r = CopyRet (int (length (concat cs @ fin))) (if e = EOF then None else Some e) [] w' \<and>
    fst w' = fst w @ concat cs @ fin \<and> pool_all (\<lambda>b. length b = (if n = 0 then DefaultSize else n)) pool'"
  by (rule log.Context_Copy_total[OF assms(1) _ assms(2-5)]) (simp add: DefaultSize_def)

theorem utils_Copy_stream:
  assumes "pool_all (\<lambda>b. length b = (if n = 0 then DefaultSize else n)) dpool" "\<And>b. length (left b) = length b"
    "utils_Copy dpool left (stream_read e fin) log_write cs w = (r, dpool')"
  shows "\<exists>w'. r = CopyRet (int (length (concat cs @ fin))) (if e = EOF then None else Some e) [] w' \<and>
    fst w' = fst w @ concat cs @ fin \<and> pool_all (\<lambda>b. length b = (if n = 0 then DefaultSize else n)) dpool'"
  by (rule log.pooled_copy_total[OF assms(1) _ assms(2) assms(3)[unfolded utils_Copy_def]]) (simp add: DefaultSize_def)

end
