(* ===== verification/Zipfs.thy ===== *)
theory Zipfs
  imports GoNet GoPath Netutil
begin

text \<open>
  \<open>src/pkg/zipfs\<close>: packing a directory (\<open>zip.go\<close>) and serving it (\<open>zipfs.go\<close>).

  Packing decides for each file whether it is stored as it is (\<open>Raw\<close>) or compressed under its name
  with \<open>.gz\<close> appended, and records the decision in \<open>ContentInfo\<close>; serving uses the same record to find
  the entry again and to say whether the body is compressed. The directory walk, the archive, the
  ignore rules and the detection of MIME types are not part of the repository: the walk is the list of
  the files it meets, with the errors of reading them, the archive is a list of entries, the rest are arguments. The file server of
  \<open>net/http\<close> that serves the archive is modelled over the files \<open>httpfs\<close> opens.
\<close>

section \<open>Content information (zip.go)\<close>

record FileInfo =
  Type :: string
  Raw :: bool

type_synonym ContentInfo = "string \<Rightarrow> FileInfo option"

definition MetaInfoDir :: string where "MetaInfoDir = ''META-INF''"
definition ContentInfoFile :: string where "ContentInfoFile = ''ContentInfo.toml''"

definition IgnoreFile :: string where "IgnoreFile = ''.zignore''"

text \<open>What \<open>filepath.Walk\<close> meets: the path, the error it reports, what it is, and the result of reading it.\<close>

record walk_entry =
  we_path :: string
  we_err :: "string option"
  we_isDir :: bool
  we_isRegular :: bool
  we_read :: "string + bytes"

text \<open>
  \<open>filetype.Match\<close> on a non-empty buffer, with the MIME value and the extension it finds, \<open>mime.TypeByExtension\<close>,
  \<open>http.DetectContentType\<close>, the ignore rules of a directory and a file of rules, \<open>compress/gzip\<close>, and the errors of
  creating an entry of the archive, of writing it and of closing the archive.
\<close>

record zip_env =
  filetypeMatch :: "bytes \<Rightarrow> string + (string \<times> string)"
  TypeByExtension :: "string \<Rightarrow> string"
  DetectContentType :: "bytes \<Rightarrow> string"
  newIgnore :: "string \<Rightarrow> string \<Rightarrow> string + (string \<Rightarrow> bool)"
  gzip :: "bytes \<Rightarrow> bytes"
  zCreate :: "string \<Rightarrow> string option"
  zCopy :: "string \<Rightarrow> bytes \<Rightarrow> string option"
  zClose :: "string option"

text \<open>\<open>filepath.Ext\<close>: from the last dot of the last path element on.\<close>

definition Ext :: "string \<Rightarrow> string" where
  "Ext p = (let base = last (Split CHR ''/'' p) in
     case LastIndex base ''.'' of None \<Rightarrow> [] | Some i \<Rightarrow> drop i base)"

definition Contains :: "string \<Rightarrow> string \<Rightarrow> bool" where
  "Contains s t = sublist t s"

record zip_state =
  zEntries :: "(string \<times> bytes) list"
  zInfo :: ContentInfo

record gzipThenZip =
  zIgnored :: "string \<Rightarrow> bool"
  zRoot :: string
  zRootLen :: nat

text \<open>\<open>root[rootLen-1]\<close> exists: \<open>Clean\<close> returns at least a dot.\<close>

definition newGzipThenZip :: "zip_env \<Rightarrow> string \<Rightarrow> string + gzipThenZip" where
  "newGzipThenZip env root =
     (let root = path_Clean root in
      rbind (newIgnore env root IgnoreFile) (\<lambda>ignore.
        Inr \<lparr>zIgnored = ignore, zRoot = root, zRootLen = root_len root\<rparr>))"

definition write_entry :: "zip_env \<Rightarrow> string \<Rightarrow> bytes \<Rightarrow> zip_state \<Rightarrow> string + zip_state" where
  "write_entry env name content z =
     (case zCreate env name of Some e \<Rightarrow> Inl e
      | None \<Rightarrow> (case zCopy env name content of Some e \<Rightarrow> Inl e
         | None \<Rightarrow> Inr (z\<lparr>zEntries := zEntries z @ [(name, content)]\<rparr>)))"

definition writeFileRaw :: "zip_env \<Rightarrow> string \<Rightarrow> bytes \<Rightarrow> zip_state \<Rightarrow> string + zip_state" where
  "writeFileRaw env name content z = write_entry env name content z"

definition writeFile :: "zip_env \<Rightarrow> string \<Rightarrow> bytes \<Rightarrow> zip_state \<Rightarrow> string + zip_state" where
  "writeFile env name content z = write_entry env (name @ ''.gz'') (gzip env content) z"

definition gzip_exts :: "string list" where
  "gzip_exts = [''psd'', ''doc'', ''docx'', ''xls'', ''xlsx'', ''ppt'', ''pptx'']"

definition gzip_types :: "string list" where
  "gzip_types = [''text'', ''javascript'', ''html'', ''css'', ''json'', ''xml'']"

text \<open>
  What \<open>proccessFile\<close> does with a regular file that is neither ignored nor below \<open>META-INF\<close>; an empty file only gets its
  entry created.
\<close>

definition pack_file :: "zip_env \<Rightarrow> string \<Rightarrow> bytes \<Rightarrow> zip_state \<Rightarrow> string + zip_state" where
  "pack_file env entry content z =
     (let head = take 1024 content in
      if head = [] then
        (case zCreate env entry of Some e \<Rightarrow> Inl e
         | None \<Rightarrow> Inr (z\<lparr>zInfo := (zInfo z)(entry \<mapsto> \<lparr>Type = [], Raw = True\<rparr>), zEntries := zEntries z @ [(entry, [])]\<rparr>))
      else rbind (filetypeMatch env head) (\<lambda>(mimeValue, extension).
          if length head < 1024 then
            writeFileRaw env entry content (z\<lparr>zInfo := (zInfo z)(entry \<mapsto> \<lparr>Type = mimeValue, Raw = True\<rparr>)\<rparr>)
          else
            let ext = Ext entry;
                ctype0 = TypeByExtension env ext;
                ctype = (if ctype0 \<noteq> [] then ctype0 else if mimeValue \<noteq> [] then mimeValue
                         else DetectContentType env head);
                z = (if ctype0 \<noteq> [] then z else z\<lparr>zInfo := (zInfo z)(entry \<mapsto> \<lparr>Type = ctype, Raw = False\<rparr>)\<rparr>);
                ext = (if mimeValue \<noteq> [] then extension else ext)
            in if ext \<in> set gzip_exts then writeFile env entry content z
               else if list_ex (\<lambda>t. Contains ctype t) gzip_types then writeFile env entry content z
               else writeFileRaw env entry content
                 (z\<lparr>zInfo := (zInfo z)(entry \<mapsto> \<lparr>Type = ctype, Raw = True\<rparr>)\<rparr>)))"

text \<open>
  Packing ends with a result, an error or a panic, that of slicing \<open>fsPath[z.rootLen:]\<close>. \<open>True\<close> in the result of
  \<open>proccessFile\<close> is \<open>filepath.SkipDir\<close>.
\<close>

datatype 'a zip_out = ZOk 'a | ZErr string | ZPanic

definition entry_name :: "gzipThenZip \<Rightarrow> walk_entry \<Rightarrow> string" where
  "entry_name G f = drop (zRootLen G) (we_path f)"

definition proccessFile :: "zip_env \<Rightarrow> gzipThenZip \<Rightarrow> walk_entry \<Rightarrow> zip_state \<Rightarrow> (zip_state \<times> bool) zip_out" where
  "proccessFile env G f z =
     (if zRootLen G > length (we_path f) then ZPanic
      else let entry = entry_name G f in
        if zIgnored G entry then ZOk (z, we_isDir f)
        else if \<not> we_isRegular f then ZOk (z, False)
        else if HasPrefix entry MetaInfoDir then ZOk (z, False)
        else case rbind (we_read f) (\<lambda>content. pack_file env entry content z) of Inl e \<Rightarrow> ZErr e | Inr z \<Rightarrow> ZOk (z, False))"

text \<open>
  \<open>filepath.Walk\<close> over the rest of the walk, with the function \<open>generate\<close> gives it; after \<open>SkipDir\<close> it passes over what lies
  below the directory.
\<close>

fun walk_files :: "zip_env \<Rightarrow> gzipThenZip \<Rightarrow> walk_entry list \<Rightarrow> zip_state \<Rightarrow> zip_state zip_out" where
  "walk_files env G [] z = ZOk z"
| "walk_files env G (f # fs) z =
     (case we_err f of Some e \<Rightarrow> ZErr e | None \<Rightarrow>
      if we_path f = zRoot G then walk_files env G fs z
      else case proccessFile env G f z of
             ZErr e \<Rightarrow> ZErr e | ZPanic \<Rightarrow> ZPanic
           | ZOk (z', skip) \<Rightarrow>
               walk_files env G (if skip then filter (\<lambda>g. \<not> HasPrefix (we_path g) (we_path f @ ''/'')) fs else fs) z')"

definition generate :: "zip_env \<Rightarrow> (ContentInfo \<Rightarrow> string + bytes) \<Rightarrow> gzipThenZip \<Rightarrow> walk_entry list \<Rightarrow> zip_state zip_out" where
  "generate env toml G fs =
     (let name = MetaInfoDir @ ''/'' @ ContentInfoFile in
      case walk_files env G fs \<lparr>zEntries = [], zInfo = (\<lambda>_. None)\<rparr> of
        ZErr e \<Rightarrow> ZErr e | ZPanic \<Rightarrow> ZPanic
      | ZOk z \<Rightarrow>
     (case zCreate env name of Some e \<Rightarrow> ZErr e | None \<Rightarrow>
     (case toml (zInfo z) of Inl e \<Rightarrow> ZErr e | Inr content \<Rightarrow>
     (case zCopy env name content of Some e \<Rightarrow> ZErr e | None \<Rightarrow>
     (case zClose env of Some e \<Rightarrow> ZErr e | None \<Rightarrow> ZOk (z\<lparr>zEntries := zEntries z @ [(name, content)]\<rparr>))))))"

text \<open>\<open>walk\<close> is what \<open>filepath.Walk\<close> meets from a root.\<close>

definition GzipThenZipWriter ::
  "zip_env \<Rightarrow> (ContentInfo \<Rightarrow> string + bytes) \<Rightarrow> (string \<Rightarrow> walk_entry list) \<Rightarrow> string \<Rightarrow> zip_state zip_out" where
  "GzipThenZipWriter env toml walk root =
     (case newGzipThenZip env root of Inl e \<Rightarrow> ZErr e | Inr G \<Rightarrow> generate env toml G (walk (zRoot G)))"

definition GzipThenZip ::
  "(string \<Rightarrow> string option) \<Rightarrow> zip_env \<Rightarrow> (ContentInfo \<Rightarrow> string + bytes) \<Rightarrow> (string \<Rightarrow> walk_entry list) \<Rightarrow> string \<Rightarrow> string \<Rightarrow> zip_state zip_out" where
  "GzipThenZip create env toml walk root dstFile =
     (case create dstFile of Some e \<Rightarrow> ZErr e | None \<Rightarrow> GzipThenZipWriter env toml walk root)"

section \<open>Serving (zipfs.go)\<close>

datatype vfs_error = NotExist | PermissionDenied | OtherVfsError

record file_info =
  fi_name :: string
  fi_isDir :: bool

text \<open>The \<open>vfs.FileSystem\<close> below: it is given.\<close>

record vfs =
  vOpen :: "string \<Rightarrow> vfs_error + bytes"
  vStat :: "string \<Rightarrow> vfs_error + file_info"
  vLstat :: "string \<Rightarrow> vfs_error + file_info"
  vReadDir :: "string \<Rightarrow> vfs_error + file_info list"

record gzipFileSystem =
  Files :: ContentInfo
  FileSystem :: vfs

text \<open>\<open>name[1:]\<close> panics on the empty string: \<open>None\<close>.\<close>

definition gz :: "gzipFileSystem \<Rightarrow> string \<Rightarrow> (string \<times> bool) option" where
  "gz fs name = (if name = [] then None
     else case Files fs (tl name) of
       Some info \<Rightarrow> Some (if Raw info then (name, True) else (name @ ''.gz'', False))
     | None \<Rightarrow> Some (name @ ''.gz'', False))"

definition gzipFileInfo_Name :: "file_info \<Rightarrow> file_info" where
  "gzipFileInfo_Name fi = fi\<lparr>fi_name := take (length (fi_name fi) - 3) (fi_name fi)\<rparr>"

definition gfs_Open :: "gzipFileSystem \<Rightarrow> string \<Rightarrow> (vfs_error + bytes) option" where
  "gfs_Open fs name = map_option (\<lambda>(n, _). vOpen (FileSystem fs) n) (gz fs name)"

definition stat_with ::
  "(string \<Rightarrow> vfs_error + file_info) \<Rightarrow> gzipFileSystem \<Rightarrow> string \<Rightarrow> (vfs_error + file_info) option" where
  "stat_with first fs path = map_option (\<lambda>(p, raw).
     case first p of
       Inl NotExist \<Rightarrow> vStat (FileSystem fs) path
     | Inl e \<Rightarrow> Inl e
     | Inr fi \<Rightarrow> Inr (if raw then fi else gzipFileInfo_Name fi)) (gz fs path)"

definition gfs_Lstat :: "gzipFileSystem \<Rightarrow> string \<Rightarrow> (vfs_error + file_info) option" where
  "gfs_Lstat fs path = stat_with (vLstat (FileSystem fs)) fs path"

definition gfs_Stat :: "gzipFileSystem \<Rightarrow> string \<Rightarrow> (vfs_error + file_info) option" where
  "gfs_Stat fs path = stat_with (vStat (FileSystem fs)) fs path"

definition gfs_ReadDir :: "gzipFileSystem \<Rightarrow> string \<Rightarrow> (vfs_error + file_info list) option" where
  "gfs_ReadDir fs path = (if path = [] then None
     else Some (case vReadDir (FileSystem fs) path of
       Inl e \<Rightarrow> Inl e
     | Inr fis \<Rightarrow> Inr (map (\<lambda>fi.
         if HasSuffix (fi_name fi) ''.gz'' \<and>
            \<not> (case Files fs (tl path @ ''/'' @ fi_name fi) of Some info \<Rightarrow> Raw info | None \<Rightarrow> False)
         then gzipFileInfo_Name fi else fi) fis)))"

record GzipHttpfs =
  metaInfo :: ContentInfo
  gfs :: gzipFileSystem

definition NewFileSystem :: "(bytes \<Rightarrow> vfs_error + ContentInfo) \<Rightarrow> vfs \<Rightarrow> vfs_error + GzipHttpfs" where
  "NewFileSystem toml fs =
     rbind (vOpen fs (''/'' @ MetaInfoDir @ ''/'' @ ContentInfoFile)) (\<lambda>b.
       rbind (toml b) (\<lambda>mi. Inr \<lparr>metaInfo = mi, gfs = \<lparr>Files = mi, FileSystem = fs\<rparr>\<rparr>))"

text \<open>
  \<open>New\<close> opens the archive; the second component says whether it is left open for the caller to close. \<open>NewReader\<close> has
  nothing to close.
\<close>

definition zipfs_New ::
  "('path \<Rightarrow> vfs_error + vfs) \<Rightarrow> (bytes \<Rightarrow> vfs_error + ContentInfo) \<Rightarrow> 'path \<Rightarrow> (vfs_error + GzipHttpfs) \<times> bool" where
  "zipfs_New openReader toml gzipThenZipFile =
     (case openReader gzipThenZipFile of Inl e \<Rightarrow> (Inl e, False)
      | Inr rc \<Rightarrow> (case NewFileSystem toml rc of Inl e \<Rightarrow> (Inl e, False) | Inr hfs \<Rightarrow> (Inr hfs, True)))"

definition zipfs_NewReader :: "vfs_error + vfs \<Rightarrow> (bytes \<Rightarrow> vfs_error + ContentInfo) \<Rightarrow> vfs_error + GzipHttpfs" where
  "zipfs_NewReader newReader toml = rbind newReader (NewFileSystem toml)"

definition CanRequest :: "GzipHttpfs \<Rightarrow> string \<Rightarrow> bool option" where
  "CanRequest hfs path = map_option is_ok (gfs_Stat (gfs hfs) path)"

text \<open>Whether the file is known to be stored raw, and the content type.\<close>

definition contentInfoType :: "(string \<Rightarrow> string) \<Rightarrow> GzipHttpfs \<Rightarrow> string \<Rightarrow> (bool \<times> string) option" where
  "contentInfoType typeByExt hfs path = (if path = [] then None
     else let info = metaInfo hfs (tl path);
              ctype = (case info of Some i \<Rightarrow> Type i | None \<Rightarrow> [])
          in Some ((case info of Some i \<Rightarrow> Raw i | None \<Rightarrow> False),
               if ctype = [] then typeByExt (Ext path) else ctype))"

section \<open>The file server (net/http)\<close>

text \<open>
  \<open>http.FileServer\<close> over an \<open>http.FileSystem\<close>. What \<open>httpfs\<close> opens, with the time of the last change if it is known: a file with
  its name and content, or a directory with its listing as HTML, unless reading it fails.
\<close>

datatype http_file = HFile string "string option" bytes | HDir "string option" "bytes option"

text \<open>
  A request, as the file server reads it. \<open>frCond\<close> stands for the headers \<open>Range\<close> and \<open>If-\<dots>\<close>: it is what is answered because of
  them, and \<open>None\<close> for a request without any.
\<close>

record file_request =
  frMethod :: string
  frPath :: string
  frQuery :: string
  frCond :: "(http_file \<Rightarrow> rw_op list) option"

definition text_bytes :: "string \<Rightarrow> bytes" where
  "text_bytes s = map of_char s"

definition localRedirect :: "file_request \<Rightarrow> string \<Rightarrow> rw_op list" where
  "localRedirect req newPath =
     [OpSetHeader ''Location'' (if frQuery req \<noteq> [] then newPath @ ''?'' @ frQuery req else newPath), OpWriteHeader 301]"

definition http_Error :: "string \<Rightarrow> int \<Rightarrow> rw_op list" where
  "http_Error msg code =
     [OpSetHeader ''Content-Type'' ''text/plain; charset=utf-8'', OpSetHeader ''X-Content-Type-Options'' ''nosniff'',
      OpWriteHeader code, OpWrite (text_bytes (msg @ [CHR 0x0A]))]"

definition toHTTPError :: "vfs_error \<Rightarrow> rw_op list" where
  "toHTTPError e = (case e of
     NotExist \<Rightarrow> http_Error ''404 page not found'' 404
   | PermissionDenied \<Rightarrow> http_Error ''403 Forbidden'' 403
   | OtherVfsError \<Rightarrow> http_Error ''500 Internal Server Error'' 500)"

definition setLastModified :: "string option \<Rightarrow> rw_op list" where
  "setLastModified t = (case t of Some d \<Rightarrow> [OpSetHeader ''Last-Modified'' d] | None \<Rightarrow> [])"

text \<open>\<open>serveContent\<close>; \<open>haveType\<close> says that the handler above has set a content type. The body is written as one piece.\<close>

definition serveContent ::
  "(string \<Rightarrow> string) \<Rightarrow> (bytes \<Rightarrow> string) \<Rightarrow> bool \<Rightarrow> file_request \<Rightarrow> string \<Rightarrow> string option \<Rightarrow> bytes \<Rightarrow> rw_op list" where
  "serveContent typeByExt detect haveType req name modtime content =
     (case frCond req of Some answer \<Rightarrow> answer (HFile name modtime content)
      | None \<Rightarrow> setLastModified modtime @
         (if haveType then []
          else let ctype = typeByExt (Ext name) in
            [OpSetHeader ''Content-Type'' (if ctype = [] then detect (take 512 content) else ctype)]) @
         [OpSetHeader ''Accept-Ranges'' ''bytes'', OpSetHeader ''Content-Length'' (Itoa (int (length content))), OpWriteHeader 200] @
         (if frMethod req = ''HEAD'' \<or> content = [] then [] else [OpWrite content]))"

definition dirList :: "file_request \<Rightarrow> string option \<Rightarrow> bytes option \<Rightarrow> rw_op list" where
  "dirList req modtime listing =
     (case frCond req of Some answer \<Rightarrow> answer (HDir modtime listing)
      | None \<Rightarrow> setLastModified modtime @
         (case listing of None \<Rightarrow> http_Error ''Error reading directory'' 500
          | Some html \<Rightarrow> [OpSetHeader ''Content-Type'' ''text/html; charset=utf-8'', OpWrite html]))"

definition indexPage :: string where "indexPage = ''/index.html''"

text \<open>\<open>ServeHTTP\<close> puts a slash before a path without one, in the request too.\<close>

definition upath :: "file_request \<Rightarrow> string" where
  "upath req = (if HasPrefix (frPath req) ''/'' then frPath req else ''/'' @ frPath req)"

text \<open>\<open>hopen\<close> is the file system; the result is what the server does with the \<open>ResponseWriter\<close>.\<close>

definition FileServer ::
  "(string \<Rightarrow> string) \<Rightarrow> (bytes \<Rightarrow> string) \<Rightarrow> (string \<Rightarrow> vfs_error + http_file) \<Rightarrow> bool \<Rightarrow> file_request \<Rightarrow> rw_op list" where
  "FileServer typeByExt detect hopen haveType req =
     (let url = upath req; name = path_Clean url in
      if HasSuffix url indexPage then localRedirect req ''./''
      else case hopen name of
        Inl e \<Rightarrow> toHTTPError e
      | Inr (HFile n modtime content) \<Rightarrow>
          if last url = CHR ''/'' then localRedirect req (''../'' @ path_Base url)
          else serveContent typeByExt detect haveType req n modtime content
      | Inr (HDir modtime listing) \<Rightarrow>
          if last url \<noteq> CHR ''/'' then localRedirect req (path_Base url @ ''/'')
          else (case hopen (TrimSuffix name ''/'' @ indexPage) of
             Inr (HFile n t content) \<Rightarrow> serveContent typeByExt detect haveType req n t content
           | Inr (HDir t l) \<Rightarrow> dirList req t l
           | Inl e \<Rightarrow> dirList req modtime listing))"

text \<open>
  The response a client gets of a handler: status, headers and body. \<open>http.NewFileTransport\<close> makes it of the file server by the
  same code as \<open>handlertransport.go\<close> of the repository.
\<close>

definition response_of :: "rw_op list \<Rightarrow> int \<times> header \<times> bytes" where
  "response_of ops = (let pr = handler_RoundTrip ops in (pr_StatusCode pr, pr_Header pr, pr_pipe pr))"

section \<open>Answers (zipfs.go)\<close>

definition zip_RoundTrip ::
  "(string \<Rightarrow> string) \<Rightarrow> (bytes \<Rightarrow> string) \<Rightarrow> (string \<Rightarrow> vfs_error + http_file) \<Rightarrow> GzipHttpfs \<Rightarrow> file_request
    \<Rightarrow> (int \<times> header \<times> bytes) option" where
  "zip_RoundTrip typeByExt detect hopen hfs req =
     (let (code, h, body) = response_of (FileServer typeByExt detect hopen False req) in
      map_option (\<lambda>(raw, ctype).
        let h = Header_set ''Content-Type'' ctype h
        in (code, if \<not> raw \<and> (code = 200 \<or> code = 206) then Header_set ''Content-Encoding'' ''gzip'' h else h, body))
        (contentInfoType typeByExt hfs (upath req)))"

text \<open>\<open>ServeHTTP\<close>: the calls the file server makes on the wrapped \<open>ResponseWriter\<close>, as they come out.\<close>

definition gzip_rw_op :: "rw_op \<Rightarrow> rw_op list" where
  "gzip_rw_op o1 = (case o1 of
     OpWriteHeader code \<Rightarrow> (if code = 200 \<or> code = 206 then [OpSetHeader ''Content-Encoding'' ''gzip''] else []) @ [OpWriteHeader code]
   | _ \<Rightarrow> [o1])"

definition zip_ServeHTTP ::
  "(string \<Rightarrow> string) \<Rightarrow> (bytes \<Rightarrow> string) \<Rightarrow> (string \<Rightarrow> vfs_error + http_file) \<Rightarrow> GzipHttpfs \<Rightarrow> file_request \<Rightarrow> rw_op list option" where
  "zip_ServeHTTP typeByExt detect hopen hfs req = map_option (\<lambda>(raw, ctype).
     let ops = FileServer typeByExt detect hopen True req
     in OpSetHeader ''Content-Type'' ctype # (if raw then ops else concat (map gzip_rw_op ops)))
     (contentInfoType typeByExt hfs (frPath req))"

section \<open>What is packed\<close>

text \<open>The files of a walk that are packed, and packing them one after the other.\<close>

fun packed :: "gzipThenZip \<Rightarrow> walk_entry list \<Rightarrow> walk_entry list" where
  "packed G [] = []"
| "packed G (f # fs) =
     (if we_path f = zRoot G then packed G fs
      else if zIgnored G (entry_name G f) then
        packed G (if we_isDir f then filter (\<lambda>g. \<not> HasPrefix (we_path g) (we_path f @ ''/'')) fs else fs)
      else if we_isRegular f \<and> \<not> HasPrefix (entry_name G f) MetaInfoDir then f # packed G fs
      else packed G fs)"

fun pack_all :: "zip_env \<Rightarrow> gzipThenZip \<Rightarrow> walk_entry list \<Rightarrow> zip_state \<Rightarrow> string + zip_state" where
  "pack_all env G [] z = Inr z"
| "pack_all env G (f # fs) z =
     rbind (we_read f) (\<lambda>c. rbind (pack_file env (entry_name G f) c z) (pack_all env G fs))"

lemma walk_files_packed: "walk_files env G fs z = ZOk z' \<Longrightarrow> pack_all env G (packed G fs) z = Inr z'"
proof (induction env G fs z rule: walk_files.induct)
  case (2 env G f fs z)
  show ?case
  proof (cases "we_path f = zRoot G")
    case True
    with 2 show ?thesis by (auto split: option.splits)
  next
    case False
    with 2(3) obtain z1 skip where p: "we_err f = None" "proccessFile env G f z = ZOk (z1, skip)"
      "walk_files env G (if skip then filter (\<lambda>g. \<not> HasPrefix (we_path g) (we_path f @ ''/'')) fs else fs) z1 = ZOk z'"
      by (auto split: option.splits zip_out.splits prod.splits)
    from 2(2)[OF p(1) False p(2) refl p(3)] p(2) False show ?thesis
      by (auto simp: proccessFile_def Let_def rbind_Inr_iff split: if_splits sum.splits)
  qed
qed simp

lemma packed_ok: "f \<in> set (packed G fs) \<Longrightarrow> f \<in> set fs \<and> \<not> HasPrefix (entry_name G f) MetaInfoDir"
  by (induction G fs rule: packed.induct) (auto split: if_splits)

text \<open>A file is stored raw or compressed, and the record says which.\<close>

definition we_content :: "walk_entry \<Rightarrow> bytes" where
  "we_content f = (case we_read f of Inr c \<Rightarrow> c | Inl _ \<Rightarrow> [])"

definition stored :: "zip_env \<Rightarrow> gzipThenZip \<Rightarrow> walk_entry \<Rightarrow> bool \<Rightarrow> string \<times> bytes" where
  "stored env G f raw = (if raw then (entry_name G f, we_content f) else (entry_name G f @ ''.gz'', gzip env (we_content f)))"

definition says_raw :: "ContentInfo \<Rightarrow> string \<Rightarrow> bool" where
  "says_raw info p = (case info p of Some i \<Rightarrow> Raw i | None \<Rightarrow> False)"

lemma write_entry_ok: "write_entry env name content z = Inr z' \<longleftrightarrow>
    zCreate env name = None \<and> zCopy env name content = None \<and> z' = z\<lparr>zEntries := zEntries z @ [(name, content)]\<rparr>"
  by (auto simp: write_entry_def split: option.splits)

lemma pack_file_result:
  assumes "zInfo z (entry_name G f) = None" "we_read f = Inr c" "pack_file env (entry_name G f) c z = Inr z'"
  shows "\<exists>raw. zEntries z' = zEntries z @ [stored env G f raw] \<and> says_raw (zInfo z') (entry_name G f) = raw \<and>
    (\<forall>p. p \<noteq> entry_name G f \<longrightarrow> zInfo z' p = zInfo z p)"
proof (cases "c = []")
  case True
  with assms show ?thesis
    by (auto simp: pack_file_def stored_def says_raw_def we_content_def split: option.splits)
next
  case False
  with assms(3) obtain m x where "filetypeMatch env (take 1024 c) = Inr (m, x)"
    by (cases "filetypeMatch env (take 1024 c)") (auto simp: pack_file_def Let_def)
  with assms False show ?thesis
    by (auto simp: pack_file_def Let_def writeFile_def writeFileRaw_def write_entry_ok stored_def says_raw_def we_content_def
        split: if_splits)
qed

lemma pack_all_result:
  assumes "pack_all env G gs z = Inr z'" "distinct (map (entry_name G) gs)" "\<forall>g\<in>set gs. zInfo z (entry_name G g) = None"
  shows "\<exists>raws. zEntries z' = zEntries z @ map (\<lambda>g. stored env G g (raws (entry_name G g))) gs \<and>
    (\<forall>g\<in>set gs. says_raw (zInfo z') (entry_name G g) = raws (entry_name G g) \<and> (\<exists>c. we_read g = Inr c)) \<and>
    (\<forall>p. p \<notin> entry_name G ` set gs \<longrightarrow> zInfo z' p = zInfo z p)"
  using assms
proof (induction gs arbitrary: z)
  case (Cons g gs)
  let ?e = "entry_name G"
  obtain c z1 where c: "we_read g = Inr c" "pack_file env (?e g) c z = Inr z1" "pack_all env G gs z1 = Inr z'"
    using Cons.prems(1) by (auto simp: rbind_Inr_iff)
  obtain raw where raw: "zEntries z1 = zEntries z @ [stored env G g raw]" "says_raw (zInfo z1) (?e g) = raw"
    "\<And>p. p \<noteq> ?e g \<Longrightarrow> zInfo z1 p = zInfo z p"
    using pack_file_result[OF _ c(1,2)] Cons.prems(3) by auto
  have none: "\<forall>g'\<in>set gs. zInfo z1 (?e g') = None"
  proof
    fix g' assume "g' \<in> set gs"
    then have "?e g' \<noteq> ?e g" "zInfo z (?e g') = None" using Cons.prems by (auto simp: image_iff)
    then show "zInfo z1 (?e g') = None" using raw(3) by simp
  qed
  obtain raws where raws: "zEntries z' = zEntries z1 @ map (\<lambda>g. stored env G g (raws (?e g))) gs"
    "\<forall>g'\<in>set gs. says_raw (zInfo z') (?e g') = raws (?e g') \<and> (\<exists>c. we_read g' = Inr c)"
    "\<And>p. p \<notin> ?e ` set gs \<Longrightarrow> zInfo z' p = zInfo z1 p"
    using Cons.IH[OF c(3) _ none] Cons.prems(2) by auto
  have g: "?e g \<notin> ?e ` set gs" using Cons.prems(2) by auto
  have "map (\<lambda>h. stored env G h ((raws(?e g := raw)) (?e h))) gs = map (\<lambda>h. stored env G h (raws (?e h))) gs"
    using g by (auto simp: image_iff)
  then show ?case
    using raw raws g c(1) by (intro exI[of _ "raws(?e g := raw)"]) (auto simp: says_raw_def image_iff)
qed auto

text \<open>
  What is relied upon of the zip file system: a name with one content in the archive can be opened and
  is found as a file.
\<close>

definition serves :: "vfs \<Rightarrow> (string \<times> bytes) list \<Rightarrow> bool" where
  "serves fs es \<longleftrightarrow> (\<forall>n b. (n, b) \<in> set es \<longrightarrow> (\<forall>b'. (n, b') \<in> set es \<longrightarrow> b' = b) \<longrightarrow>
     vOpen fs (CHR ''/'' # n) = Inr b \<and> (\<exists>fi. vStat fs (CHR ''/'' # n) = Inr fi \<and> \<not> fi_isDir fi))"

text \<open>No two files are stored under the same name.\<close>

definition no_clash :: "gzipThenZip \<Rightarrow> walk_entry list \<Rightarrow> bool" where
  "no_clash G gs \<longleftrightarrow> distinct (map (entry_name G) gs) \<and>
     (\<forall>f\<in>set gs. \<forall>g\<in>set gs. entry_name G f \<noteq> entry_name G g @ ''.gz'')"

definition decode_body :: "(bytes \<Rightarrow> bytes) \<Rightarrow> header \<Rightarrow> bytes \<Rightarrow> bytes" where
  "decode_body gunzip h b = (if Header_get ''Content-Encoding'' h = ''gzip'' then gunzip b else b)"

lemma stored_inject:
  assumes "no_clash G gs" "f \<in> set gs" "g \<in> set gs" "fst (stored env G f a) = fst (stored env G g b)"
  shows "f = g"
proof -
  have "entry_name G f = entry_name G g" using assms by (force simp: no_clash_def stored_def split: if_splits)
  then show ?thesis using assms(1-3) by (auto simp: no_clash_def distinct_map inj_on_def)
qed

lemma MetaInfo_not_stored:
  assumes "\<not> HasPrefix (entry_name G f) MetaInfoDir"
  shows "fst (stored env G f raw) \<noteq> MetaInfoDir @ ''/'' @ ContentInfoFile"
proof
  assume eq: "fst (stored env G f raw) = MetaInfoDir @ ''/'' @ ContentInfoFile"
  show False
  proof (cases raw)
    case True
    then show ?thesis using eq assms by (simp add: stored_def)
  next
    case False
    then have "entry_name G f @ ''.gz'' = (MetaInfoDir @ ''/'' @ ''ContentInfo.t'') @ ''oml''"
      using eq by (simp add: stored_def ContentInfoFile_def)
    then have "''.gz'' = ''oml''" by (subst (asm) append_eq_append_conv) simp_all
    then show False by simp
  qed
qed

text \<open>The archive of a successful run: each packed file once, as the record says, and the record.\<close>

lemma generate_ok:
  assumes "generate env toml G fs = ZOk z" "no_clash G (packed G fs)"
  obtains raws b where "zEntries z = map (\<lambda>g. stored env G g (raws (entry_name G g))) (packed G fs) @ [(MetaInfoDir @ ''/'' @ ContentInfoFile, b)]"
    "toml (zInfo z) = Inr b"
    "\<And>g. g \<in> set (packed G fs) \<Longrightarrow> says_raw (zInfo z) (entry_name G g) = raws (entry_name G g) \<and> (\<exists>c. we_read g = Inr c)"
proof -
  obtain z0 b where z0: "walk_files env G fs \<lparr>zEntries = [], zInfo = (\<lambda>_. None)\<rparr> = ZOk z0" "toml (zInfo z0) = Inr b"
    "z = z0\<lparr>zEntries := zEntries z0 @ [(MetaInfoDir @ ''/'' @ ContentInfoFile, b)]\<rparr>"
    using assms(1) by (auto simp: generate_def Let_def split: zip_out.splits option.splits sum.splits)
  from pack_all_result[OF walk_files_packed[OF z0(1)]] assms(2) obtain raws where
    "zEntries z0 = map (\<lambda>g. stored env G g (raws (entry_name G g))) (packed G fs)"
    "\<forall>g\<in>set (packed G fs). says_raw (zInfo z0) (entry_name G g) = raws (entry_name G g) \<and> (\<exists>c. we_read g = Inr c)"
    by (auto simp: no_clash_def)
  with z0(2,3) show ?thesis by (intro that[of raws b]) auto
qed

text \<open>After packing, every packed file is found under the name the record gives.\<close>

lemma generate_serves:
  assumes gen: "generate env toml G fs = ZOk z" and clash: "no_clash G (packed G fs)" and serves: "serves v (zEntries z)"
    and f: "f \<in> set (packed G fs)"
    and hfs: "hfs = \<lparr>metaInfo = zInfo z, gfs = \<lparr>Files = zInfo z, FileSystem = v\<rparr>\<rparr>"
  shows "\<exists>raw. says_raw (metaInfo hfs) (entry_name G f) = raw \<and>
    gfs_Open (gfs hfs) (CHR ''/'' # entry_name G f) = Some (Inr (snd (stored env G f raw))) \<and>
    (\<exists>fi. gfs_Stat (gfs hfs) (CHR ''/'' # entry_name G f) = Some (Inr fi) \<and> \<not> fi_isDir fi)"
proof -
  let ?gs = "packed G fs"
  obtain raws b0 where es: "zEntries z = map (\<lambda>g. stored env G g (raws (entry_name G g))) ?gs @ [(MetaInfoDir @ ''/'' @ ContentInfoFile, b0)]"
    and raws: "\<And>g. g \<in> set ?gs \<Longrightarrow> says_raw (zInfo z) (entry_name G g) = raws (entry_name G g) \<and> (\<exists>c. we_read g = Inr c)"
    by (rule generate_ok[OF gen clash]) blast
  define raw where "raw = raws (entry_name G f)"
  have info: "says_raw (metaInfo hfs) (entry_name G f) = raw" using raws[OF f] by (simp add: hfs raw_def)
  obtain n b where nb: "stored env G f raw = (n, b)" by (cases "stored env G f raw")
  have "(n, b) \<in> set (zEntries z)" using f nb by (force simp: es raw_def)
  moreover have "b' = b" if m: "(n, b') \<in> set (zEntries z)" for b'
  proof -
    have "n \<noteq> MetaInfoDir @ ''/'' @ ContentInfoFile" using MetaInfo_not_stored[of G f env raw] packed_ok[OF f] nb by simp
    then obtain g where g: "g \<in> set ?gs" "stored env G g (raws (entry_name G g)) = (n, b')" using m by (auto simp: es)
    then have "g = f" using stored_inject[OF clash g(1) f, of env "raws (entry_name G g)" raw] nb by simp
    then show ?thesis using g(2) nb raw_def by simp
  qed
  ultimately obtain fi where v: "vOpen v (CHR ''/'' # n) = Inr b" "vStat v (CHR ''/'' # n) = Inr fi" "\<not> fi_isDir fi"
    using serves unfolding serves_def by blast
  have "gz (gfs hfs) (CHR ''/'' # entry_name G f) = Some (CHR ''/'' # n, raw)"
    using info nb by (auto simp: gz_def hfs says_raw_def stored_def split: option.splits if_splits)
  then show ?thesis
    using v nb info
    by (intro exI[of _ raw]) (auto simp: gfs_Open_def gfs_Stat_def stat_with_def gzipFileInfo_Name_def hfs)
qed

text \<open>Below an absolute root the entry of a file, with a slash before it, is its path below the root.\<close>

lemma entry_below_root:
  assumes "newGzipThenZip env (abs_path r) = Inr G" "list_all plain_elem r" "we_path f = abs_path (r @ p)" "p \<noteq> []"
  shows "CHR ''/'' # entry_name G f = abs_path p"
proof -
  have "zRootLen G = root_len (abs_path r)" using assms(1,2) by (auto simp: newGzipThenZip_def Let_def Clean_abs_path rbind_Inr_iff)
  then show ?thesis using root_len_drop(1)[OF assms(4,2)] assms(3) by (simp add: entry_name_def abs_path_def Separator_def)
qed

text \<open>
  Packing the working directory by the name of a dot: entries lose the first two characters of their names, and a name of
  one character makes packing panic.
\<close>

lemma dot_root_cuts_names:
  assumes "newGzipThenZip env ''.'' = Inr G" "plain_elem n" "we_path f = path_Join [zRoot G, n]"
  shows "entry_name G f = drop 2 n" "length n < 2 \<Longrightarrow> proccessFile env G f z = ZPanic"
proof -
  have "zRoot G = path_Clean ''.''" "zRootLen G = root_len (path_Clean ''.'')"
    using assms(1) by (auto simp: newGzipThenZip_def Let_def rbind_Inr_iff)
  then have "we_path f = n" "zRootLen G = 2" using root_len_dot[OF assms(2)] assms(3) by simp_all
  then show "entry_name G f = drop 2 n" "length n < 2 \<Longrightarrow> proccessFile env G f z = ZPanic"
    by (simp_all add: entry_name_def proccessFile_def)
qed

section \<open>What is served\<close>

text \<open>
  What is relied upon of \<open>httpfs\<close>: it opens as a file what \<open>Stat\<close> says is a file, with the content \<open>Open\<close> gives, and as a
  directory what \<open>Stat\<close> says is one.
\<close>

definition httpfs_ok :: "gzipFileSystem \<Rightarrow> (string \<Rightarrow> vfs_error + http_file) \<Rightarrow> bool" where
  "httpfs_ok fs hopen \<longleftrightarrow> (\<forall>p fi. gfs_Stat fs p = Some (Inr fi) \<longrightarrow>
     (if fi_isDir fi then \<exists>t l. hopen p = Inr (HDir t l)
      else \<forall>b. gfs_Open fs p = Some (Inr b) \<longrightarrow> (\<exists>t. hopen p = Inr (HFile (fi_name fi) t b))))"

text \<open>A request without \<open>Range\<close> or \<open>If-\<dots>\<close> headers, and the answers to a request, of the transport and of the handler.\<close>

definition GET_request :: "string \<Rightarrow> string \<Rightarrow> file_request" where
  "GET_request path query = \<lparr>frMethod = ''GET'', frPath = path, frQuery = query, frCond = None\<rparr>"

definition zip_answers ::
  "(string \<Rightarrow> string) \<Rightarrow> (bytes \<Rightarrow> string) \<Rightarrow> (string \<Rightarrow> vfs_error + http_file) \<Rightarrow> GzipHttpfs \<Rightarrow> file_request
    \<Rightarrow> (int \<times> header \<times> bytes) option list" where
  "zip_answers te dt hopen hfs req = [zip_RoundTrip te dt hopen hfs req, map_option response_of (zip_ServeHTTP te dt hopen hfs req)]"

lemma last_elem_eq: "u @ Separator # e = z @ Separator # a \<Longrightarrow> Separator \<notin> set e \<Longrightarrow> Separator \<notin> set a \<Longrightarrow> e = a"
  using Split_append[of Separator u e] Split_append[of Separator z a] by (simp add: Split_single)

lemma index_suffix:
  assumes "list_all plain_elem p" "p \<noteq> []"
  shows "HasSuffix (abs_path p) indexPage \<longleftrightarrow> last p = ''index.html''"
proof -
  obtain es e where p: "p = es @ [e]" using assms(2) by (cases p rule: rev_cases) auto
  have "\<exists>u. abs_path p = u @ Separator # e" using p by (cases "es = []") (auto simp: abs_path_def Join_append)
  then obtain u where u: "abs_path p = u @ Separator # e" by blast
  have e: "Separator \<notin> set e" using assms(1) p by (simp add: plain_elem_def)
  have idx: "Separator \<notin> set ''index.html''" by (simp add: Separator_def)
  have "e = ''index.html''" if "abs_path p = z @ indexPage" for z
  proof -
    have "u @ Separator # e = z @ Separator # ''index.html''" using that u by (simp add: indexPage_def Separator_def)
    from last_elem_eq[OF this e idx] show ?thesis .
  qed
  then show ?thesis using u p by (auto simp: suffix_def indexPage_def Separator_def)
qed

lemma abs_path_no_slash_end:
  assumes "list_all plain_elem p" "p \<noteq> []"
  shows "last (abs_path p) \<noteq> CHR ''/''"
proof -
  obtain es e where p: "p = es @ [e]" using assms(2) by (cases p rule: rev_cases) auto
  have e: "e \<noteq> []" "CHR ''/'' \<notin> set e" using assms(1) p by (simp_all add: plain_elem_def Separator_def)
  have "\<exists>u. abs_path p = u @ e" using p by (cases "es = []") (auto simp: abs_path_def Join_append)
  moreover have "last e \<noteq> CHR ''/''" using e last_in_set[OF e(1)] by metis
  ultimately show ?thesis using e(1) by auto
qed

lemma upath_GET [simp]: "upath (GET_request (abs_path p) q) = abs_path p" "frPath (GET_request u q) = u"
  by (simp_all add: upath_def GET_request_def abs_path_def Separator_def)

text \<open>The response of a handler, call by call.\<close>

definition op_headers :: "rw_op list \<Rightarrow> header" where
  "op_headers ops = fold (\<lambda>o1 h. case o1 of OpSetHeader k v \<Rightarrow> Header_set k v h | _ \<Rightarrow> h) ops []"

lemma response_of_eq:
  "response_of ops = (case first_status ops of Some c \<Rightarrow> c | None \<Rightarrow> 500, op_headers ops, concat (map op_bytes ops))"
proof -
  have one: "pr_Header (pr_op o1 pr) = (case o1 of OpSetHeader k v \<Rightarrow> Header_set k v (pr_Header pr) | _ \<Rightarrow> pr_Header pr)" for o1 pr
    by (cases o1) (simp_all add: pr_defs)
  have "pr_Header (fold pr_op ops pr) = fold (\<lambda>o1 h. case o1 of OpSetHeader k v \<Rightarrow> Header_set k v h | _ \<Rightarrow> h) ops (pr_Header pr)" for pr
    by (induction ops arbitrary: pr) (simp_all add: one)
  moreover have "pr_Header newPopulateResponseWriter = []" by (simp add: newPopulateResponseWriter_def)
  moreover have "pr_Header (pr_finish pr) = pr_Header pr" "pr_pipe (pr_finish pr) = pr_pipe pr"
    "pr_StatusCode (pr_finish pr) = (if pr_wroteHeader pr then pr_StatusCode pr else 500)" for pr
    by (simp_all add: pr_defs)
  moreover have "pr_inv newPopulateResponseWriter" by (simp add: pr_inv_def)
  ultimately show ?thesis
    using pr_run[of newPopulateResponseWriter ops]
    by (auto simp: response_of_def handler_RoundTrip_def op_headers_def Let_def split: option.splits)
qed

lemmas response_simps = response_of_eq op_headers_def op_bytes_def gzip_rw_op_def Header_get_set Let_def
lemmas content_simps = serveContent_def setLastModified_def GET_request_def

lemma Header_get_Nil [simp]: "Header_get k [] = []"
  by (simp add: Header_get_def)

lemma response_redirect:
  "\<exists>h. response_of (OpSetHeader ''Content-Type'' ct # localRedirect (GET_request u q) l) = (301, h, []) \<and>
     Header_get ''Location'' h = (if q = [] then l else l @ ''?'' @ q)"
  "\<exists>h. response_of (localRedirect (GET_request u q) l) = (301, h, []) \<and> Header_get ''Location'' h = (if q = [] then l else l @ ''?'' @ q)"
  by (simp_all add: response_simps localRedirect_def GET_request_def)

text \<open>A file, through the transport and through the handler: status, body and whether the body is marked as compressed.\<close>

definition coding_of :: "int \<times> header \<times> bytes \<Rightarrow> int \<times> bool \<times> bytes" where
  "coding_of r = (case r of (code, h, body) \<Rightarrow> (code, Header_get ''Content-Encoding'' h = ''gzip'', body))"

lemma response_file:
  "coding_of (response_of (serveContent te dt ht (GET_request u q) n t c)) = (200, False, c)"
  "coding_of (response_of (OpSetHeader ''Content-Type'' ct # serveContent te dt ht (GET_request u q) n t c)) = (200, False, c)"
  "coding_of (response_of (OpSetHeader ''Content-Type'' ct # concat (map gzip_rw_op (serveContent te dt ht (GET_request u q) n t c)))) =
     (200, True, c)"
  by (cases t; cases ht; cases "c = []"; simp add: response_simps content_simps coding_of_def)+

lemma zip_RoundTrip_coding:
  assumes "contentInfoType te hfs (upath req) = Some (raw, ct)" "coding_of (response_of (FileServer te dt hopen False req)) = (200, False, b)"
  shows "map_option coding_of (zip_RoundTrip te dt hopen hfs req) = Some (200, \<not> raw, b)"
  using assms by (auto simp: zip_RoundTrip_def coding_of_def Header_get_set Let_def split: prod.splits)

text \<open>The archive, opened again, has the record that was written.\<close>

lemma generate_reopened:
  assumes gen: "generate env toml G fs = ZOk z" and clash: "no_clash G (packed G fs)"
    and arch: "openReader zipFile = Inr v" "serves v (zEntries z)" "fst (zipfs_New openReader untoml zipFile) = Inr hfs"
    and untoml: "\<forall>b. toml (zInfo z) = Inr b \<longrightarrow> untoml b = Inr (zInfo z)"
  shows "hfs = \<lparr>metaInfo = zInfo z, gfs = \<lparr>Files = zInfo z, FileSystem = v\<rparr>\<rparr>"
proof -
  let ?m = "MetaInfoDir @ ''/'' @ ContentInfoFile"
  obtain raws b where es: "zEntries z = map (\<lambda>g. stored env G g (raws (entry_name G g))) (packed G fs) @ [(?m, b)]"
    "toml (zInfo z) = Inr b"
    by (rule generate_ok[OF gen clash]) blast
  have "b' = b" if "(?m, b') \<in> set (zEntries z)" for b'
  proof -
    have "(?m, b') \<notin> (\<lambda>g. stored env G g (raws (entry_name G g))) ` set (packed G fs)"
    proof
      assume "(?m, b') \<in> (\<lambda>g. stored env G g (raws (entry_name G g))) ` set (packed G fs)"
      then obtain g where g: "g \<in> set (packed G fs)" "fst (stored env G g (raws (entry_name G g))) = ?m" by (auto dest: sym)
      from MetaInfo_not_stored[OF conjunct2[OF packed_ok[OF g(1)]]] g(2) show False by blast
    qed
    then show ?thesis using that by (auto simp: es(1))
  qed
  moreover have "(?m, b) \<in> set (zEntries z)" by (simp add: es(1))
  ultimately have "vOpen v (CHR ''/'' # ?m) = Inr b" using arch(2) unfolding serves_def by blast
  then show ?thesis using arch(1,3) untoml es(2) by (simp add: zipfs_New_def NewFileSystem_def)
qed

text \<open>The two answers to a plain GET: for a page \<open>index.html\<close>, and for any other file.\<close>

lemma index_answer:
  assumes p: "list_all plain_elem p" "p \<noteq> []" and idx: "last p = ''index.html''"
  shows "list_all (\<lambda>a. \<exists>h. a = Some (301, h, []) \<and> Header_get ''Location'' h = (if q = [] then ''./'' else ''./?'' @ q))
    (zip_answers te dt hopen hfs (GET_request (abs_path p) q))"
proof -
  let ?req = "GET_request (abs_path p) q"
  have ops: "FileServer te dt hopen ht ?req = localRedirect ?req ''./''" for ht
    using index_suffix[OF p] idx by (simp add: FileServer_def)
  obtain raw ct where info: "contentInfoType te hfs (abs_path p) = Some (raw, ct)"
    by (auto simp: contentInfoType_def abs_path_def Let_def)
  obtain l where l: "(if q = [] then ''./'' else ''./?'' @ q) = l" by simp
  obtain h where h: "response_of (localRedirect ?req ''./'') = (301, h, [])" "Header_get ''Location'' h = l"
    using response_redirect(2)[of "abs_path p" q "''./''"] l by auto
  obtain h' where h': "response_of (OpSetHeader ''Content-Type'' ct # localRedirect ?req ''./'') = (301, h', [])"
    "Header_get ''Location'' h' = l"
    using response_redirect(1)[of ct "abs_path p" q "''./''"] l by auto
  have "concat (map gzip_rw_op (localRedirect ?req ''./'')) = localRedirect ?req ''./''"
    by (simp add: localRedirect_def gzip_rw_op_def)
  then show ?thesis
    using info h h' unfolding l zip_answers_def zip_RoundTrip_def zip_ServeHTTP_def ops by (simp add: Header_get_set Let_def)
qed

lemma file_answer:
  assumes p: "list_all plain_elem p" "p \<noteq> []" and idx: "last p \<noteq> ''index.html''" and opened: "hopen (abs_path p) = Inr (HFile n t b)"
    and raw: "says_raw (metaInfo hfs) (tl (abs_path p)) = raw"
  shows "list_all (\<lambda>a. \<exists>h. a = Some (200, h, b) \<and> (Header_get ''Content-Encoding'' h = ''gzip'') = (\<not> raw))
    (zip_answers te dt hopen hfs (GET_request (abs_path p) q))"
proof -
  let ?req = "GET_request (abs_path p) q"
  have ops: "FileServer te dt hopen ht ?req = serveContent te dt ht ?req n t b" for ht
    using index_suffix[OF p] idx abs_path_no_slash_end[OF p] opened by (simp add: FileServer_def Clean_abs_path p(1))
  obtain ct where info: "contentInfoType te hfs (abs_path p) = Some (raw, ct)"
    using raw by (auto simp: contentInfoType_def says_raw_def abs_path_def Let_def)
  have "map_option coding_of (zip_RoundTrip te dt hopen hfs ?req) = Some (200, \<not> raw, b)"
    using info by (intro zip_RoundTrip_coding) (simp_all add: ops response_file)
  moreover have "map_option coding_of (map_option response_of (zip_ServeHTTP te dt hopen hfs ?req)) = Some (200, \<not> raw, b)"
    using info by (cases raw) (simp_all add: zip_ServeHTTP_def ops response_file)
  ultimately show ?thesis by (auto simp: zip_answers_def coding_of_def)
qed

text \<open>
  A request for a directory is answered with its index page, or with a listing, but what is marked is decided by the record for the
  path that was asked for, the directory, which the record does not have: the transport says \<open>gzip\<close> for an index page that is stored
  raw and for every listing.
\<close>

lemma index_marked_gzip:
  assumes dir: "hopen ''/'' = Inr (HDir t l)" "hopen ''/index.html'' = Inr (HFile n t' b)"
    and info: "metaInfo hfs [] = None"
  shows "map_option coding_of (zip_RoundTrip te dt hopen hfs (GET_request ''/'' q)) = Some (200, True, b)"
proof -
  have c: "path_Clean ''/'' = ''/''" "TrimSuffix ''/'' ''/'' = []" by code_simp+
  have u: "upath (GET_request ''/'' q) = ''/''" by (simp add: upath_def GET_request_def)
  have "FileServer te dt hopen ht (GET_request ''/'' q) = serveContent te dt ht (GET_request ''/'' q) n t' b" for ht
    using dir by (simp add: FileServer_def u c indexPage_def suffix_def Let_def)
  then have "coding_of (response_of (FileServer te dt hopen False (GET_request ''/'' q))) = (200, False, b)"
    by (simp add: response_file)
  from zip_RoundTrip_coding[OF _ this, of hfs False] show ?thesis
    using info by (auto simp: u contentInfoType_def Let_def)
qed

lemma listing_marked_gzip:
  assumes dir: "hopen ''/'' = Inr (HDir t (Some html))" "hopen ''/index.html'' = Inl e"
    and info: "metaInfo hfs [] = None"
  shows "map_option coding_of (zip_RoundTrip te dt hopen hfs (GET_request ''/'' q)) = Some (200, True, html)"
proof -
  have c: "path_Clean ''/'' = ''/''" "TrimSuffix ''/'' ''/'' = []" by code_simp+
  have u: "upath (GET_request ''/'' q) = ''/''" by (simp add: upath_def GET_request_def)
  have "FileServer te dt hopen ht (GET_request ''/'' q) = dirList (GET_request ''/'' q) t (Some html)" for ht
    using dir by (simp add: FileServer_def u c indexPage_def suffix_def Let_def)
  then have "coding_of (response_of (FileServer te dt hopen False (GET_request ''/'' q))) = (200, False, html)"
    by (cases t) (simp_all add: dirList_def setLastModified_def GET_request_def response_simps coding_of_def)
  from zip_RoundTrip_coding[OF _ this, of hfs False] show ?thesis
    using info by (auto simp: u contentInfoType_def Let_def)
qed

section \<open>Properties\<close>


text \<open>A directory with one small file; reading the content information gives what was written.\<close>

definition example_zip_env :: zip_env where
  "example_zip_env = \<lparr>filetypeMatch = (\<lambda>b. Inr ([], [])), TypeByExtension = (\<lambda>e. []), DetectContentType = (\<lambda>b. ''text/plain''),
     newIgnore = (\<lambda>_ _. Inr (\<lambda>p. False)), gzip = (\<lambda>b. 31 # b), zCreate = (\<lambda>_. None), zCopy = (\<lambda>_ _. None), zClose = None\<rparr>"

definition example_walk :: "string \<Rightarrow> walk_entry list" where
  "example_walk root =
     [\<lparr>we_path = root, we_err = None, we_isDir = True, we_isRegular = False, we_read = Inl ''is a directory''\<rparr>,
      \<lparr>we_path = root @ ''/a.txt'', we_err = None, we_isDir = False, we_isRegular = True, we_read = Inr [1, 2]\<rparr>]"

definition example_vfs :: "(string \<times> bytes) list \<Rightarrow> vfs" where
  "example_vfs es = \<lparr>vOpen = (\<lambda>p. case map_of es (tl p) of Some b \<Rightarrow> Inr b | None \<Rightarrow> Inl NotExist),
     vStat = (\<lambda>p. if map_of es (tl p) = None then Inl NotExist else Inr \<lparr>fi_name = tl p, fi_isDir = False\<rparr>),
     vLstat = (\<lambda>p. Inl NotExist), vReadDir = (\<lambda>p. Inl NotExist)\<rparr>"

lemma example_vfs_serves: "serves (example_vfs es) es"
proof -
  have *: "map_of es n = Some b" if "(n, b) \<in> set es" "\<forall>b'. (n, b') \<in> set es \<longrightarrow> b' = b" for n b
  proof -
    have "n \<in> fst ` set es" using that(1) by (rule rev_image_eqI) simp
    then obtain b' where b': "map_of es n = Some b'" by (cases "map_of es n") (auto simp: map_of_eq_None_iff)
    then show ?thesis using map_of_SomeD[OF b'] that(2) by simp
  qed
  show ?thesis
    unfolding serves_def
  proof (intro allI impI)
    fix n b assume "(n, b) \<in> set es" "\<forall>b'. (n, b') \<in> set es \<longrightarrow> b' = b"
    then have "map_of es n = Some b" by (rule *)
    then show "vOpen (example_vfs es) (CHR ''/'' # n) = Inr b \<and>
        (\<exists>fi. vStat (example_vfs es) (CHR ''/'' # n) = Inr fi \<and> \<not> fi_isDir fi)"
      by (simp add: example_vfs_def)
  qed
qed

definition example_hopen :: "gzipFileSystem \<Rightarrow> string \<Rightarrow> vfs_error + http_file" where
  "example_hopen fs p = (case gfs_Stat fs p of
     Some (Inr fi) \<Rightarrow> if fi_isDir fi then Inr (HDir None None)
       else (case gfs_Open fs p of Some (Inr b) \<Rightarrow> Inr (HFile (fi_name fi) None b) | _ \<Rightarrow> Inl OtherVfsError)
   | _ \<Rightarrow> Inl NotExist)"

lemma example_hopen_ok: "httpfs_ok fs (example_hopen fs)"
  by (simp add: httpfs_ok_def example_hopen_def)


end
