(* ===== verification/Proxies.thy ===== *)
theory Proxies
  imports Core Zipfs
begin

text \<open>
  \<open>src/pkg/proxy\<close>: the routers and proxies of a node: the ad-block router (\<open>adprouter.go\<close>), the IP
  router (\<open>ipnetrouter.go\<close>), the local file client, which is both a router and a proxy
  (\<open>fileproxyrouterclient.go\<close>), and the HTTP/2 client that reaches other nodes (\<open>h2client.go\<close>, \<open>h2proxy.go\<close>).
  They are the implementations of the interfaces \<open>Router\<close> and \<open>Proxy\<close> of \<open>Core\<close>.

  The rule matcher \<open>adblock\<close>, the hosts file and the HTTP/2 transport are not part of the repository:
  the first two are arguments, the transport is \<open>RoundTrip\<close> of the \<open>world\<close>.
\<close>

section \<open>The kinds of proxies\<close>

record FileClient =
  fcDisabled :: bool
  fcRootZip :: string
  fcRedirect :: "(string \<Rightarrow> string option) option"
  fcHfs :: GzipHttpfs

datatype proxy = PDirect | PExist ExistProxy | PH2 string | PFile FileClient

subsection \<open>fileproxyrouterclient.go\<close>

definition slice_panic :: string where
  "slice_panic = ''slice bounds out of range''"

definition FileClient_Route :: "FileClient option \<Rightarrow> Context \<Rightarrow> proxy route_result" where
  "FileClient_Route r c = (case r of
     None \<Rightarrow> NoRoute
   | Some fc \<Rightarrow>
       let path = uPath (rqURL (xRequest c));
           redirected = (case fcRedirect fc of
               Some rd \<Rightarrow> (if rd path \<noteq> None then RouteTo (PFile fc) else NoRoute)
             | None \<Rightarrow> NoRoute)
       in if xConnect c then redirected
          else case CanRequest (fcHfs fc) path of
            None \<Rightarrow> RoutePanic slice_panic
          | Some ok \<Rightarrow> (if ok then RouteTo (PFile fc) else redirected))"

definition FileClient_Disabled :: "FileClient option \<Rightarrow> bool" where
  "FileClient_Disabled r = (case r of None \<Rightarrow> True | Some fc \<Rightarrow> fcDisabled fc)"

definition crlf :: string where
  "crlf = [CHR 0x0D, CHR 0x0A]"

definition Standard301Prefix :: string where
  "Standard301Prefix = ''HTTP/1.1 301 Moved Permanently'' @ crlf @ ''Location: ''"

definition FileClient_Do :: "world \<Rightarrow> FileClient \<Rightarrow> Context \<Rightarrow> outcome" where
  "FileClient_Do w fc c =
     (let req = xRequest c; path = uPath (rqURL req); q = uRawQuery (rqURL req) in
      case (case fcRedirect fc of Some rd \<Rightarrow> rd path | None \<Rightarrow> None) of
        Some newPath \<Rightarrow>
          if xWriter c
          then (None, [EvRawResponse (Standard301Prefix @ newPath @ (if q \<noteq> [] then ''?'' @ q else []) @ crlf @ crlf)])
          else (None, [EvPanic ''nil pointer dereference''])
      | None \<Rightarrow>
          let req = (if path = ''/index.html'' then req\<lparr>rqURL := (rqURL req)\<lparr>uPath := ''/''\<rparr>\<rparr> else req);
              req = (if rqBody req \<noteq> NilBody then req\<lparr>rqBody := SomeBody\<rparr> else req)
          in PipeTransport w (TpZip (fcRootZip fc)) (c\<lparr>xRequest := req\<rparr>))"

definition FileClient_HttpErr :: "FileClient \<Rightarrow> Context \<Rightarrow> int \<Rightarrow> string \<Rightarrow> event list" where
  "FileClient_HttpErr fc c code info = HttpErr c \<lparr>Code = code, ClientType = ''Zip'', ClientName = fcRootZip fc,
     TargetHost = xHostPort c, Info = info\<rparr>"

subsection \<open>h2client.go and h2proxy.go\<close>

definition h2_prepare :: "Context \<Rightarrow> string \<Rightarrow> request" where
  "h2_prepare c idx =
     (let req = xRequest c;
          h = (case rqHeader req of None \<Rightarrow> [] | Some h \<Rightarrow> Header_del ''Connection'' h);
          prefix = (if uScheme (rqURL req) = ''https'' then HostHttpsPrefix else HostHttpPrefix)
      in req\<lparr>rqClose := False, rqHeader := Some h,
           rqBody := (if xConnect c then SomeBody else rqBody req),
           rqHost := prefix # rqHost req,
           rqURL := (rqURL req)\<lparr>uScheme := ''http'', uHost := idx\<rparr>\<rparr>)"

definition H2Client_Proxy :: "world \<Rightarrow> Context \<Rightarrow> string \<Rightarrow> outcome" where
  "H2Client_Proxy w c idx = PipeTransport w TpH2 (c\<lparr>xRequest := h2_prepare c idx\<rparr>)"

definition H2Proxy_HttpErr :: "string \<Rightarrow> Context \<Rightarrow> int \<Rightarrow> string \<Rightarrow> event list" where
  "H2Proxy_HttpErr idx c code info = HttpErr c \<lparr>Code = code, ClientType = ''H2'', ClientName = idx,
     TargetHost = xHostPort c, Info = info\<rparr>"

text \<open>
  The dialers by name. The transport asks for \<open>host:port\<close>; the answer is the dialer to use.
\<close>

definition NewH2Client :: "string \<Rightarrow> 'd option" where
  "NewH2Client = (\<lambda>_. None)"

definition AddDialer :: "string \<Rightarrow> 'd \<Rightarrow> (string \<Rightarrow> 'd option) \<Rightarrow> (string \<Rightarrow> 'd option) \<times> proxy" where
  "AddDialer name d dialers = (dialers(name \<mapsto> d), PH2 name)"

datatype dial_error = BadAddr addr_error | DialerNotFound string

definition DialAndAuth :: "(string \<Rightarrow> 'd option) \<Rightarrow> string \<Rightarrow> dial_error + 'd" where
  "DialAndAuth dialers addr = (case SplitHostPort addr of
     Inl e \<Rightarrow> Inl (BadAddr e)
   | Inr (idx, _) \<Rightarrow> (case dialers idx of None \<Rightarrow> Inl (DialerNotFound idx) | Some d \<Rightarrow> Inr d))"

subsection \<open>The interface \<open>Proxy\<close>\<close>

definition proxy_Do :: "world \<Rightarrow> proxy \<Rightarrow> Context \<Rightarrow> outcome" where
  "proxy_Do w p c = (case p of PDirect \<Rightarrow> Direct w c | PExist e \<Rightarrow> ExistProxy_Do w e c
     | PH2 idx \<Rightarrow> H2Client_Proxy w c idx | PFile fc \<Rightarrow> FileClient_Do w fc c)"

definition proxy_HttpErr :: "proxy \<Rightarrow> Context \<Rightarrow> int \<Rightarrow> string \<Rightarrow> event list" where
  "proxy_HttpErr p = (case p of PDirect \<Rightarrow> directProxy_HttpErr | PExist e \<Rightarrow> ExistProxy_HttpErr e
     | PH2 idx \<Rightarrow> H2Proxy_HttpErr idx | PFile fc \<Rightarrow> FileClient_HttpErr fc)"

definition proxies :: "world \<Rightarrow> proxy proxy_ops" where
  "proxies w = \<lparr>Do = proxy_Do w, ProxyHttpErr = proxy_HttpErr, DirectProxy = PDirect\<rparr>"

section \<open>Routers\<close>

subsection \<open>adprouter.go\<close>

text \<open>
  The rule matcher: \<open>ParseRules\<close> (of plain or base64 text), \<open>AddRule\<close> (\<open>None\<close> is an error) and
  \<open>Match\<close>.
\<close>

record ('m, 'rule) adblock =
  NewMatcher :: 'm
  ParseRules :: "bool \<Rightarrow> bytes \<Rightarrow> string + 'rule list"
  AddRule :: "'m \<Rightarrow> 'rule \<Rightarrow> 'm option"
  Match :: "'m \<Rightarrow> string \<Rightarrow> string + bool"

record hosts_entry =
  hDomain :: string
  hIP :: string
  hEnabled :: bool
  hValid :: bool

record AdpRouterConfig =
  cDisabled :: bool
  cBlocked :: "proxy option"
  cUnblocked :: "proxy option"
  cB64Rules :: "bytes list"
  cTxtRules :: "bytes list"
  cEtcHostsIPAsBlocked :: bool

record 'm AdpRouter =
  aConfig :: AdpRouterConfig
  aMatcher :: 'm
  aBlockedIps :: "string \<Rightarrow> bool"

fun add_rules :: "('m, 'rule) adblock \<Rightarrow> 'rule list \<Rightarrow> nat \<times> 'm \<Rightarrow> nat \<times> 'm" where
  "add_rules ab [] (n, m) = (n, m)"
| "add_rules ab (r # rs) (n, m) = (case AddRule ab m r of
     Some m' \<Rightarrow> add_rules ab rs (n + 1, m') | None \<Rightarrow> add_rules ab rs (n, m))"

definition LoadAbpRules :: "('m, 'rule) adblock \<Rightarrow> bool \<Rightarrow> bytes \<Rightarrow> 'm \<Rightarrow> nat \<times> 'm" where
  "LoadAbpRules ab b64 b m = (case ParseRules ab b64 b of Inl e \<Rightarrow> (0, m) | Inr rules \<Rightarrow> add_rules ab rules (0, m))"

fun load_all :: "('m, 'rule) adblock \<Rightarrow> bool \<Rightarrow> bytes list \<Rightarrow> nat \<times> 'm \<Rightarrow> nat \<times> 'm" where
  "load_all ab b64 [] (n, m) = (n, m)"
| "load_all ab b64 (b # bs) (n, m) = (case LoadAbpRules ab b64 b m of (k, m') \<Rightarrow> load_all ab b64 bs (n + k, m'))"

definition AdpMatch :: "('m, 'rule) adblock \<Rightarrow> 'm \<Rightarrow> string \<Rightarrow> bool" where
  "AdpMatch ab m u = (case Match ab m u of Inl e \<Rightarrow> False | Inr b \<Rightarrow> b)"

datatype adp_error = ErrEmptyAdpRules

definition NewAdpRouter ::
  "('m, 'rule) adblock \<Rightarrow> hosts_entry list \<Rightarrow> AdpRouterConfig \<Rightarrow> adp_error + 'm AdpRouter" where
  "NewAdpRouter ab hosts cfg =
     (case load_all ab True (cB64Rules cfg) (load_all ab False (cTxtRules cfg) (0, NewMatcher ab)) of (added, m) \<Rightarrow>
        if added = 0 then Inl ErrEmptyAdpRules
        else Inr \<lparr>aConfig = cfg, aMatcher = m, aBlockedIps =
          (if cEtcHostsIPAsBlocked cfg then
             fold (\<lambda>h ips. if hEnabled h \<and> hValid h \<and> AdpMatch ab m (''http://'' @ hDomain h) then ips(hIP h := True) else ips)
               hosts (\<lambda>_. False)
           else (\<lambda>_. False))\<rparr>)"

definition Adp_blocked :: "('m, 'rule) adblock \<Rightarrow> 'm AdpRouter \<Rightarrow> Context \<Rightarrow> bool \<times> 'm AdpRouter" where
  "Adp_blocked ab r c =
     (if aBlockedIps r (xHostNoPort c) then (True, r)
      else let blocked = AdpMatch ab (aMatcher r) (''http://'' @ xHostNoPort c) in
        (blocked, if blocked then r\<lparr>aBlockedIps := (aBlockedIps r)(xHostNoPort c := True)\<rparr> else r))"

definition route_opt :: "proxy option \<Rightarrow> proxy route_result" where
  "route_opt p = (case p of None \<Rightarrow> NoRoute | Some p \<Rightarrow> RouteTo p)"

definition AdpRouter_Route ::
  "('m, 'rule) adblock \<Rightarrow> 'm AdpRouter \<Rightarrow> Context \<Rightarrow> proxy route_result \<times> 'm AdpRouter" where
  "AdpRouter_Route ab r c = (case Adp_blocked ab r c of (blocked, r') \<Rightarrow>
     (route_opt (if blocked then cBlocked (aConfig r) else cUnblocked (aConfig r)), r'))"

subsection \<open>ipnetrouter.go\<close>

record IPNetRouter =
  nSkip :: bool
  nIPs :: "ip list"
  nNets :: "ipnet list"
  nFileClient :: "FileClient option"
  nMatched :: "proxy option"
  nUnmatched :: "proxy option"

definition matched_route :: "IPNetRouter \<Rightarrow> Context \<Rightarrow> proxy route_result" where
  "matched_route r c = (case FileClient_Route (nFileClient r) c of NoRoute \<Rightarrow> route_opt (nMatched r) | p \<Rightarrow> p)"

fun net_loop :: "IPNetRouter \<Rightarrow> Context \<Rightarrow> ipnet list \<Rightarrow> proxy route_result" where
  "net_loop r c [] = route_opt (nUnmatched r)"
| "net_loop r c (n # ns) = (if IPNet_Contains n (xIP c) then matched_route r c else net_loop r c ns)"

fun ip_loop :: "IPNetRouter \<Rightarrow> Context \<Rightarrow> ip list \<Rightarrow> proxy route_result" where
  "ip_loop r c [] = net_loop r c (nNets r)"
| "ip_loop r c (i # is) = (if IP_Equal i (xIP c) then matched_route r c else ip_loop r c is)"

definition IPNetRouter_Route :: "IPNetRouter \<Rightarrow> Context \<Rightarrow> proxy route_result" where
  "IPNetRouter_Route r c = ip_loop r c (nIPs r)"

subsection \<open>The interface \<open>Router\<close>\<close>

datatype 'm router = RAdp "'m AdpRouter" | RIPNet IPNetRouter

definition router_Disabled :: "'m router \<Rightarrow> bool" where
  "router_Disabled r = (case r of RAdp a \<Rightarrow> cDisabled (aConfig a) | RIPNet n \<Rightarrow> nSkip n)"

definition router_Route ::
  "('m, 'rule) adblock \<Rightarrow> 'm router \<Rightarrow> Context \<Rightarrow> proxy route_result \<times> 'm router" where
  "router_Route ab r c = (case r of
     RAdp a \<Rightarrow> (case AdpRouter_Route ab a c of (p, a') \<Rightarrow> (p, RAdp a'))
   | RIPNet n \<Rightarrow> (IPNetRouter_Route n c, RIPNet n))"

definition routers :: "('m, 'rule) adblock \<Rightarrow> ('m router, proxy) router_ops" where
  "routers ab = \<lparr>Disabled = router_Disabled, Route = router_Route ab\<rparr>"

section \<open>The contracts hold\<close>

lemma Adp_blocked_eq:
  "fst (Adp_blocked ab r c) = (aBlockedIps r (xHostNoPort c) \<or> AdpMatch ab (aMatcher r) (''http://'' @ xHostNoPort c))"
  by (simp add: Adp_blocked_def Let_def)

lemma Adp_blocked_keeps:
  "aConfig (snd (Adp_blocked ab r c)) = aConfig r" "aMatcher (snd (Adp_blocked ab r c)) = aMatcher r"
  by (simp_all add: Adp_blocked_def Let_def)

lemma Adp_blocked_cache:
  "fst (Adp_blocked ab (snd (Adp_blocked ab r c)) c') = fst (Adp_blocked ab r c')"
  by (auto simp: Adp_blocked_def Let_def)

interpretation node_routers: router_contract "routers ab" for ab :: "('m, 'rule) adblock"
proof
  fix r :: "'m router" and c c' :: Context
  show "Disabled (routers ab) (snd (Route (routers ab) r c)) = Disabled (routers ab) r"
    using Adp_blocked_keeps(1)[of ab _ c]
    by (cases r) (simp_all add: routers_def router_Disabled_def router_Route_def AdpRouter_Route_def case_prod_unfold)
  show "fst (Route (routers ab) (snd (Route (routers ab) r c)) c') = fst (Route (routers ab) r c')"
  proof (cases r)
    case (RAdp a)
    then show ?thesis
      using Adp_blocked_cache[of ab a c c'] Adp_blocked_keeps(1)[of ab a c]
      by (auto simp: routers_def router_Route_def AdpRouter_Route_def split: prod.splits)
  qed (simp add: routers_def router_Route_def)
qed

definition proxy_fits :: "proxy \<Rightarrow> Context \<Rightarrow> bool" where
  "proxy_fits p c \<longleftrightarrow> rqHeader (xRequest c) \<noteq> None \<and>
     (case p of PFile fc \<Rightarrow> xWriter c \<or> (\<forall>rd. fcRedirect fc = Some rd \<longrightarrow> rd (uPath (rqURL (xRequest c))) = None)
      | _ \<Rightarrow> True)"

abbreviation good_client :: "world \<Rightarrow> world" where
  "good_client w \<equiv> w\<lparr>ClientWrite := (\<lambda>_. None)\<rparr>"

lemmas stream_defs = ReverseToResponse_def copyFromRemote_def writeConncectOK_def writeBytesFromRemote_def

lemma PipeTransport_answers:
  "PipeTransport w tp c = (e, evs) \<Longrightarrow> \<not> panics evs \<and> answers evs = (if e = None then 1 else 0)"
  by (auto simp: PipeTransport_def Let_def stream_defs answer_defs split: if_splits sum.splits)

lemma Direct_answers:
  "Direct w c = (e, evs) \<Longrightarrow> panics evs \<and> e = None \<or> answers evs = (if e = None then 1 else 0)"
  "rqHeader (xRequest c) \<noteq> None \<Longrightarrow> \<not> panics (snd (Direct w c))"
  by (auto simp: Direct_def Let_def stream_defs answer_defs split: if_splits option.splits)

lemma ProxyUp_answers:
  "ProxyUp (good_client w) a tp ka c = (e, evs) \<Longrightarrow> panics evs \<and> e = None \<or> answers evs = (if e = None then 1 else 0)"
  "rqHeader (xRequest c) \<noteq> None \<Longrightarrow> \<not> panics (snd (ProxyUp w a tp ka c))"
  by (auto simp: ProxyUp_def Let_def stream_defs answer_defs split: if_splits option.splits sum.splits prod.splits)

lemma FileClient_answers:
  assumes "FileClient_Do w fc c = (e, evs)"
  shows "panics evs \<and> e = None \<or> answers evs = (if e = None then 1 else 0)"
    and "proxy_fits (PFile fc) c \<Longrightarrow> \<not> panics evs"
proof -
  let ?rd = "case fcRedirect fc of Some rd \<Rightarrow> rd (uPath (rqURL (xRequest c))) | None \<Rightarrow> None"
  have "(panics evs \<and> e = None \<or> answers evs = (if e = None then 1 else 0)) \<and>
      (proxy_fits (PFile fc) c \<longrightarrow> \<not> panics evs)"
  proof (cases ?rd)
    case None
    then obtain c' where "PipeTransport w (TpZip (fcRootZip fc)) c' = (e, evs)"
      using assms by (auto simp: FileClient_Do_def Let_def)
    from PipeTransport_answers[OF this] show ?thesis by simp
  next
    case (Some np)
    then show ?thesis
      using assms by (auto simp: FileClient_Do_def Let_def proxy_fits_def answer_defs split: if_splits option.splits)
  qed
  then show "panics evs \<and> e = None \<or> answers evs = (if e = None then 1 else 0)"
    "proxy_fits (PFile fc) c \<Longrightarrow> \<not> panics evs" by blast+
qed

lemma proxy_Do_answers:
  "proxy_Do (good_client w) p c = (e, evs) \<Longrightarrow> panics evs \<and> e = None \<or> answers evs = (if e = None then 1 else 0)"
proof (cases p)
  case (PH2 idx)
  then show "proxy_Do (good_client w) p c = (e, evs) \<Longrightarrow> ?thesis"
    using PipeTransport_answers by (fastforce simp: proxy_Do_def H2Client_Proxy_def)
qed (auto simp: proxy_Do_def ExistProxy_Do_def dest: Direct_answers(1) ProxyUp_answers(1) FileClient_answers(1))

lemma proxy_Do_no_panic: "proxy_fits p c \<Longrightarrow> \<not> panics (snd (proxy_Do w p c))"
proof (cases p)
  case (PH2 idx)
  then show ?thesis
    using PipeTransport_answers[of w TpH2 "c\<lparr>xRequest := h2_prepare c idx\<rparr>"]
    by (cases "PipeTransport w TpH2 (c\<lparr>xRequest := h2_prepare c idx\<rparr>)") (simp add: proxy_Do_def H2Client_Proxy_def)
next
  case (PFile fc)
  then show "proxy_fits p c \<Longrightarrow> ?thesis"
    using FileClient_answers(2)[of w fc c] by (cases "FileClient_Do w fc c") (simp add: proxy_Do_def)
qed (simp_all add: proxy_Do_def ExistProxy_Do_def proxy_fits_def Direct_answers(2) ProxyUp_answers(2))

interpretation node_proxies: proxy_contract "proxies (good_client w)" proxy_fits for w
proof
  fix p c e evs code info
  show "panics evs \<or> answers evs = 1" if "Do (proxies (good_client w)) p c = (None, evs)"
    using that proxy_Do_answers[of w p c] by (auto simp: proxies_def)
  show "answers evs = 0" if "Do (proxies (good_client w)) p c = (Some e, evs)"
    using that proxy_Do_answers[of w p c] by (auto simp: proxies_def)
  show "answers (ProxyHttpErr (proxies (good_client w)) p c code info) = 1"
    "\<not> panics (ProxyHttpErr (proxies (good_client w)) p c code info)"
    by (cases p; simp add: proxies_def proxy_HttpErr_def directProxy_HttpErr_def ExistProxy_HttpErr_def
        H2Proxy_HttpErr_def FileClient_HttpErr_def HttpErr_answers)+
  show "\<not> panics (snd (Do (proxies (good_client w)) p c))" if "proxy_fits p c"
    using proxy_Do_no_panic[OF that] by (simp add: proxies_def)
qed

section \<open>When routing panics\<close>

lemma CanRequest_None: "CanRequest hfs path = None \<longleftrightarrow> path = []"
  by (auto simp: CanRequest_def gfs_Stat_def stat_with_def gz_def split: option.splits)

lemma FileClient_Route_panic:
  "FileClient_Route r c = RoutePanic m \<Longrightarrow> \<not> xConnect c \<and> uPath (rqURL (xRequest c)) = []"
  by (auto simp: FileClient_Route_def Let_def CanRequest_None split: option.splits if_splits)

lemma ip_loop_cases:
  "IPNetRouter_Route r c = (if list_ex (\<lambda>i. IP_Equal i (xIP c)) (nIPs r) \<or> list_ex (\<lambda>n. IPNet_Contains n (xIP c)) (nNets r)
     then matched_route r c else route_opt (nUnmatched r))"
proof -
  have n: "net_loop r c ns = (if list_ex (\<lambda>n. IPNet_Contains n (xIP c)) ns then matched_route r c else route_opt (nUnmatched r))" for ns
    by (induction ns) auto
  have "ip_loop r c is = (if list_ex (\<lambda>i. IP_Equal i (xIP c)) is then matched_route r c else net_loop r c (nNets r))" for "is"
    by (induction "is") auto
  then show ?thesis using n by (simp add: IPNetRouter_Route_def)
qed

lemma route_opt_no_panic [simp]: "route_opt p \<noteq> RoutePanic m"
  by (simp add: route_opt_def split: option.splits)

lemma router_no_panic:
  assumes "xConnect c \<or> uPath (rqURL (xRequest c)) \<noteq> []"
  shows "first_decision (routers ab) rs c \<noteq> RoutePanic m"
proof (induction rs)
  case (Cons r rs)
  have "decides (routers ab) r c \<noteq> RoutePanic m"
  proof (cases r)
    case (RIPNet n)
    have "matched_route n c \<noteq> RoutePanic m"
      using FileClient_Route_panic[of "nFileClient n" c] assms by (auto simp: matched_route_def split: route_result.splits)
    then show ?thesis using RIPNet by (simp add: decides_def routers_def router_Route_def ip_loop_cases)
  qed (simp add: decides_def routers_def router_Route_def AdpRouter_Route_def case_prod_unfold)
  then show ?case using Cons by (cases "decides (routers ab) r c") auto
qed simp

section \<open>Properties\<close>

text \<open>
  C9: a request that came over a plain connection, has a header map and, unless it is a CONNECT, a path that is not empty, and whose client
  takes what is written to it, is answered exactly once and does not make the node panic, whatever its host name, the
  configuration of the node, and the answers of the outside. Without a path it can make the node panic (\<open>empty_path_panics\<close> below).
\<close>

theorem conn_request_answered_once:
  assumes "xWriter c" "rqHeader (xRequest c) \<noteq> None" "xConnect c \<or> uPath (rqURL (xRequest c)) \<noteq> []"
    and "ClientWrite w = (\<lambda>_. None)"
  shows "answers (fst (Core_Proxy (routers ab) (proxies w) k c)) = 1 \<and>
    \<not> panics (fst (Core_Proxy (routers ab) (proxies w) k c))"
proof -
  have w: "good_client w = w" using assms(4) by simp
  have fits: "proxy_fits p c" for p using assms(1,2) by (simp add: proxy_fits_def split: proxy.splits)
  have "\<not> panics (fst (Core_Proxy (routers ab) (proxies (good_client w)) k c))"
    using node_proxies.Core_Proxy_no_panic[OF router_no_panic[OF assms(3)] node_routers.router_contract_axioms] fits by blast
  then show ?thesis using node_proxies.Core_Proxy_answers[of "routers ab" w k c] unfolding w by blast
qed

definition example_ctx :: Context where
  "example_ctx = \<lparr>xRW = False, xWriter = True, xRequest = \<lparr>rqMethod = ''GET'',
       rqURL = \<lparr>uScheme = ''http'', uHost = ''a.com'', uPath = ''/'', uRawQuery = []\<rparr>, rqHost = ''a.com'',
       rqHeader = Some [(''Accept'', [''*''])], rqBody = NoBody, rqContentLength = 0, rqRequestURI = [], rqClose = False,
       rqProto = (1, 1)\<rparr>,
     xUnsafeReader = ReadConn, xConnect = False, xHostPort = ''a.com:80'', xHostNoPort = ''a.com'', xPort = ''80'',
     xHasPort = True, xIP = [], xDialHostPort = ''a.com:80'', xDomain = zero_domain\<lparr>DialHostname := ''a.com''\<rparr>\<rparr>"

definition quiet_world :: world where
  "quiet_world = \<lparr>toASCII = Inr, ParseIP = (\<lambda>_. []), Dial = (\<lambda>_. Some ''refused''), RoundTrip = (\<lambda>_ _. Inl ''none''),
     ReadResponse = (\<lambda>_. Inl ''none''), ClientWrite = (\<lambda>_. None)\<rparr>"

definition no_rules :: "(unit, unit) adblock" where
  "no_rules = \<lparr>NewMatcher = (), ParseRules = (\<lambda>_ _. Inr []), AddRule = (\<lambda>_ _. None), Match = (\<lambda>_ u. Inr (u = ''http://ads.com''))\<rparr>"

theorem conn_request_answered_once_witness:
  "answers (fst (Core_Proxy (routers no_rules) (proxies quiet_world)
     \<lparr>Routers = [], Proxies = (\<lambda>_. None), LocalServers = None\<rparr> example_ctx)) = 1"
  using conn_request_answered_once[of example_ctx quiet_world no_rules "\<lparr>Routers = [], Proxies = (\<lambda>_. None), LocalServers = None\<rparr>"]
  by (simp add: example_ctx_def quiet_world_def)

text \<open>
  Without a path the node does panic: a request such as \<open>GET http://10.0.0.1 HTTP/1.1\<close> for an address
  of an IP router with a file client makes \<open>gz\<close> slice an empty string.
\<close>

theorem empty_path_panics:
  assumes "\<not> IsHybrid (xDomain c)" "\<not> xConnect c" "uPath (rqURL (xRequest c)) = []"
    and "Routers k = RIPNet n # rest" "\<not> nSkip n" "nFileClient n = Some fc"
    and "\<exists>i\<in>set (nIPs n). IP_Equal i (xIP c)"
  shows "panics (fst (Core_Proxy (routers ab) (proxies w) k c))"
proof -
  have "list_ex (\<lambda>i. IP_Equal i (xIP c)) (nIPs n)" using assms(7) by (simp add: list_ex_iff)
  then have "IPNetRouter_Route n c = RoutePanic slice_panic"
    using assms(2,3,6) CanRequest_None[of "fcHfs fc" "[]"]
    by (simp add: ip_loop_cases matched_route_def FileClient_Route_def Let_def)
  then show ?thesis
    using assms(1,4,5)
    by (simp add: Core_Proxy_def Let_def routeProxy_def routers_def router_Disabled_def router_Route_def panics_panic)
qed

definition example_hfs :: GzipHttpfs where
  "example_hfs = \<lparr>metaInfo = (\<lambda>_. None), gfs = \<lparr>Files = (\<lambda>_. None), FileSystem = example_vfs []\<rparr>\<rparr>"

definition example_ipnet :: IPNetRouter where
  "example_ipnet = \<lparr>nSkip = False, nIPs = [[10, 0, 0, 1]], nNets = [\<lparr>net_IP = [192, 168, 0, 0], net_Mask = [255, 255, 0, 0]\<rparr>],
     nFileClient = Some \<lparr>fcDisabled = False, fcRootZip = ''z'', fcRedirect = None, fcHfs = example_hfs\<rparr>,
     nMatched = Some PDirect, nUnmatched = None\<rparr>"

theorem empty_path_panics_witness:
  "panics (fst (Core_Proxy (routers no_rules) (proxies quiet_world)
     \<lparr>Routers = [RIPNet example_ipnet], Proxies = (\<lambda>_. None), LocalServers = None\<rparr>
     (example_ctx\<lparr>xIP := [10, 0, 0, 1], xRequest := (xRequest example_ctx)\<lparr>rqURL := (rqURL (xRequest example_ctx))\<lparr>uPath := []\<rparr>\<rparr>\<rparr>)))"
  by (rule empty_path_panics[where n = example_ipnet and rest = "[]"])
    (simp_all add: example_ctx_def example_ipnet_def zero_domain_def IP_Equal_def)

text \<open>
  C10: requests do not influence the routing of each other: after any sequence of requests the routers
  of a node, whose caches have changed, still decide every request as at the start.
\<close>

theorem routing_unaffected_by_history:
  "fst (route_pick (routers ab) (fold (\<lambda>c rs. snd (route_pick (routers ab) rs c)) cs rs) c) =
     first_decision (routers ab) rs c"
  unfolding node_routers.route_pick_first by (rule node_routers.routing_independent)

text \<open>
  C36: a new ad-block router blocks a host exactly when a rule matches it, or when it is the address of
  a hosts-file entry whose name a rule matches and this is configured.
\<close>

theorem adp_blocks:
  assumes "NewAdpRouter ab hosts cfg = Inr r"
  shows "fst (Adp_blocked ab r c) \<longleftrightarrow> AdpMatch ab (aMatcher r) (''http://'' @ xHostNoPort c) \<or>
    cEtcHostsIPAsBlocked cfg \<and> (\<exists>h\<in>set hosts. hEnabled h \<and> hValid h \<and> hIP h = xHostNoPort c \<and>
      AdpMatch ab (aMatcher r) (''http://'' @ hDomain h))"
proof -
  have f: "fold (\<lambda>h ips. if P h then ips(hIP h := True) else ips) hosts ips0 x \<longleftrightarrow> ips0 x \<or> (\<exists>h\<in>set hosts. P h \<and> hIP h = x)"
    for P ips0 x by (induction hosts arbitrary: ips0) auto
  obtain m n where "load_all ab True (cB64Rules cfg) (load_all ab False (cTxtRules cfg) (0, NewMatcher ab)) = (n, m)"
    by (cases "load_all ab True (cB64Rules cfg) (load_all ab False (cTxtRules cfg) (0, NewMatcher ab))")
  then show ?thesis
    using assms by (auto simp: NewAdpRouter_def Adp_blocked_eq f split: if_splits)
qed

theorem adp_blocks_witness:
  "\<exists>r. NewAdpRouter (no_rules\<lparr>ParseRules := (\<lambda>_ _. Inr [()]), AddRule := (\<lambda>m _. Some m)\<rparr>)
       [\<lparr>hDomain = ''ads.com'', hIP = ''10.0.0.9'', hEnabled = True, hValid = True\<rparr>]
       \<lparr>cDisabled = False, cBlocked = None, cUnblocked = None, cB64Rules = [], cTxtRules = [[1]], cEtcHostsIPAsBlocked = True\<rparr> = Inr r \<and>
     fst (Adp_blocked (no_rules\<lparr>ParseRules := (\<lambda>_ _. Inr [()]), AddRule := (\<lambda>m _. Some m)\<rparr>) r
       (example_ctx\<lparr>xHostNoPort := ''10.0.0.9''\<rparr>))"
proof -
  let ?ab = "no_rules\<lparr>ParseRules := (\<lambda>_ _. Inr [()]), AddRule := (\<lambda>m _. Some m)\<rparr>"
  let ?hosts = "[\<lparr>hDomain = ''ads.com'', hIP = ''10.0.0.9'', hEnabled = True, hValid = True\<rparr>]"
  let ?cfg = "\<lparr>cDisabled = False, cBlocked = None, cUnblocked = None, cB64Rules = [], cTxtRules = [[1]], cEtcHostsIPAsBlocked = True\<rparr>"
  obtain r where r: "NewAdpRouter ?ab ?hosts ?cfg = Inr r"
    by (simp add: NewAdpRouter_def LoadAbpRules_def no_rules_def)
  show ?thesis
    using adp_blocks[OF r, of "example_ctx\<lparr>xHostNoPort := ''10.0.0.9''\<rparr>"] r
    by (auto simp: AdpMatch_def no_rules_def)
qed

end
