(* ===== verification/Hops.thy ===== *)
theory Hops
  imports Proxies
begin

text \<open>
  A request on its way through several nodes: each node is a \<open>Core\<close> whose HTTP/2 proxies reach the
  next one, which receives the request in \<open>ServeHTTP\<close>. The lemmas follow a request with a hybrid host
  name from the first node to the last, for plain requests and for CONNECT.

  What the HTTP/2 transport and the reverse proxy do to a request on the way is the argument \<open>wire\<close>;
  \<open>wire_ok\<close> is what is relied upon: of a request for an ASCII authority with an absolute path, method, authority and path arrive as
  they were sent, but HTTP/2 sends an empty path as \<open>/\<close> and no path with CONNECT.
\<close>

section \<open>From node to node\<close>

fun forwarded :: "event list \<Rightarrow> request option" where
  "forwarded [] = None"
| "forwarded (e # es) = (case e of
     EvReverse tp r \<Rightarrow> (if tp = TpH2 then Some r else forwarded es)
   | EvRoundTrip tp r \<Rightarrow> (if tp = TpH2 then Some r else forwarded es)
   | _ \<Rightarrow> forwarded es)"

type_synonym 'm node_core = "('m router, proxy) core"

fun follow ::
  "world \<Rightarrow> ('m, 'rule) adblock \<Rightarrow> (request \<Rightarrow> request) \<Rightarrow> (string \<Rightarrow> 'm node_core option) \<Rightarrow> nat \<Rightarrow> event list
     \<Rightarrow> (string list \<times> event list) option" where
  "follow w ab wire net n evs = (case forwarded evs of
     None \<Rightarrow> Some ([], evs)
   | Some r \<Rightarrow> (case net (uHost (rqURL r)) of
       None \<Rightarrow> Some ([], evs)
     | Some k \<Rightarrow> (case n of 0 \<Rightarrow> None
         | Suc m \<Rightarrow> map_option (\<lambda>(ns, e). (uHost (rqURL r) # ns, e))
             (follow w ab wire net m (fst (ServeHTTP w (routers ab) (proxies w) k (wire r)))))))"

declare follow.simps [simp del]

section \<open>One node\<close>

definition ascii :: "string \<Rightarrow> bool" where
  "ascii s = list_all (\<lambda>c. (of_char c :: nat) < 128) s"

text \<open>The path that arrives.\<close>

definition wire_path :: "string \<Rightarrow> string \<Rightarrow> string" where
  "wire_path m path = (if m = ''CONNECT'' then [] else if path = [] then ''/'' else path)"

text \<open>An absolute path or none; for CONNECT it does not matter.\<close>

definition path_ok :: "string \<Rightarrow> string \<Rightarrow> bool" where
  "path_ok m path \<longleftrightarrow> m = ''CONNECT'' \<or> path = [] \<or> hd path = CHR ''/''"

definition wire_ok :: "(request \<Rightarrow> request) \<Rightarrow> bool" where
  "wire_ok wire \<longleftrightarrow> (\<forall>r. ascii (rqHost r) \<and> path_ok (rqMethod r) (uPath (rqURL r)) \<longrightarrow>
     rqMethod (wire r) = rqMethod r \<and> rqHost (wire r) = rqHost r \<and>
     uPath (rqURL (wire r)) = wire_path (rqMethod r) (uPath (rqURL r)) \<and> (\<not> upgrades r \<longrightarrow> \<not> upgrades (wire r)))"

lemma wire_path_idem: "wire_path m (wire_path m path) = wire_path m path"
  by (simp add: wire_path_def)

lemma path_ok_wire: "path_ok m path \<Longrightarrow> path_ok m (wire_path m path)"
  by (auto simp: path_ok_def wire_path_def)

definition default_port :: "string \<Rightarrow> string" where
  "default_port scheme = (if scheme = ''https'' then ''443'' else ''80'')"

text \<open>A request a node may receive for hop \<open>k\<close>, with or without the default port.\<close>

definition addressed :: "string \<Rightarrow> string \<Rightarrow> string \<Rightarrow> request \<Rightarrow> bool" where
  "addressed h scheme port r \<longleftrightarrow> (scheme = ''http'' \<or> scheme = ''https'') \<and>
     (if rqMethod r = ''CONNECT'' then rqHost r = h @ '':'' @ port \<and> uScheme (rqURL r) \<noteq> ''https'' \<and> scheme = ''http''
      else \<not> upgrades r \<and> uScheme (rqURL r) = scheme \<and>
        (rqHost r = h @ '':'' @ port \<or> rqHost r = h \<and> port = default_port scheme))"

definition port_ok :: "string \<Rightarrow> request \<Rightarrow> bool" where
  "port_ok port r \<longleftrightarrow> port \<noteq> [] \<and> plain_part port \<and> ascii port \<and> (rqMethod r = ''CONNECT'' \<longrightarrow> port \<noteq> ''80'')"

lemma plain_part_append: "plain_part (a @ b) \<longleftrightarrow> plain_part a \<and> plain_part b"
  by (auto simp: plain_part_def)

lemma plain_part_Join: "plain_part sep \<Longrightarrow> \<forall>x\<in>set xs. plain_part x \<Longrightarrow> plain_part (Join sep xs)"
proof (induction sep xs rule: Join.induct)
  case (3 sep x y xs)
  then show ?case by (simp add: plain_part_append)
qed (simp_all add: plain_part_def)

lemma IsHybridName_plain: "IsHybridName n \<Longrightarrow> plain_part n"
  using IsHybridName_chars[of n] by (fastforce simp: plain_part_def name_alnum_def)

lemma hop_host_plain:
  assumes "route_ok dial over rs" "plain_part dial" "k \<le> length rs"
  shows "plain_part (hop_host dial over rs k)"
proof -
  have names: "\<forall>n\<in>set rs. plain_part n" using assms(1) IsHybridName_plain by (auto simp: route_ok_def list_all_iff)
  have "\<forall>n\<in>set (marked rs k). plain_part n"
  proof (cases k)
    case (Suc j)
    then have "plain_part (CHR ''-'' # rs ! j)" using names assms(3) by (simp add: plain_part_def)
    then show ?thesis
      using Suc names by (auto simp: marked_def dest!: set_update_subset_insert[THEN subsetD])
  qed (use names in \<open>simp add: marked_def\<close>)
  then show ?thesis
    using assms(2) by (auto simp: hop_host_def plain_part_append tag_of_eq HybridSuffix_def plain_part_def
        intro!: plain_part_Join[unfolded plain_part_def])
qed

text \<open>\<open>idna.ToASCII\<close> leaves ASCII names alone, or reports an error.\<close>

definition idna_ok :: "world \<Rightarrow> bool" where
  "idna_ok w \<longleftrightarrow> (\<forall>h. ascii h \<longrightarrow> toASCII w h = Inr h \<or> (\<exists>e. toASCII w h = Inl e))"

lemma hop_host_ascii:
  assumes "route_ok dial over rs" "ascii dial" "k \<le> length rs"
  shows "ascii (hop_host dial over rs k)"
proof -
  have name: "ascii n" if "IsHybridName n" for n
    using IsHybridName_chars[OF that] unfolding ascii_def list_all_iff
    by (fastforce simp: name_alnum_def Let_def)
  have join: "\<forall>x\<in>set xs. ascii x \<Longrightarrow> ascii (Join ''.'' xs)" for xs
    by (induction "''.''" xs rule: Join.induct) (simp_all add: ascii_def)
  have names: "\<forall>n\<in>set rs. ascii n" using assms(1) name by (auto simp: route_ok_def list_all_iff)
  have "\<forall>n\<in>set (marked rs k). ascii n"
  proof (cases k)
    case (Suc j)
    then have "ascii (CHR ''-'' # rs ! j)" using names assms(3) by (simp add: ascii_def)
    then show ?thesis
      using Suc names by (auto simp: marked_def dest!: set_update_subset_insert[THEN subsetD])
  qed (use names in \<open>simp add: marked_def\<close>)
  then have "ascii (Join ''.'' (marked rs k))" by (rule join)
  then show ?thesis using assms(2) by (auto simp: hop_host_def tag_of_eq HybridSuffix_def ascii_def)
qed

lemma AuthorityAddrFull_host:
  assumes "plain_part h" "h \<noteq> []" "ascii h" "idna_ok w" "plain_part port" "scheme = ''http'' \<or> scheme = ''https''"
    and "a = h @ '':'' @ port \<or> a = h \<and> port = default_port scheme"
  shows "AuthorityAddrFull (toASCII w) scheme a = (JoinHostPort h port, h, port)"
proof -
  have id: "(case toASCII w h of Inr a \<Rightarrow> a | Inl _ \<Rightarrow> h) = h" using assms(3,4) by (auto simp: idna_ok_def)
  have br: "\<not> HasPrefix h ''[''" using assms(1,2) by (cases h) (auto simp: plain_part_def)
  have "SplitHostPort h = Inl MissingPort" using assms(1) SplitHostPort_no_colon by (simp add: plain_part_def)
  moreover have "SplitHostPort (h @ '':'' @ port) = Inr (h, port)" using SplitHostPort_plain[OF assms(1,5)] by simp
  ultimately show ?thesis
    using assms(6,7) id br unfolding AuthorityAddrFull_def by (auto simp: Let_def default_port_def)
qed

abbreviation hop_domain :: "string \<Rightarrow> bool \<Rightarrow> string list \<Rightarrow> nat \<Rightarrow> domain" where
  "hop_domain dial over rs k \<equiv>
     \<lparr>IsHybrid = True, IsOver = over, DialHostname = dial,
      Next = (if k < length rs then rs ! k else []), IsBegin = (k = 0), IsEnd = (k = length rs),
      NextHostname = (if k < length rs then hop_host dial over rs (Suc k)
                      else if over then dial else hop_host dial over rs 0)\<rparr>"

text \<open>What a node knows about a request for hop \<open>k\<close>.\<close>

definition at_hop ::
  "string \<Rightarrow> bool \<Rightarrow> string list \<Rightarrow> nat \<Rightarrow> string \<Rightarrow> string \<Rightarrow> string \<times> string \<Rightarrow> Context \<Rightarrow> bool" where
  "at_hop dial over rs k scheme port mp c \<longleftrightarrow>
     xConnect c = (fst mp = ''CONNECT'') \<and> xHostNoPort c = hop_host dial over rs k \<and> xPort c = port \<and>
     xDomain c = hop_domain dial over rs k \<and> xDialHostPort c = dial @ '':'' @ port \<and>
     rqHost (xRequest c) = NextHostname (hop_domain dial over rs k) @ '':'' @ port \<and>
     rqMethod (xRequest c) = fst mp \<and> uPath (rqURL (xRequest c)) = snd mp \<and>
     (scheme = ''http'' \<or> scheme = ''https'') \<and> (fst mp = ''CONNECT'' \<longrightarrow> port \<noteq> ''80'') \<and>
     (if fst mp = ''CONNECT'' then uScheme (rqURL (xRequest c)) \<noteq> ''https'' \<and> scheme = ''http''
      else \<not> upgrades (xRequest c) \<and> uScheme (rqURL (xRequest c)) = scheme)"

lemma upgrades_header: "rqHeader r = rqHeader r' \<Longrightarrow> upgrades r = upgrades r'"
  by (simp add: upgrades_def)

lemma newContext_hop:
  assumes route: "route_ok dial over rs" "plain_part dial" "ascii dial" "k \<le> length rs" and idna: "idna_ok w"
    and r: "addressed (hop_host dial over rs k) scheme port r" "port_ok port r"
  shows "\<exists>c. newContext w r resp conn = Inr c \<and> xRW c = (resp \<noteq> None) \<and> xWriter c = (conn \<or> resp = Some True) \<and>
    at_hop dial over rs k scheme port (rqMethod r, uPath (rqURL r)) c"
proof -
  let ?h = "hop_host dial over rs k"
  have h: "plain_part ?h" "ascii ?h" "?h \<noteq> []" using hop_host_plain[OF route(1,2,4)] hop_host_ascii[OF route(1,3,4)]
    by (simp_all add: hop_host_def tag_of_eq)
  have port: "plain_part port" "port \<noteq> []" using r(2) by (simp_all add: port_ok_def)
  have host: "rqHost r \<noteq> []" using r(1) h(3) by (auto simp: addressed_def split: if_splits)
  note nd = NewDomain_hop[OF route(1,4)]
  have sp: "SplitHostPort (?h @ '':'' @ port) = Inr (?h, port)" using SplitHostPort_plain[OF h(1) port(1)] by simp
  show ?thesis
  proof (cases "rqMethod r = ''CONNECT''")
    case True
    then have "rqHost r = ?h @ '':'' @ port" "uScheme (rqURL r) \<noteq> ''https''" "scheme = ''http''" "port \<noteq> ''80''"
      using r by (simp_all add: addressed_def port_ok_def)
    then show ?thesis
      using True host nd sp unfolding newContext_def
      by (simp add: Let_def parseHostPortIP_def parseDomain_def adjustRequestAndDialHost_def at_hop_def del: append_Cons append_Nil)
  next
    case False
    then have nu: "\<not> upgrades r" and sch: "uScheme (rqURL r) = scheme" "scheme = ''http'' \<or> scheme = ''https''"
      and hh: "rqHost r = ?h @ '':'' @ port \<or> rqHost r = ?h \<and> port = default_port scheme"
      using r(1) by (simp_all add: addressed_def)
    have aa: "AuthorityAddrFull (toASCII w) scheme (rqHost r) = (JoinHostPort ?h port, ?h, port)"
      by (rule AuthorityAddrFull_host[OF h(1,3,2) idna port(1) sch(2) hh])
    have "scheme \<noteq> []" using sch(2) by auto
    then show ?thesis
      using False host nd port(2) aa nu unfolding newContext_def
      by (simp add: Let_def parseHostPortIP_def parseDomain_def adjustRequestAndDialHost_def sch(1) at_hop_def upgrades_def)
        (use sch(2) in auto)
  qed
qed

section \<open>One hop\<close>

lemma upgrades_Header_del: "rqHeader r' = Some (Header_del k h) \<Longrightarrow> rqHeader r = Some h \<Longrightarrow> \<not> upgrades r \<Longrightarrow> \<not> upgrades r'"
  by (auto simp: upgrades_def Header_del_def list_ex_iff)

lemma h2_prepare_upgrades: "\<not> upgrades (xRequest c) \<Longrightarrow> \<not> upgrades (h2_prepare c idx)"
  by (cases "rqHeader (xRequest c)")
    (auto simp: h2_prepare_def Let_def upgrades_def Header_del_def list_ex_iff)

lemma forwarded_h2: "forwarded (context_proxy (proxies w) (PH2 idx) c) = Some (h2_prepare c idx)"
  by (auto simp: context_proxy_def proxies_def proxy_Do_def H2Client_Proxy_def PipeTransport_def Let_def
      ReverseToResponse_def split: sum.splits)

lemma forward_hop:
  assumes c: "at_hop dial over rs k scheme port mp c" "k < length rs"
    and p: "Proxies core (rs ! k) = Some (PH2 (rs ! k))"
  shows "\<exists>r. forwarded (fst (Core_Proxy (routers ab) (proxies w) core c)) = Some r \<and> uHost (rqURL r) = rs ! k \<and>
    rqHost r = (if scheme = ''https'' then HostHttpsPrefix else HostHttpPrefix) # hop_host dial over rs (Suc k) @ '':'' @ port \<and>
    rqMethod r = fst mp \<and> uPath (rqURL r) = snd mp \<and> (fst mp \<noteq> ''CONNECT'' \<longrightarrow> \<not> upgrades r)"
proof -
  have "Core_Proxy (routers ab) (proxies w) core c = (context_proxy (proxies w) (PH2 (rs ! k)) c, core)"
    using c p by (simp add: Core_Proxy_def at_hop_def Let_def)
  moreover have "uHost (rqURL (h2_prepare c (rs ! k))) = rs ! k" "rqMethod (h2_prepare c (rs ! k)) = fst mp"
    "uPath (rqURL (h2_prepare c (rs ! k))) = snd mp"
    "rqHost (h2_prepare c (rs ! k)) =
      (if scheme = ''https'' then HostHttpsPrefix else HostHttpPrefix) # hop_host dial over rs (Suc k) @ '':'' @ port"
    using c by (auto simp: h2_prepare_def Let_def at_hop_def split: if_splits)
  moreover have "fst mp \<noteq> ''CONNECT'' \<longrightarrow> \<not> upgrades (h2_prepare c (rs ! k))"
    using c(1) h2_prepare_upgrades by (auto simp: at_hop_def)
  ultimately show ?thesis using forwarded_h2 by simp
qed

lemma TrimSuffix_port:
  assumes "plain_part port" "plain_part p"
  shows "TrimSuffix (h @ '':'' @ port) ('':'' @ p) = (if port = p then h else h @ '':'' @ port)"
proof -
  have "HasSuffix (h @ CHR '':'' # port) (CHR '':'' # p) \<longleftrightarrow> port = p"
  proof
    assume "HasSuffix (h @ CHR '':'' # port) (CHR '':'' # p)"
    then obtain z where z: "h @ CHR '':'' # port = z @ CHR '':'' # p" by (auto simp: suffix_def)
    have n: "CHR '':'' \<notin> set port" "CHR '':'' \<notin> set p" using assms by (simp_all add: plain_part_def)
    have "takeWhile (\<lambda>c. c \<noteq> CHR '':'') (rev (h @ CHR '':'' # port)) = rev port"
      "takeWhile (\<lambda>c. c \<noteq> CHR '':'') (rev (z @ CHR '':'' # p)) = rev p"
      using n by (simp_all add: takeWhile_append takeWhile_eq_all_conv)
    then show "port = p" using z by simp
  qed (simp add: suffix_def)
  then show ?thesis by (simp add: TrimSuffix_def)
qed

lemma ServeHTTP_hop:
  assumes host: "rqHost r = (if scheme = ''https'' then HostHttpsPrefix else HostHttpPrefix) # h @ '':'' @ port"
    and s: "scheme = ''http'' \<or> scheme = ''https''" and port: "plain_part port"
    and m: "if rqMethod r = ''CONNECT'' then port \<noteq> ''80'' \<and> scheme = ''http'' else \<not> upgrades r"
    and ctx: "\<And>r'. addressed h scheme port r' \<Longrightarrow> rqMethod r' = rqMethod r \<Longrightarrow> uPath (rqURL r') = uPath (rqURL r) \<Longrightarrow>
      newContext w r' (Some False) False = Inr (c r')"
  shows "\<exists>r'. addressed h scheme port r' \<and> rqMethod r' = rqMethod r \<and> uPath (rqURL r') = uPath (rqURL r) \<and>
    ServeHTTP w ops ps k r = Core_Proxy ops ps k (c r')"
proof -
  let ?t = "if port = default_port scheme then h else h @ '':'' @ port"
  let ?r = "r\<lparr>rqURL := (rqURL r)\<lparr>uHost := ?t, uScheme := scheme\<rparr>, rqProto := (1, 1), rqHost := ?t\<rparr>"
  have t: "TrimSuffix (h @ '':'' @ port) '':80'' = (if port = ''80'' then h else h @ '':'' @ port)"
    "TrimSuffix (h @ '':'' @ port) '':443'' = (if port = ''443'' then h else h @ '':'' @ port)"
    using TrimSuffix_port[OF port, of "''80''"] TrimSuffix_port[OF port, of "''443''"] by (simp_all add: plain_part_def)
  have up: "upgrades ?r = upgrades r" by (simp add: upgrades_def)
  have ad: "addressed h scheme port ?r" "rqMethod ?r = rqMethod r" "uPath (rqURL ?r) = uPath (rqURL r)"
    using m s up by (auto simp: addressed_def default_port_def split: if_splits)
  have "ServeHTTP w ops ps k r = (case NewContextFromHandler w False ?r of
      Inl e \<Rightarrow> ([EvErrRW (HttpErr_WriteResponse \<lparr>Code = 400, ClientType = ''Hybrid'', ClientName = ''CTX'',
        TargetHost = ?t, Info = ctx_error_text e\<rparr>)], k) | Inr c \<Rightarrow> Core_Proxy ops ps k c)"
    using s host t by (auto simp: ServeHTTP_def Let_def HostHttpsPrefix_def HostHttpPrefix_def default_port_def)
  then have "ServeHTTP w ops ps k r = Core_Proxy ops ps k (c ?r)"
    using ctx[OF ad] by (simp add: NewContextFromHandler_def)
  then show ?thesis using ad by blast
qed

section \<open>The whole route\<close>

text \<open>
  The nodes of the route exist, and each knows the next by its name as an HTTP/2 proxy; \<open>core0\<close> is the
  node the client talks to.
\<close>

definition node_at :: "'m node_core \<Rightarrow> (string \<Rightarrow> 'm node_core option) \<Rightarrow> string list \<Rightarrow> nat \<Rightarrow> 'm node_core" where
  "node_at core0 net rs i = (case i of 0 \<Rightarrow> core0 | Suc j \<Rightarrow> (case net (rs ! j) of Some k \<Rightarrow> k | None \<Rightarrow> core0))"

definition linked :: "'m node_core \<Rightarrow> (string \<Rightarrow> 'm node_core option) \<Rightarrow> string list \<Rightarrow> bool" where
  "linked core0 net rs \<longleftrightarrow> (\<forall>i < length rs. net (rs ! i) \<noteq> None \<and>
     Proxies (node_at core0 net rs i) (rs ! i) = Some (PH2 (rs ! i)))"

lemma hop_step:
  assumes route: "route_ok dial over rs" "plain_part dial" "ascii dial" and idna: "idna_ok w"
    and port: "plain_part port" "port \<noteq> []" "ascii port" and wire: "wire_ok wire" and linked: "linked core0 net rs"
    and k: "k < length rs" and c: "at_hop dial over rs k scheme port mp c" "path_ok (fst mp) (snd mp)"
  shows "\<exists>c'. at_hop dial over rs (Suc k) scheme port (fst mp, wire_path (fst mp) (snd mp)) c' \<and> xRW c' \<and> \<not> xWriter c' \<and>
    (\<forall>n. follow w ab wire net (Suc n) (fst (Core_Proxy (routers ab) (proxies w) (node_at core0 net rs k) c)) =
      map_option (\<lambda>(ns, e). (rs ! k # ns, e))
        (follow w ab wire net n (fst (Core_Proxy (routers ab) (proxies w) (node_at core0 net rs (Suc k)) c'))))"
proof -
  have link: "net (rs ! k) = Some (node_at core0 net rs (Suc k))"
    "Proxies (node_at core0 net rs k) (rs ! k) = Some (PH2 (rs ! k))"
    using linked k by (auto simp: linked_def node_at_def)
  obtain r where r: "forwarded (fst (Core_Proxy (routers ab) (proxies w) (node_at core0 net rs k) c)) = Some r"
    "uHost (rqURL r) = rs ! k" "rqMethod r = fst mp" "uPath (rqURL r) = snd mp" "fst mp \<noteq> ''CONNECT'' \<longrightarrow> \<not> upgrades r"
    "rqHost r = (if scheme = ''https'' then HostHttpsPrefix else HostHttpPrefix) # hop_host dial over rs (Suc k) @ '':'' @ port"
    using forward_hop[OF c(1) k link(2)] by blast
  let ?h = "hop_host dial over rs (Suc k)"
  have s: "scheme = ''http'' \<or> scheme = ''https''" and cp: "fst mp = ''CONNECT'' \<Longrightarrow> port \<noteq> ''80'' \<and> scheme = ''http''"
    using c(1) by (auto simp: at_hop_def)
  have "ascii (rqHost r)"
    using hop_host_ascii[OF route(1,3), of "Suc k"] k port(3) r(6)
    by (auto simp: ascii_def HostHttpsPrefix_def HostHttpPrefix_def)
  then have wr: "rqHost (wire r) = rqHost r" "rqMethod (wire r) = fst mp" "uPath (rqURL (wire r)) = wire_path (fst mp) (snd mp)"
    "fst mp \<noteq> ''CONNECT'' \<longrightarrow> \<not> upgrades (wire r)"
    using wire r(3-5) c(2) by (auto simp: wire_ok_def)
  define ctx where "ctx r' = (SOME c'. newContext w r' (Some False) False = Inr c' \<and> xRW c' \<and> \<not> xWriter c' \<and>
      at_hop dial over rs (Suc k) scheme port (rqMethod r', uPath (rqURL r')) c')" for r'
  have ctx: "newContext w r' (Some False) False = Inr (ctx r') \<and> xRW (ctx r') \<and> \<not> xWriter (ctx r') \<and>
      at_hop dial over rs (Suc k) scheme port (fst mp, wire_path (fst mp) (snd mp)) (ctx r')"
    if "addressed ?h scheme port r'" "rqMethod r' = rqMethod (wire r)" "uPath (rqURL r') = uPath (rqURL (wire r))" for r'
  proof -
    have "port_ok port r'" using port cp that(2) wr(2) by (auto simp: port_ok_def)
    from newContext_hop[OF route _ idna that(1) this, of "Some False" False] k
    have "\<exists>c'. newContext w r' (Some False) False = Inr c' \<and> xRW c' \<and> \<not> xWriter c' \<and>
      at_hop dial over rs (Suc k) scheme port (rqMethod r', uPath (rqURL r')) c'" by auto
    from someI_ex[OF this, folded ctx_def] show ?thesis using that wr(2,3) by simp
  qed
  have m: "if rqMethod (wire r) = ''CONNECT'' then port \<noteq> ''80'' \<and> scheme = ''http'' else \<not> upgrades (wire r)"
    using wr cp by auto
  have "\<exists>r'. addressed ?h scheme port r' \<and> rqMethod r' = rqMethod (wire r) \<and> uPath (rqURL r') = uPath (rqURL (wire r)) \<and>
      ServeHTTP w (routers ab) (proxies w) (node_at core0 net rs (Suc k)) (wire r) =
      Core_Proxy (routers ab) (proxies w) (node_at core0 net rs (Suc k)) (ctx r')"
    by (rule ServeHTTP_hop[OF _ s port(1) m]) (use r(6) wr(1) ctx in auto)
  then obtain r' where r': "addressed ?h scheme port r'" "rqMethod r' = rqMethod (wire r)" "uPath (rqURL r') = uPath (rqURL (wire r))"
      "ServeHTTP w (routers ab) (proxies w) (node_at core0 net rs (Suc k)) (wire r) =
        Core_Proxy (routers ab) (proxies w) (node_at core0 net rs (Suc k)) (ctx r')"
    by blast
  have "follow w ab wire net (Suc n) (fst (Core_Proxy (routers ab) (proxies w) (node_at core0 net rs k) c)) =
      map_option (\<lambda>(ns, e). (rs ! k # ns, e))
        (follow w ab wire net n (fst (Core_Proxy (routers ab) (proxies w) (node_at core0 net rs (Suc k)) (ctx r'))))" for n
    by (subst follow.simps) (simp add: r(1,2) link(1) r'(4))
  then show ?thesis using ctx[OF r'(1-3)] by blast
qed

lemma follow_route:
  assumes route: "route_ok dial over rs" "plain_part dial" "ascii dial" and idna: "idna_ok w"
    and port: "plain_part port" "port \<noteq> []" "ascii port" and wire: "wire_ok wire" and linked: "linked core0 net rs"
    and k: "k \<le> length rs" and c: "at_hop dial over rs k scheme port mp c" "path_ok (fst mp) (snd mp)"
  shows "\<exists>c'. at_hop dial over rs (length rs) scheme port (if k = length rs then mp else (fst mp, wire_path (fst mp) (snd mp))) c' \<and>
    (\<forall>n. follow w ab wire net (length rs - k + n) (fst (Core_Proxy (routers ab) (proxies w) (node_at core0 net rs k) c)) =
      map_option (\<lambda>(ns, e). (drop k rs @ ns, e))
        (follow w ab wire net n (fst (Core_Proxy (routers ab) (proxies w) (node_at core0 net rs (length rs)) c'))))"
  using k c
proof (induction "length rs - k" arbitrary: k c mp)
  case 0
  then show ?case by (intro exI[of _ c]) (simp add: option.map_ident_strong case_prod_unfold)
next
  case (Suc j)
  then have lt: "k < length rs" by simp
  let ?mp = "(fst mp, wire_path (fst mp) (snd mp))"
  obtain c1 where c1: "at_hop dial over rs (Suc k) scheme port ?mp c1"
    "\<And>n. follow w ab wire net (Suc n) (fst (Core_Proxy (routers ab) (proxies w) (node_at core0 net rs k) c)) =
      map_option (\<lambda>(ns, e). (rs ! k # ns, e))
        (follow w ab wire net n (fst (Core_Proxy (routers ab) (proxies w) (node_at core0 net rs (Suc k)) c1)))"
    using hop_step[OF route idna port wire linked lt Suc.prems(2,3)] by blast
  have e: "(if Suc k = length rs then ?mp else (fst ?mp, wire_path (fst ?mp) (snd ?mp))) = ?mp" by (simp add: wire_path_idem)
  have j: "j = length rs - Suc k" using Suc.hyps(2) by simp
  obtain c' where c': "at_hop dial over rs (length rs) scheme port ?mp c'"
    "\<And>n. follow w ab wire net (length rs - Suc k + n) (fst (Core_Proxy (routers ab) (proxies w) (node_at core0 net rs (Suc k)) c1)) =
      map_option (\<lambda>(ns, e). (drop (Suc k) rs @ ns, e))
        (follow w ab wire net n (fst (Core_Proxy (routers ab) (proxies w) (node_at core0 net rs (length rs)) c')))"
    using Suc.hyps(1)[OF j _ c1(1), unfolded e] lt path_ok_wire[OF Suc.prems(3)] by auto
  have "follow w ab wire net (length rs - k + n) (fst (Core_Proxy (routers ab) (proxies w) (node_at core0 net rs k) c)) =
      map_option (\<lambda>(ns, e). (drop k rs @ ns, e))
        (follow w ab wire net n (fst (Core_Proxy (routers ab) (proxies w) (node_at core0 net rs (length rs)) c')))" for n
  proof -
    have "length rs - k + n = Suc (length rs - Suc k + n)" using lt by simp
    then show ?thesis
      using c1(2)[of "length rs - Suc k + n"] c'(2)[of n] lt
      by (simp add: option.map_comp o_def case_prod_unfold Cons_nth_drop_Suc[symmetric])
  qed
  then show ?case using c'(1) lt by auto
qed

section \<open>Properties\<close>

text \<open>
  C1: a request for \<open>dial.over.r1.\<dots>.rn.hybrid\<close> (or \<open>with\<close>) that enters at a node is passed on through the
  nodes \<open>r1, \<dots>, rn\<close> in this order, each of which only needs to know the next one, and then is handled by
  the last one as a request for \<open>dial\<close> at the port the client asked for: it dials \<open>dial:port\<close> (or asks
  its routers) with \<open>over\<close>, and serves its local server \<open>dial\<close>. Method and scheme are those of the client, and so is the path,
  except that a hop turns an empty path into \<open>/\<close> and does not carry the path of a CONNECT. Not covered are requests
  that ask for an upgrade, and a CONNECT to port 80, which the first hop answers with an error (\<open>connect_port_80_rejected\<close>).
\<close>

theorem multi_hop_delivery:
  assumes "route_ok dial over rs" "plain_part dial" "ascii dial" "idna_ok w" "wire_ok wire" "linked core0 net rs"
    and "addressed (hop_host dial over rs 0) scheme port r" "port_ok port r"
    and "path_ok (rqMethod r) (uPath (rqURL r))" and "newContext w r resp conn = Inr c0"
  shows "\<exists>c. xHostNoPort c = hop_host dial over rs (length rs) \<and> xDialHostPort c = dial @ '':'' @ port \<and>
    IsEnd (xDomain c) \<and> IsOver (xDomain c) = over \<and> DialHostname (xDomain c) = dial \<and>
    rqHost (xRequest c) = (if over then dial else hop_host dial over rs 0) @ '':'' @ port \<and>
    rqMethod (xRequest c) = rqMethod r \<and>
    uPath (rqURL (xRequest c)) = (if rs = [] then uPath (rqURL r) else wire_path (rqMethod r) (uPath (rqURL r))) \<and>
    xConnect c = (rqMethod r = ''CONNECT'') \<and> (rqMethod r \<noteq> ''CONNECT'' \<longrightarrow> uScheme (rqURL (xRequest c)) = scheme) \<and>
    (\<forall>n. follow w ab wire net (length rs + n) (fst (Core_Proxy (routers ab) (proxies w) core0 c0)) =
      map_option (\<lambda>(ns, e). (rs @ ns, e))
        (follow w ab wire net n (fst (Core_Proxy (routers ab) (proxies w) (node_at core0 net rs (length rs)) c))))"
proof -
  have port: "plain_part port" "port \<noteq> []" "ascii port" using assms(8) by (simp_all add: port_ok_def)
  have c0: "at_hop dial over rs 0 scheme port (rqMethod r, uPath (rqURL r)) c0"
    using newContext_hop[OF assms(1-3) _ assms(4,7,8), of resp conn] assms(10) by auto
  have n0: "node_at core0 net rs 0 = core0" by (simp add: node_at_def)
  let ?mp = "(rqMethod r, uPath (rqURL r))"
  obtain c where "at_hop dial over rs (length rs) scheme port (if rs = [] then ?mp else (fst ?mp, wire_path (fst ?mp) (snd ?mp))) c"
    "\<forall>n. follow w ab wire net (length rs + n) (fst (Core_Proxy (routers ab) (proxies w) core0 c0)) =
      map_option (\<lambda>(ns, e). (rs @ ns, e))
        (follow w ab wire net n (fst (Core_Proxy (routers ab) (proxies w) (node_at core0 net rs (length rs)) c)))"
    using follow_route[OF assms(1-4) port assms(5,6) _ c0, of ab] assms(9) unfolding n0 by auto
  then show ?thesis by (intro exI[of _ c]) (auto simp: at_hop_def split: if_splits)
qed

lemma forwarded_direct: "forwarded (context_proxy (proxies w) PDirect c) = None"
  by (auto simp: context_proxy_def proxies_def proxy_Do_def proxy_HttpErr_def directProxy_HttpErr_def HttpErr_def
      Direct_def ReverseToResponse_def Let_def writeConncectOK_def copyFromRemote_def split: option.splits)

text \<open>Two nodes and a client, for examples.\<close>

definition example_world :: world where
  "example_world = \<lparr>toASCII = Inr, ParseIP = (\<lambda>_. []), Dial = (\<lambda>_. None), RoundTrip = (\<lambda>_ _. Inl ''none''),
     ReadResponse = (\<lambda>_. Inl ''none''), ClientWrite = (\<lambda>_. None)\<rparr>"

definition example_adblock :: "(unit, unit) adblock" where
  "example_adblock = \<lparr>NewMatcher = (), ParseRules = (\<lambda>_ _. Inr []), AddRule = (\<lambda>_ _. None), Match = (\<lambda>_ _. Inr False)\<rparr>"

definition example_node :: "unit node_core" where
  "example_node = \<lparr>Routers = [], Proxies = (\<lambda>n. Some (PH2 n)), LocalServers = None\<rparr>"

definition example_request :: "string \<Rightarrow> string \<Rightarrow> string \<Rightarrow> request" where
  "example_request m scheme host = \<lparr>rqMethod = m, rqURL = \<lparr>uScheme = scheme, uHost = host, uPath = ''/'', uRawQuery = []\<rparr>,
     rqHost = host, rqHeader = Some [(''Accept'', [''*''])], rqBody = NoBody, rqContentLength = 0, rqRequestURI = [],
     rqClose = False, rqProto = (1, 1)\<rparr>"

lemma example_world_ok: "idna_ok example_world"
  by (simp add: idna_ok_def example_world_def)

text \<open>What HTTP/2 does to a path.\<close>

definition example_wire :: "request \<Rightarrow> request" where
  "example_wire r = r\<lparr>rqURL := (rqURL r)\<lparr>uPath := wire_path (rqMethod r) (uPath (rqURL r))\<rparr>\<rparr>"

theorem multi_hop_delivery_witness:
  "\<exists>c0 evs. newContext example_world (example_request ''GET'' ''http'' ''example.com.over.a.b.hybrid'') None True = Inr c0 \<and>
     follow example_world example_adblock example_wire (\<lambda>n. if n = ''a'' \<or> n = ''b'' then Some example_node else None) 2
       (fst (Core_Proxy (routers example_adblock) (proxies example_world) example_node c0)) = Some ([''a'', ''b''], evs)"
proof -
  let ?net = "\<lambda>n. if n = ''a'' \<or> n = ''b'' then Some example_node else None"
  let ?r = "example_request ''GET'' ''http'' ''example.com.over.a.b.hybrid''"
  have route: "route_ok ''example.com'' True [''a'', ''b'']" "plain_part ''example.com''" "ascii ''example.com''"
    by code_simp+
  have host: "hop_host ''example.com'' True [''a'', ''b''] 0 = ''example.com.over.a.b.hybrid''" by code_simp
  have "\<not> upgrades ?r" "ascii ''80''" by code_simp+
  then have ad: "addressed (hop_host ''example.com'' True [''a'', ''b''] 0) ''http'' ''80'' ?r" "port_ok ''80'' ?r"
    unfolding host by (simp_all add: addressed_def port_ok_def example_request_def default_port_def plain_part_def)
  obtain c0 where c0: "newContext example_world ?r None True = Inr c0"
    using newContext_hop[OF route _ example_world_ok ad, of None True] by blast
  have link: "linked example_node ?net [''a'', ''b'']" "node_at example_node ?net [''a'', ''b''] 2 = example_node"
    by (auto simp: linked_def node_at_def example_node_def less_Suc_eq numeral_2_eq_2)
  have wire: "wire_ok example_wire" by (simp add: wire_ok_def example_wire_def upgrades_def)
  have path: "path_ok (rqMethod ?r) (uPath (rqURL ?r))" by (simp add: path_ok_def example_request_def)
  obtain c where c: "IsEnd (xDomain c)" "IsOver (xDomain c)"
    "follow example_world example_adblock example_wire ?net 2 (fst (Core_Proxy (routers example_adblock) (proxies example_world) example_node c0)) =
      map_option (\<lambda>(ns, e). ([''a'', ''b''] @ ns, e)) (follow example_world example_adblock example_wire ?net 0
        (fst (Core_Proxy (routers example_adblock) (proxies example_world) example_node c)))"
    using multi_hop_delivery[OF route example_world_ok wire link(1) ad path c0, of example_adblock] link(2)
    by (auto simp: numeral_2_eq_2)
  have "forwarded (fst (Core_Proxy (routers example_adblock) (proxies example_world) example_node c)) = None"
    using forwarded_direct[of example_world c] c(1,2)
    by (simp add: Core_Proxy_def routeProxy_def example_node_def Let_def) (simp add: proxies_def)
  then show ?thesis using c0 c(3) by (simp add: follow.simps)
qed

text \<open>
  A CONNECT to port 80 does not survive a hop: the host name arrives as \<open>H\<close> + host + \<open>:80\<close>, \<open>ServeHTTP\<close>
  cuts the port off as the default one, and the request is answered with 400, because the port of a CONNECT
  is required.
\<close>

theorem connect_port_80_rejected:
  assumes "plain_part h" "h \<noteq> []" "rqMethod r = ''CONNECT''" "rqHost r = HostHttpPrefix # h @ '':80''"
  shows "ServeHTTP w (routers ab) (proxies w) k r =
    ([EvErrRW (HttpErr_WriteResponse \<lparr>Code = 400, ClientType = ''Hybrid'', ClientName = ''CTX'', TargetHost = h,
       Info = ''address '' @ h @ '': missing port in address''\<rparr>)], k)"
proof -
  have t: "TrimSuffix (h @ '':80'') '':80'' = h" using TrimSuffix_port[of "''80''" "''80''" h] by (simp add: plain_part_def)
  have "SplitHostPort h = Inl MissingPort" using assms(1) SplitHostPort_no_colon by (simp add: plain_part_def)
  then have "NewContextFromHandler w False r' = Inl (ErrAddr h MissingPort)"
    if "rqMethod r' = ''CONNECT''" "rqHost r' = h" for r'
    using that assms(2) by (simp add: NewContextFromHandler_def newContext_def parseHostPortIP_def Let_def)
  then show ?thesis
    using assms t by (simp add: ServeHTTP_def Let_def HostHttpPrefix_def ctx_error_text_def)
qed

theorem connect_port_80_rejected_witness:
  "answers (fst (ServeHTTP example_world (routers example_adblock) (proxies example_world) example_node
     (example_request ''CONNECT'' [] ''Hexample.com:80''))) = 1"
proof -
  have "plain_part ''example.com''" by code_simp
  from connect_port_80_rejected[OF this, of "example_request ''CONNECT'' [] ''Hexample.com:80''" example_world example_adblock example_node]
  show ?thesis by (simp add: example_request_def HostHttpPrefix_def answer_defs)
qed

end
