(* ===== verification/Node.thy ===== *)
theory Node
  imports Hops Ipfs "HOL-Library.Multiset" "HOL-Library.Char_ord" "HOL-Library.List_Lexorder"
begin

text \<open>
  Building a node from its configuration: \<open>src/node/parse.go\<close> and \<open>New\<close> and \<open>proxy\<close> of \<open>src/node/node.go\<close>, with the
  configuration types of \<open>src/config/config.go\<close>. The result is the \<open>core\<close> of \<open>Core\<close>, with the proxies and routers
  of \<open>Proxies\<close>.

  What is outside (\<open>node_env\<close>): environment variables, decoding of peer ids, address parsing of package \<open>net\<close>,
  URL parsing, reading directories, files and archives, and the listeners of the IPFS node. A path made by
  \<open>filepath.Join\<close> is the list of its elements.
\<close>

section \<open>Configuration\<close>

record cfg_IpfsServer =
  isName :: string
  isPeer :: string
  isProtocol :: string
  isToken :: string

record cfg_FileServer =
  fsName :: string
  fsRootZipName :: string
  fsRedirect :: "(string \<Rightarrow> string option) option"

record cfg_HttpProxyServer =
  hpName :: string
  hpHost :: string
  hpKeepAlive :: bool

record cfg_AdpRouter =
  arB64RuleDirName :: string
  arTxtRuleDirName :: string
  arBlocked :: string
  arUnblocked :: string
  arEtcHostsIPAsBlocked :: bool

record cfg_IPNetRouter =
  irIPs :: "string list"
  irNets :: "string list"
  irMatched :: string
  irUnmatched :: string
  irFileTest :: string

record cfg_RouterItem =
  riName :: string
  riAdp :: "cfg_AdpRouter option"
  riIPNet :: "cfg_IPNetRouter option"

record cfg_Config =
  gBind :: string
  gToken :: string
  gIpfsToken :: string
  gListenProtocols :: "string list"
  gApiServerName :: string
  gGatewayServerName :: string
  gIpfsServers :: "cfg_IpfsServer list"
  gFileServers :: "cfg_FileServer list"
  gHttpProxyServers :: "cfg_HttpProxyServer list"
  gRouters :: "cfg_RouterItem list"

datatype node_error =
    ErrPeer string | ErrOpenZip vfs_error | ErrProxyAddr string | ErrOneRouter string | ErrName string string
  | ErrNotIP string string | ErrCIDR string | ErrReadDir string | ErrReadFile string | ErrAdp adp_error
  | ErrListen ipfs_error | ErrTree string | ErrNodePanic string

record ('m, 'rule, 'peer) node_env =
  Getenv :: "string \<Rightarrow> string"
  IDB58Decode :: "string \<Rightarrow> string + 'peer"
  parse_ip :: "string \<Rightarrow> ip"
  ParseCIDR :: "string \<Rightarrow> string + ipnet"
  UrlParse :: "string \<Rightarrow> bool"
  OpenReader :: "string list \<Rightarrow> vfs_error + vfs"
  ParseInfo :: "bytes \<Rightarrow> vfs_error + ContentInfo"
  ReadDir :: "string list \<Rightarrow> string + (string \<times> bool) list"
  ReadFile :: "string list \<Rightarrow> string + bytes"
  Adblock :: "('m, 'rule) adblock"
  EtcHosts :: "hosts_entry list"

section \<open>parse.go\<close>

record 'peer ipfsServer =
  svName :: string
  svPeer :: 'peer
  svProtocol :: string
  svToken :: string

definition newIpfsServer :: "('m, 'rule, 'peer) node_env \<Rightarrow> cfg_IpfsServer \<Rightarrow> string \<Rightarrow> node_error + 'peer ipfsServer" where
  "newIpfsServer ne raw token =
     (case IDB58Decode ne (isPeer raw) of
        Inl e \<Rightarrow> Inl (ErrPeer e)
      | Inr peer \<Rightarrow> Inr \<lparr>svName = (if isName raw = [] then isPeer raw else isName raw), svPeer = peer,
          svProtocol = isProtocol raw, svToken = (if isToken raw = [] then token else isToken raw)\<rparr>)"

definition parseEnvList :: "('m, 'rule, 'peer) node_env \<Rightarrow> string \<Rightarrow> string \<Rightarrow> bool" where
  "parseEnvList ne var = fold (\<lambda>name list. if name \<noteq> [] then list(name := True) else list)
     (Split (CHR '','') (Getenv ne var)) (\<lambda>_. False)"

text \<open>The parts of a \<open>Node\<close> that building routers reads.\<close>

record node_parts =
  nProxies :: "string \<Rightarrow> proxy option"
  nFileClients :: "string \<Rightarrow> FileClient option"
  nDialers :: "string \<Rightarrow> (string \<times> string) option"
  nRouterDisabled :: "string \<Rightarrow> bool"
  nFsDisabled :: "string \<Rightarrow> bool"

text \<open>A proxy named in the configuration; the empty name is no proxy.\<close>

definition named_proxy :: "node_parts \<Rightarrow> string \<Rightarrow> string \<Rightarrow> node_error + proxy option" where
  "named_proxy n router name =
     (if name = [] then Inr None
      else case nProxies n name of None \<Rightarrow> Inl (ErrName router name) | Some p \<Rightarrow> Inr (Some p))"

text \<open>
  \<open>readRulesDir\<close>: the entries (name and whether it is a directory) that are files with a name starting with
  a digit, sorted by name, and the content of each. \<open>name[0]\<close> panics on an empty name.
\<close>

fun rule_names :: "(string \<times> bool) list \<Rightarrow> string list option" where
  "rule_names [] = Some []"
| "rule_names ((name, isDir) # infos) =
     (case name of
        [] \<Rightarrow> None
      | c # _ \<Rightarrow> (if \<not> isDir \<and> of_char c \<ge> (48::nat) \<and> of_char c \<le> (57::nat)
          then map_option (\<lambda>names. name # names) (rule_names infos) else rule_names infos))"

fun read_files :: "('m, 'rule, 'peer) node_env \<Rightarrow> string list \<Rightarrow> string list \<Rightarrow> node_error + bytes list" where
  "read_files ne dir [] = Inr []"
| "read_files ne dir (name # names) =
     (case ReadFile ne (dir @ [name]) of
        Inl e \<Rightarrow> Inl (ErrReadFile e)
      | Inr content \<Rightarrow> rbind (read_files ne dir names) (\<lambda>contents. Inr (content # contents)))"

definition readRulesDir :: "('m, 'rule, 'peer) node_env \<Rightarrow> string \<Rightarrow> node_error + bytes list" where
  "readRulesDir ne dirname =
     (let dir = [''rules-root'', dirname] in
      case ReadDir ne dir of
        Inl e \<Rightarrow> Inl (ErrReadDir e)
      | Inr infos \<Rightarrow> (case rule_names infos of
           None \<Rightarrow> Inl (ErrNodePanic ''index out of range'')
         | Some names \<Rightarrow> read_files ne dir (sort names)))"

definition newAdpRouter ::
  "('m, 'rule, 'peer) node_env \<Rightarrow> node_parts \<Rightarrow> string \<Rightarrow> cfg_AdpRouter \<Rightarrow> node_error + 'm AdpRouter" where
  "newAdpRouter ne n name raw =
     rbind (named_proxy n name (arBlocked raw)) (\<lambda>blocked.
     rbind (named_proxy n name (arUnblocked raw)) (\<lambda>unblocked.
     rbind (if arB64RuleDirName raw \<noteq> [] then readRulesDir ne (arB64RuleDirName raw) else Inr []) (\<lambda>b64.
     rbind (if arTxtRuleDirName raw \<noteq> [] then readRulesDir ne (arTxtRuleDirName raw) else Inr []) (\<lambda>txt.
       case NewAdpRouter (Adblock ne) (EtcHosts ne) \<lparr>cDisabled = nRouterDisabled n name, cBlocked = blocked, cUnblocked = unblocked,
           cB64Rules = b64, cTxtRules = txt, cEtcHostsIPAsBlocked = arEtcHostsIPAsBlocked raw\<rparr> of
         Inl e \<Rightarrow> Inl (ErrAdp e) | Inr r \<Rightarrow> Inr r))))"

fun parse_ips :: "('m, 'rule, 'peer) node_env \<Rightarrow> string \<Rightarrow> string list \<Rightarrow> node_error + ip list" where
  "parse_ips ne name [] = Inr []"
| "parse_ips ne name (ipr # rest) =
     (if parse_ip ne ipr = [] then Inl (ErrNotIP ipr name)
      else rbind (parse_ips ne name rest) (\<lambda>ips. Inr (parse_ip ne ipr # ips)))"

fun parse_nets :: "('m, 'rule, 'peer) node_env \<Rightarrow> string list \<Rightarrow> node_error + ipnet list" where
  "parse_nets ne [] = Inr []"
| "parse_nets ne (netr # rest) =
     (case ParseCIDR ne netr of Inl e \<Rightarrow> Inl (ErrCIDR e)
      | Inr cidr \<Rightarrow> rbind (parse_nets ne rest) (\<lambda>nets. Inr (cidr # nets)))"

definition newNetRouter ::
  "('m, 'rule, 'peer) node_env \<Rightarrow> node_parts \<Rightarrow> string \<Rightarrow> cfg_IPNetRouter \<Rightarrow> node_error + IPNetRouter" where
  "newNetRouter ne n name raw =
     rbind (parse_ips ne name (irIPs raw)) (\<lambda>ips.
     rbind (parse_nets ne (irNets raw)) (\<lambda>nets.
     rbind (named_proxy n name (irMatched raw)) (\<lambda>matched.
     rbind (named_proxy n name (irUnmatched raw)) (\<lambda>unmatched.
     rbind (if irFileTest raw = [] then Inr None
            else case nFileClients n (irFileTest raw) of None \<Rightarrow> Inl (ErrName name (irFileTest raw)) | Some fc \<Rightarrow> Inr (Some fc)) (\<lambda>fc.
       Inr \<lparr>nSkip = nRouterDisabled n name, nIPs = ips, nNets = nets, nFileClient = fc, nMatched = matched, nUnmatched = unmatched\<rparr>)))))"

definition newRouter :: "('m, 'rule, 'peer) node_env \<Rightarrow> node_parts \<Rightarrow> cfg_RouterItem \<Rightarrow> node_error + 'm router" where
  "newRouter ne n raw =
     (case (riAdp raw, riIPNet raw) of
        (Some a, None) \<Rightarrow> rbind (newAdpRouter ne n (riName raw) a) (\<lambda>r. Inr (RAdp r))
      | (None, Some i) \<Rightarrow> rbind (newNetRouter ne n (riName raw) i) (\<lambda>r. Inr (RIPNet r))
      | _ \<Rightarrow> Inl (ErrOneRouter (riName raw)))"

section \<open>node.go: New\<close>

definition HybridIpfsProtocol :: string where "HybridIpfsProtocol = ''/hybrid/1.0''"
definition PathTokenPrefix :: string where "PathTokenPrefix = ''/token/''"

text \<open>A dialer to another node: the peer's name in the configuration and the protocol with the token.\<close>

definition add_ipfs_server ::
  "('m, 'rule, 'peer) node_env \<Rightarrow> string \<Rightarrow> cfg_IpfsServer \<Rightarrow> node_parts \<Rightarrow> node_error + node_parts" where
  "add_ipfs_server ne token raw n =
     rbind (newIpfsServer ne raw token) (\<lambda>s.
       let protocol = HybridIpfsProtocol @ PathTokenPrefix @ svToken s;
           (dialers, p) = AddDialer (svName s) (isPeer raw, protocol) (nDialers n)
       in Inr (n\<lparr>nDialers := dialers, nProxies := (nProxies n)(svName s \<mapsto> p)\<rparr>))"

definition NewFileProxyRouterClient ::
  "('m, 'rule, 'peer) node_env \<Rightarrow> bool \<Rightarrow> string list \<Rightarrow> (string \<Rightarrow> string option) option \<Rightarrow> node_error + FileClient" where
  "NewFileProxyRouterClient ne disabled root redirect =
     (case fst (zipfs_New (OpenReader ne) (ParseInfo ne) (butlast root @ [last root @ ''.zip''])) of
        Inl e \<Rightarrow> Inl (ErrOpenZip e)
      | Inr hfs \<Rightarrow> Inr \<lparr>fcDisabled = disabled, fcRootZip = last root, fcRedirect = redirect, fcHfs = hfs\<rparr>)"

definition add_file_server ::
  "('m, 'rule, 'peer) node_env \<Rightarrow> cfg_FileServer \<Rightarrow> node_parts \<Rightarrow> node_error + node_parts" where
  "add_file_server ne s n =
     (let name = (if fsName s = [] then fsRootZipName s else fsName s) in
      rbind (NewFileProxyRouterClient ne (nFsDisabled n name) [''files-root'', fsRootZipName s] (fsRedirect s)) (\<lambda>fc.
        Inr (n\<lparr>nFileClients := (nFileClients n)(name \<mapsto> fc)\<rparr>)))"

definition NewExistProxy :: "('m, 'rule, 'peer) node_env \<Rightarrow> string \<Rightarrow> string \<Rightarrow> bool \<Rightarrow> node_error + ExistProxy" where
  "NewExistProxy ne name host keepAlive =
     (if UrlParse ne (''http://'' @ host) then Inr \<lparr>ep_name = name, ep_host = host, ep_keepAlive = keepAlive\<rparr>
      else Inl (ErrProxyAddr host))"

text \<open>The name of an HTTP proxy: its own, or its host with every colon replaced by a dash.\<close>

definition http_proxy_name :: "cfg_HttpProxyServer \<Rightarrow> string" where
  "http_proxy_name s = (if hpName s = [] then map (\<lambda>c. if c = CHR '':'' then CHR ''-'' else c) (hpHost s) else hpName s)"

definition add_http_proxy ::
  "('m, 'rule, 'peer) node_env \<Rightarrow> cfg_HttpProxyServer \<Rightarrow> node_parts \<Rightarrow> node_error + node_parts" where
  "add_http_proxy ne s n =
     rbind (NewExistProxy ne (http_proxy_name s) (hpHost s) (hpKeepAlive s)) (\<lambda>p.
       Inr (n\<lparr>nProxies := (nProxies n)(http_proxy_name s \<mapsto> PExist p)\<rparr>))"

text \<open>A loop that stops at the first error.\<close>

fun rfold :: "('a \<Rightarrow> 's \<Rightarrow> 'e + 's) \<Rightarrow> 'a list \<Rightarrow> 's \<Rightarrow> 'e + 's" where
  "rfold f [] s = Inr s"
| "rfold f (x # xs) s = rbind (f x s) (rfold f xs)"

fun new_routers :: "('m, 'rule, 'peer) node_env \<Rightarrow> node_parts \<Rightarrow> cfg_RouterItem list \<Rightarrow> node_error + 'm router list" where
  "new_routers ne n [] = Inr []"
| "new_routers ne n (ri # rest) = rbind (newRouter ne n ri) (\<lambda>r. rbind (new_routers ne n rest) (\<lambda>rs. Inr (r # rs)))"

text \<open>One listener for each protocol, at the IPFS node; those made before an error stay registered.\<close>

fun start_listeners :: "string list \<Rightarrow> ipfs \<Rightarrow> (node_error + string list) \<times> ipfs" where
  "start_listeners [] hi = (Inr [], hi)"
| "start_listeners (p # ps) hi =
     (case ipfs_Listen p hi of
        (IErr e, hi) \<Rightarrow> (Inl (ErrListen e), hi)
      | (IPanic, hi) \<Rightarrow> (Inl (ErrNodePanic ''invalid memory address or nil pointer dereference''), hi)
      | (IOk ln, hi) \<Rightarrow> (case start_listeners ps hi of (lns, hi) \<Rightarrow> (rbind lns (\<lambda>lns. Inr (ln # lns)), hi)))"

record 'm node =
  ndParts :: node_parts
  ndCore :: "('m router, proxy) core"
  ndListeners :: "string list"

text \<open>The part of \<open>New\<close> before the listeners.\<close>

definition build_node ::
  "('m, 'rule, 'peer) node_env \<Rightarrow> cfg_Config \<Rightarrow> (string \<Rightarrow> bool) option \<Rightarrow> node_error + 'm node" where
  "build_node ne c localServers =
     (let n = \<lparr>nProxies = [''DIRECT'' \<mapsto> PDirect], nFileClients = (\<lambda>_. None), nDialers = NewH2Client,
               nRouterDisabled = parseEnvList ne ''HYBRID_ROUTER_DISABLED'',
               nFsDisabled = parseEnvList ne ''HYBRID_FILE_SERVERS_DISABLED''\<rparr>;
          ipfsToken = (if gIpfsToken c = [] then gToken c else gIpfsToken c)
      in rbind (rfold (add_ipfs_server ne ipfsToken) (gIpfsServers c) n) (\<lambda>n.
         rbind (rfold (add_file_server ne) (gFileServers c) n) (\<lambda>n.
         rbind (rfold (add_http_proxy ne) (gHttpProxyServers c) n) (\<lambda>n.
         rbind (new_routers ne n (gRouters c)) (\<lambda>routers.
           let ls = (case localServers of None \<Rightarrow> (\<lambda>_. False) | Some l \<Rightarrow> l);
               ls = (if gApiServerName c \<noteq> [] then ls(gApiServerName c := True) else ls);
               ls = (if gGatewayServerName c \<noteq> [] then ls(gGatewayServerName c := True) else ls)
           in Inr \<lparr>ndParts = n, ndCore = \<lparr>Routers = routers, Proxies = nProxies n, LocalServers = Some ls\<rparr>, ndListeners = []\<rparr>)))))"

definition NewNode ::
  "('m, 'rule, 'peer) node_env \<Rightarrow> cfg_Config \<Rightarrow> (string \<Rightarrow> bool) option \<Rightarrow> ipfs \<Rightarrow> (node_error + 'm node) \<times> ipfs" where
  "NewNode ne c localServers hi =
     (case build_node ne c localServers of
        Inl e \<Rightarrow> (Inl e, hi)
      | Inr nd \<Rightarrow> (case start_listeners (gListenProtocols c) hi of
           (lns, hi) \<Rightarrow> (rbind lns (\<lambda>lns. Inr (nd\<lparr>ndListeners := lns\<rparr>)), hi)))"

text \<open>
  The check of an incoming stream: its protocol must start with the token prefix, and the rest of it is the token
  that \<open>Verify\<close> gets with the remote peer's id.
\<close>

definition stream_match :: "string \<Rightarrow> bool" where
  "stream_match protocol = HasPrefix protocol (HybridIpfsProtocol @ PathTokenPrefix)"

definition stream_verify :: "(string \<Rightarrow> string \<Rightarrow> bool) \<Rightarrow> string \<Rightarrow> string \<Rightarrow> bool" where
  "stream_verify verify peer protocol = verify peer (TrimPrefix protocol (HybridIpfsProtocol @ PathTokenPrefix))"

text \<open>\<open>Node.proxy\<close>: one connection; \<open>rd\<close> is the result of reading its first request. It is closed at the end.\<close>

definition node_proxy ::
  "('m, 'rule, 'peer) node_env \<Rightarrow> world \<Rightarrow> 'm node \<Rightarrow> string + request \<Rightarrow> event list \<times> 'm node" where
  "node_proxy ne w n rd =
     (case NewContextWithConn w rd of
        Inl e \<Rightarrow> ([EvErrWrite (HttpErr_Response \<lparr>Code = 400, ClientType = ''Hybrid'', ClientName = ''CTX'', TargetHost = [],
           Info = (case e of Inl r \<Rightarrow> r | Inr ce \<Rightarrow> ctx_error_text ce)\<rparr>)], n)
      | Inr ctx \<Rightarrow> (case Core_Proxy (routers (Adblock ne)) (proxies w) (ndCore n) ctx of
           (evs, k) \<Rightarrow> (evs, n\<lparr>ndCore := k\<rparr>)))"

section \<open>Names\<close>

definition ipfs_name :: "cfg_IpfsServer \<Rightarrow> string" where
  "ipfs_name s = (if isName s = [] then isPeer s else isName s)"

definition ipfs_protocol :: "cfg_Config \<Rightarrow> cfg_IpfsServer \<Rightarrow> string" where
  "ipfs_protocol c s = HybridIpfsProtocol @ PathTokenPrefix @
     (if isToken s \<noteq> [] then isToken s else if gIpfsToken c \<noteq> [] then gIpfsToken c else gToken c)"

text \<open>The proxies by name: later entries win, HTTP proxies over other nodes over \<open>DIRECT\<close>.\<close>

definition ipfs_proxies :: "cfg_Config \<Rightarrow> string \<Rightarrow> proxy option" where
  "ipfs_proxies c = [''DIRECT'' \<mapsto> PDirect] ++ map_of (rev (map (\<lambda>s. (ipfs_name s, PH2 (ipfs_name s))) (gIpfsServers c)))"

definition config_proxies :: "cfg_Config \<Rightarrow> string \<Rightarrow> proxy option" where
  "config_proxies c = ipfs_proxies c ++
     map_of (rev (map (\<lambda>s. (http_proxy_name s, PExist \<lparr>ep_name = http_proxy_name s, ep_host = hpHost s, ep_keepAlive = hpKeepAlive s\<rparr>))
       (gHttpProxyServers c)))"

definition config_dialers :: "cfg_Config \<Rightarrow> string \<Rightarrow> (string \<times> string) option" where
  "config_dialers c = map_of (rev (map (\<lambda>s. (ipfs_name s, (isPeer s, ipfs_protocol c s))) (gIpfsServers c)))"

lemma rfold_map:
  assumes "\<And>x s s'. f x s = Inr s' \<Longrightarrow> sel s' = (sel s)(k x \<mapsto> e x)" "rfold f xs s = Inr s'"
  shows "sel s' = sel s ++ map_of (rev (map (\<lambda>x. (k x, e x)) xs))"
  using assms(2)
proof (induction xs arbitrary: s)
  case (Cons x xs)
  then obtain s1 where "f x s = Inr s1" "rfold f xs s1 = Inr s'" by (auto simp: rbind_Inr_iff)
  let ?m = "map_of (rev (map (\<lambda>x. (k x, e x)) xs))"
  have "sel s' = sel s1 ++ ?m" by (rule Cons.IH) fact
  also have "sel s1 = (sel s)(k x \<mapsto> e x)" by (rule assms(1)) fact
  also have "(sel s)(k x \<mapsto> e x) ++ ?m = sel s ++ ([k x \<mapsto> e x] ++ ?m)"
    by (auto simp: map_add_def fun_eq_iff split: option.splits)
  also have "[k x \<mapsto> e x] ++ ?m = map_of (rev (map (\<lambda>x. (k x, e x)) (x # xs)))" by simp
  finally show ?case .
qed simp

lemma rfold_keeps:
  assumes "\<And>x s s'. f x s = Inr s' \<Longrightarrow> sel s' = sel s" "rfold f xs s = Inr s'"
  shows "sel s' = sel s"
  using assms(2) by (induction xs arbitrary: s) (auto simp: rbind_Inr_iff dest: assms(1))

lemma add_ipfs_server_ok:
  assumes "add_ipfs_server ne token raw n = Inr n'"
  shows "nProxies n' = (nProxies n)(ipfs_name raw \<mapsto> PH2 (ipfs_name raw))"
    "nDialers n' = (nDialers n)(ipfs_name raw \<mapsto> (isPeer raw, HybridIpfsProtocol @ PathTokenPrefix @ (if isToken raw = [] then token else isToken raw)))"
    "nRouterDisabled n' = nRouterDisabled n" "nFsDisabled n' = nFsDisabled n" "nFileClients n' = nFileClients n"
  using assms
  by (auto simp: add_ipfs_server_def newIpfsServer_def AddDialer_def ipfs_name_def Let_def split: sum.splits)

lemma add_file_server_ok:
  assumes "add_file_server ne s n = Inr n'"
  shows "nProxies n' = nProxies n" "nDialers n' = nDialers n" "nRouterDisabled n' = nRouterDisabled n"
  using assms by (auto simp: add_file_server_def Let_def rbind_Inr_iff)

lemma add_http_proxy_ok:
  assumes "add_http_proxy ne s n = Inr n'"
  shows "nProxies n' = (nProxies n)(http_proxy_name s \<mapsto> PExist \<lparr>ep_name = http_proxy_name s, ep_host = hpHost s, ep_keepAlive = hpKeepAlive s\<rparr>)"
    "nDialers n' = nDialers n" "nRouterDisabled n' = nRouterDisabled n" "nFileClients n' = nFileClients n"
  using assms by (auto simp: add_http_proxy_def NewExistProxy_def split: if_splits)

text \<open>The stages of \<open>NewNode\<close> on a successful run.\<close>

lemma NewNode_stages:
  assumes "NewNode ne c ls hi = (Inr nd, hi')"
  obtains n1 n2 n3 where
    "rfold (add_ipfs_server ne (if gIpfsToken c = [] then gToken c else gIpfsToken c)) (gIpfsServers c)
       \<lparr>nProxies = [''DIRECT'' \<mapsto> PDirect], nFileClients = (\<lambda>_. None), nDialers = NewH2Client,
        nRouterDisabled = parseEnvList ne ''HYBRID_ROUTER_DISABLED'', nFsDisabled = parseEnvList ne ''HYBRID_FILE_SERVERS_DISABLED''\<rparr> = Inr n1"
    "rfold (add_file_server ne) (gFileServers c) n1 = Inr n2" "rfold (add_http_proxy ne) (gHttpProxyServers c) n2 = Inr n3"
    "new_routers ne n3 (gRouters c) = Inr (Routers (ndCore nd))" "ndParts nd = n3" "Proxies (ndCore nd) = nProxies n3"
    "start_listeners (gListenProtocols c) hi = (Inr (ndListeners nd), hi')"
proof -
  from assms obtain nd0 lns where b: "build_node ne c ls = Inr nd0" "start_listeners (gListenProtocols c) hi = (Inr lns, hi')"
    "nd = nd0\<lparr>ndListeners := lns\<rparr>" by (auto simp: NewNode_def rbind_Inr_iff split: sum.splits prod.splits)
  from b(1) show ?thesis unfolding build_node_def Let_def rbind_Inr_iff using b(2,3) by (elim exE conjE) (rule that, auto)
qed

lemma start_listeners_ok:
  assumes "start_listeners ps hi = (Inr lns, hi')" "isOnline hi = Some False"
  shows "lns = ps \<and> distinct ps \<and> set ps \<inter> set (plisteners hi) = {} \<and> hi' = hi\<lparr>plisteners := rev ps @ plisteners hi\<rparr>"
  using assms
proof (induction ps arbitrary: hi lns)
  case (Cons p ps)
  let ?hi = "hi\<lparr>plisteners := p # plisteners hi\<rparr>"
  from Cons.prems have p: "p \<notin> set (plisteners hi)" "ipfs_Listen p hi = (IOk p, ?hi)"
    by (auto simp: ipfs_Listen_def isOnline_def split: if_splits)
  with Cons.prems(1) obtain l where "start_listeners ps ?hi = (Inr l, hi')" "lns = p # l"
    by (auto simp: rbind_Inr_iff split: prod.splits)
  moreover from Cons.prems(2) have "isOnline ?hi = Some False" by (simp add: isOnline_def)
  ultimately show ?case using Cons.IH[of ?hi l] p(1) by auto
qed simp

lemma NewNode_parts:
  assumes "NewNode ne c ls hi = (Inr nd, hi')"
  shows "Proxies (ndCore nd) = config_proxies c" "nDialers (ndParts nd) = config_dialers c"
    "nRouterDisabled (ndParts nd) = parseEnvList ne ''HYBRID_ROUTER_DISABLED''"
    "new_routers ne (ndParts nd) (gRouters c) = Inr (Routers (ndCore nd))" "nProxies (ndParts nd) = config_proxies c"
proof -
  obtain n1 n2 n3 where st:
    "rfold (add_ipfs_server ne (if gIpfsToken c = [] then gToken c else gIpfsToken c)) (gIpfsServers c)
       \<lparr>nProxies = [''DIRECT'' \<mapsto> PDirect], nFileClients = (\<lambda>_. None), nDialers = NewH2Client,
        nRouterDisabled = parseEnvList ne ''HYBRID_ROUTER_DISABLED'', nFsDisabled = parseEnvList ne ''HYBRID_FILE_SERVERS_DISABLED''\<rparr> = Inr n1"
    "rfold (add_file_server ne) (gFileServers c) n1 = Inr n2" "rfold (add_http_proxy ne) (gHttpProxyServers c) n2 = Inr n3"
    "new_routers ne n3 (gRouters c) = Inr (Routers (ndCore nd))" "ndParts nd = n3" "Proxies (ndCore nd) = nProxies n3"
    by (rule NewNode_stages[OF assms])
  let ?tok = "if gIpfsToken c = [] then gToken c else gIpfsToken c"
  have i: "nProxies n1 = ipfs_proxies c"
    "nDialers n1 = (\<lambda>_. None) ++ map_of (rev (map (\<lambda>s. (ipfs_name s, (isPeer s, HybridIpfsProtocol @ PathTokenPrefix @
       (if isToken s = [] then ?tok else isToken s)))) (gIpfsServers c)))"
    "nRouterDisabled n1 = parseEnvList ne ''HYBRID_ROUTER_DISABLED''"
    using rfold_map[where sel = nProxies, OF _ st(1), of ipfs_name "\<lambda>s. PH2 (ipfs_name s)"]
      rfold_map[where sel = nDialers, OF _ st(1)] rfold_keeps[where sel = nRouterDisabled, OF _ st(1)]
    by (auto simp: ipfs_proxies_def add_ipfs_server_ok NewH2Client_def)
  have f: "nProxies n2 = nProxies n1" "nDialers n2 = nDialers n1" "nRouterDisabled n2 = nRouterDisabled n1"
    by (rule rfold_keeps[OF _ st(2)], erule add_file_server_ok)+
  have h: "nProxies n3 = nProxies n2 ++ map_of (rev (map (\<lambda>s. (http_proxy_name s, PExist \<lparr>ep_name = http_proxy_name s,
      ep_host = hpHost s, ep_keepAlive = hpKeepAlive s\<rparr>)) (gHttpProxyServers c)))"
    "nDialers n3 = nDialers n2" "nRouterDisabled n3 = nRouterDisabled n2"
    by (rule rfold_map[OF _ st(3)] rfold_keeps[OF _ st(3)], erule add_http_proxy_ok)+
  have p: "ipfs_protocol c s = HybridIpfsProtocol @ PathTokenPrefix @ (if isToken s = [] then if gIpfsToken c = [] then gToken c else gIpfsToken c else isToken s)" for s
    by (simp add: ipfs_protocol_def)
  show "nProxies (ndParts nd) = config_proxies c"
    using i(1) f(1) h(1) st(5) by (simp add: config_proxies_def)
  then show "Proxies (ndCore nd) = config_proxies c" using st(5,6) by simp
  show "nDialers (ndParts nd) = config_dialers c"
    using i(2) f(2) h(2) st(5) by (simp add: config_dialers_def p map_add_def)
  show "nRouterDisabled (ndParts nd) = parseEnvList ne ''HYBRID_ROUTER_DISABLED''" using i(3) f(3) h(3) st(5) by simp
  show "new_routers ne (ndParts nd) (gRouters c) = Inr (Routers (ndCore nd))" using st(4,5) by simp
qed

lemma map_of_rev_map_Some:
  "map_of (rev (map (\<lambda>x. (k x, e x)) xs)) y = Some v \<Longrightarrow> \<exists>x \<in> set xs. k x = y \<and> e x = v"
  by (auto dest!: map_of_SomeD)

lemma map_of_rev_same:
  "map_of (rev (map (\<lambda>x. (k x, e x)) xs)) y = None \<longleftrightarrow> map_of (rev (map (\<lambda>x. (k x, e' x)) xs)) y = None"
  by (simp add: map_of_eq_None_iff image_image)

text \<open>
  C33: the proxies of a node are exactly those its configuration names, the later one of two with the same name, HTTP proxies before other
  nodes before \<open>DIRECT\<close>; the dialers are exactly those of the configured nodes, again the later one of two, each to the
  configured peer with the protocol that carries the server's token (its own, else the IPFS one, else the common one).
  Every proxy to another node has a dialer, and the HTTP/2 transport, asking for \<open>name:80\<close>, gets the dialer of that name, or
  an error when there is none.
\<close>

theorem NewNode_names:
  assumes ok: "NewNode ne c ls hi = (Inr nd, hi')"
  shows "Proxies (ndCore nd) = config_proxies c \<and> nDialers (ndParts nd) = config_dialers c \<and>
    (\<forall>x y. config_proxies c x = Some (PH2 y) \<longrightarrow> y = x \<and> config_dialers c x \<noteq> None) \<and>
    (\<forall>x. plain_part x \<longrightarrow> DialAndAuth (nDialers (ndParts nd)) (JoinHostPort x ''80'') =
      (case config_dialers c x of None \<Rightarrow> Inl (DialerNotFound x) | Some d \<Rightarrow> Inr d))"
proof (intro conjI allI impI)
  note p = NewNode_parts[OF ok]
  show "Proxies (ndCore nd) = config_proxies c" by (rule p(1))
  show "nDialers (ndParts nd) = config_dialers c" by (rule p(2))
  fix x y
  { assume x: "config_proxies c x = Some (PH2 y)"
    let ?m = "map_of (rev (map (\<lambda>s. (ipfs_name s, PH2 (ipfs_name s))) (gIpfsServers c)))"
    have m: "?m x = Some (PH2 y)"
      using x by (auto simp: config_proxies_def ipfs_proxies_def map_add_Some_iff dest!: map_of_rev_map_Some split: if_splits)
    from map_of_rev_map_Some[OF m] show "y = x" by auto
    show "config_dialers c x \<noteq> None"
      using m map_of_rev_same[of ipfs_name _ "gIpfsServers c" x] unfolding config_dialers_def by (metis option.distinct(1)) }
  assume "plain_part x"
  then have "SplitHostPort (JoinHostPort x ''80'') = Inr (x, ''80'')" by (intro Split_JoinHostPort) (auto simp: plain_part_def)
  with p(2) show "DialAndAuth (nDialers (ndParts nd)) (JoinHostPort x ''80'') =
      (case config_dialers c x of None \<Rightarrow> Inl (DialerNotFound x) | Some d \<Rightarrow> Inr d)" by (simp add: DialAndAuth_def)
qed

definition example_node_env :: "(unit, unit, string) node_env" where
  "example_node_env = \<lparr>Getenv = (\<lambda>v. if v = ''HYBRID_ROUTER_DISABLED'' then ''a,r'' else []), IDB58Decode = Inr,
     parse_ip = (\<lambda>_. [127, 0, 0, 1]), ParseCIDR = Inl, UrlParse = (\<lambda>_. True), OpenReader = (\<lambda>_. Inl OtherVfsError), ParseInfo = (\<lambda>_. Inl OtherVfsError),
     ReadDir = (\<lambda>_. Inr [(''2.txt'', False), (''readme'', False), (''1.txt'', False), (''3'', True)]),
     ReadFile = (\<lambda>p. Inr (if last p = ''1.txt'' then [1] else [2])),
     Adblock = \<lparr>NewMatcher = (), ParseRules = (\<lambda>_ _. Inr [()]), AddRule = (\<lambda>_ _. Some ()), Match = (\<lambda>_ _. Inr False)\<rparr>,
     EtcHosts = []\<rparr>"

definition example_ipfs :: ipfs where
  "example_ipfs = \<lparr>config = example_ipfs_Config, inode = OfflineNode 0, api = None, apiServer = HOffline, gatewayServer = HOffline,
     plisteners = [], onConnected = False, onDisconnected = False, streams = [], live = [0], collecting = [], notified = []\<rparr>"

definition example_config :: cfg_Config where
  "example_config = \<lparr>gBind = ''127.0.0.1:7777'', gToken = ''T'', gIpfsToken = [], gListenProtocols = [''/hybrid/1.0''],
     gApiServerName = [], gGatewayServerName = [],
     gIpfsServers = [\<lparr>isName = ''b'', isPeer = ''Qm'', isProtocol = ''/hybrid/1.0'', isToken = []\<rparr>],
     gFileServers = [], gHttpProxyServers = [\<lparr>hpName = [], hpHost = ''h:80'', hpKeepAlive = False\<rparr>],
     gRouters = [\<lparr>riName = ''r'', riAdp = None, riIPNet = Some \<lparr>irIPs = [''127.0.0.1''], irNets = [], irMatched = ''DIRECT'',
       irUnmatched = ''b'', irFileTest = []\<rparr>\<rparr>]\<rparr>"

lemma example_node:
  obtains nd hi' where "NewNode example_node_env example_config None example_ipfs = (Inr nd, hi')"
proof -
  have "is_ok (fst (NewNode example_node_env example_config None example_ipfs))" by code_simp
  then show ?thesis using that by (metis is_ok_iff prod.collapse)
qed

theorem NewNode_names_witness:
  "\<exists>nd hi'. NewNode example_node_env example_config None example_ipfs = (Inr nd, hi') \<and>
     DialAndAuth (nDialers (ndParts nd)) (JoinHostPort ''b'' ''80'') = Inr (''Qm'', ''/hybrid/1.0/token/T'')"
proof -
  obtain nd hi' where nd: "NewNode example_node_env example_config None example_ipfs = (Inr nd, hi')" by (rule example_node)
  have "config_dialers example_config ''b'' = Some (''Qm'', ''/hybrid/1.0/token/T'')" "plain_part ''b''"
    by (simp_all add: config_dialers_def example_config_def ipfs_name_def ipfs_protocol_def HybridIpfsProtocol_def PathTokenPrefix_def plain_part_def)
  then have "DialAndAuth (nDialers (ndParts nd)) (JoinHostPort ''b'' ''80'') = Inr (''Qm'', ''/hybrid/1.0/token/T'')"
    using NewNode_names[OF nd] by (metis option.simps(5))
  with nd show ?thesis by blast
qed

section \<open>Routers\<close>

lemma parseEnvList_iff: "parseEnvList ne var name \<longleftrightarrow> name \<noteq> [] \<and> name \<in> set (Split (CHR '','') (Getenv ne var))"
proof -
  have "fold (\<lambda>n l. if n \<noteq> [] then l(n := True) else l) xs m name \<longleftrightarrow> m name \<or> (name \<noteq> [] \<and> name \<in> set xs)" for xs m
    by (induction xs arbitrary: m) auto
  then show ?thesis by (simp add: parseEnvList_def)
qed

definition router_proxies :: "'m router \<Rightarrow> proxy set" where
  "router_proxies r = (case r of
     RAdp a \<Rightarrow> set_option (cBlocked (aConfig a)) \<union> set_option (cUnblocked (aConfig a))
   | RIPNet i \<Rightarrow> set_option (nMatched i) \<union> set_option (nUnmatched i))"

lemma named_proxy_ran: "named_proxy n router name = Inr p \<Longrightarrow> set_option p \<subseteq> ran (nProxies n)"
  by (auto simp: named_proxy_def ran_def split: if_splits option.splits)

lemma newRouter_ok:
  assumes "newRouter ne n ri = Inr r"
  shows "router_Disabled r = nRouterDisabled n (riName ri)" "router_proxies r \<subseteq> ran (nProxies n)"
    "(riAdp ri = None) \<noteq> (riIPNet ri = None)" "(\<exists>a. r = RAdp a) = (riAdp ri \<noteq> None)"
  using assms
  by (auto simp: newRouter_def rbind_Inr_iff newAdpRouter_def newNetRouter_def NewAdpRouter_def router_Disabled_def router_proxies_def
      split: option.splits sum.splits prod.splits if_splits dest!: named_proxy_ran)

lemma new_routers_ok:
  "new_routers ne n ris = Inr rs \<Longrightarrow> list_all2 (\<lambda>ri r. newRouter ne n ri = Inr r) ris rs"
  by (induction ris arbitrary: rs) (auto simp: rbind_Inr_iff)

text \<open>
  C34: a node that was built has one router for each item of its configuration, in order and of the item's kind; it is
  disabled exactly if its name is listed in \<open>HYBRID_ROUTER_DISABLED\<close>, and it only routes to proxies that exist.
\<close>

theorem NewNode_routers:
  assumes ok: "NewNode ne c ls hi = (Inr nd, hi')"
  shows "list_all2 (\<lambda>ri r. ((\<exists>a. r = RAdp a) = (riAdp ri \<noteq> None)) \<and> (riAdp ri = None) \<noteq> (riIPNet ri = None) \<and>
      (router_Disabled r \<longleftrightarrow> riName ri \<noteq> [] \<and> riName ri \<in> set (Split (CHR '','') (Getenv ne ''HYBRID_ROUTER_DISABLED''))) \<and>
      router_proxies r \<subseteq> ran (Proxies (ndCore nd)))
    (gRouters c) (Routers (ndCore nd))"
proof (rule list_all2_mono[OF new_routers_ok[OF NewNode_parts(4)[OF ok]]])
  fix ri r assume n: "newRouter ne (ndParts nd) ri = Inr r"
  show "((\<exists>a. r = RAdp a) = (riAdp ri \<noteq> None)) \<and> (riAdp ri = None) \<noteq> (riIPNet ri = None) \<and>
      (router_Disabled r \<longleftrightarrow> riName ri \<noteq> [] \<and> riName ri \<in> set (Split (CHR '','') (Getenv ne ''HYBRID_ROUTER_DISABLED''))) \<and>
      router_proxies r \<subseteq> ran (Proxies (ndCore nd))"
    using newRouter_ok[OF n] by (simp add: NewNode_parts(1,3,5)[OF ok] parseEnvList_iff)
qed

theorem NewNode_routers_witness:
  "\<exists>nd hi' r. NewNode example_node_env example_config None example_ipfs = (Inr nd, hi') \<and> Routers (ndCore nd) = [r] \<and> router_Disabled r"
proof -
  obtain nd hi' where nd: "NewNode example_node_env example_config None example_ipfs = (Inr nd, hi')" by (rule example_node)
  have "''r'' \<in> set (Split (CHR '','') (Getenv example_node_env ''HYBRID_ROUTER_DISABLED''))" by code_simp
  with NewNode_routers[OF nd] nd show ?thesis by (auto simp: example_config_def list_all2_Cons1)
qed

section \<open>Rule directories\<close>

definition is_rule_file :: "string \<times> bool \<Rightarrow> bool" where
  "is_rule_file x \<longleftrightarrow> \<not> snd x \<and> fst x \<noteq> [] \<and> (48::nat) \<le> of_char (hd (fst x)) \<and> of_char (hd (fst x)) \<le> (57::nat)"

lemma rule_names_ok: "rule_names infos = Some names \<Longrightarrow> names = map fst (filter is_rule_file infos)"
  by (induction infos arbitrary: names rule: rule_names.induct) (auto simp: is_rule_file_def split: list.splits if_splits)

lemma read_files_ok: "read_files ne dir names = Inr cs \<Longrightarrow> list_all2 (\<lambda>name c. ReadFile ne (dir @ [name]) = Inr c) names cs"
  by (induction names arbitrary: cs) (auto simp: rbind_Inr_iff split: sum.splits)

text \<open>
  The rules of a directory are the contents of exactly its regular files with a name starting with a digit, in the
  order of their names.
\<close>

theorem readRulesDir_files:
  assumes "readRulesDir ne dirname = Inr cs" "ReadDir ne [''rules-root'', dirname] = Inr infos"
  shows "\<exists>names. mset names = mset (map fst (filter is_rule_file infos)) \<and> sorted names \<and>
    list_all2 (\<lambda>name c. ReadFile ne [''rules-root'', dirname, name] = Inr c) names cs"
proof -
  from assms obtain names where n: "rule_names infos = Some names"
    "read_files ne [''rules-root'', dirname] (sort names) = Inr cs"
    by (auto simp: readRulesDir_def split: option.splits)
  with read_files_ok[OF n(2)] rule_names_ok[OF n(1)] show ?thesis by (intro exI[of _ "sort names"]) auto
qed

theorem readRulesDir_files_witness:
  "readRulesDir example_node_env ''d'' = Inr [[1], [2]] \<and>
   (\<exists>names. mset names = {# ''2.txt'', ''1.txt'' #} \<and> sorted names \<and>
     list_all2 (\<lambda>name c. ReadFile example_node_env [''rules-root'', ''d'', name] = Inr c) names [[1], [2]])"
proof
  show r: "readRulesDir example_node_env ''d'' = Inr [[1], [2]]" by code_simp
  have d: "ReadDir example_node_env [''rules-root'', ''d''] =
      Inr [(''2.txt'', False), (''readme'', False), (''1.txt'', False), (''3'', True)]" by (simp add: example_node_env_def)
  have "filter is_rule_file [(''2.txt'', False), (''readme'', False), (''1.txt'', False), (''3'', True)] =
      [(''2.txt'', False), (''1.txt'', False)]" by code_simp
  with readRulesDir_files[OF r d] show "\<exists>names. mset names = {# ''2.txt'', ''1.txt'' #} \<and> sorted names \<and>
     list_all2 (\<lambda>name c. ReadFile example_node_env [''rules-root'', ''d'', name] = Inr c) names [[1], [2]]" by simp
qed

section \<open>Tokens between nodes\<close>

text \<open>
  C35: the protocol a node dials another node with is one the other node's listener takes, and what reaches the
  other node's \<open>Verify\<close> as the token is exactly the token of the configuration.
\<close>

theorem token_reaches_verify:
  assumes "NewNode ne c ls hi = (Inr nd, hi')" "nDialers (ndParts nd) x = Some (peer, protocol)"
  shows "\<exists>s \<in> set (gIpfsServers c). ipfs_name s = x \<and> peer = isPeer s \<and> stream_match protocol \<and>
    stream_verify verify p protocol =
      verify p (if isToken s \<noteq> [] then isToken s else if gIpfsToken c \<noteq> [] then gIpfsToken c else gToken c)"
proof -
  have "config_dialers c x = Some (peer, protocol)" using assms NewNode_parts(2)[OF assms(1)] by simp
  from map_of_rev_map_Some[OF this[unfolded config_dialers_def]] obtain s where s: "s \<in> set (gIpfsServers c)"
    "ipfs_name s = x" "peer = isPeer s" "protocol = ipfs_protocol c s" by auto
  have "protocol = (HybridIpfsProtocol @ PathTokenPrefix) @
      (if isToken s \<noteq> [] then isToken s else if gIpfsToken c \<noteq> [] then gIpfsToken c else gToken c)"
    by (simp add: s(4) ipfs_protocol_def)
  then have "stream_match protocol" "stream_verify verify p protocol =
      verify p (if isToken s \<noteq> [] then isToken s else if gIpfsToken c \<noteq> [] then gIpfsToken c else gToken c)"
    unfolding stream_match_def stream_verify_def by (simp_all only: TrimPrefix_append prefixI)
  with s show ?thesis by blast
qed

theorem token_reaches_verify_witness:
  "\<exists>nd hi'. NewNode example_node_env example_config None example_ipfs = (Inr nd, hi') \<and>
     (\<exists>protocol. nDialers (ndParts nd) ''b'' = Some (''Qm'', protocol) \<and>
        stream_verify (\<lambda>p t. t = ''T'') ''me'' protocol)"
proof -
  obtain nd hi' where nd: "NewNode example_node_env example_config None example_ipfs = (Inr nd, hi')" by (rule example_node)
  have d: "nDialers (ndParts nd) ''b'' = Some (''Qm'', ''/hybrid/1.0/token/T'')"
    unfolding NewNode_parts(2)[OF nd] by code_simp
  from token_reaches_verify[OF nd d, of "\<lambda>p t. t = ''T''" "''me''"] nd d show ?thesis
    by (auto simp: example_config_def)
qed

end
