(* ===== verification/Config.thy ===== *)
theory Config
  imports Node Ipfs
begin

text \<open>
  Where a node keeps its files and how it reads its configuration: \<open>src/config/tree.go\<close>, \<open>src/config/load.go\<close>, and the making
  of the IPFS node from the configuration, \<open>src/node/ipfs.go\<close> with \<open>parseTCPMultiaddr\<close> of \<open>src/node/parse.go\<close>.

  Parsing of variables, JSON and versions and the validation of a configuration are third-party code and arguments here;
  \<open>os.ExpandEnv\<close> and \<open>filepath.Abs\<close> are modelled.
\<close>

section \<open>os.ExpandEnv\<close>

definition shell_special :: "char \<Rightarrow> bool" where
  "shell_special c \<longleftrightarrow> c \<in> set ''*#$@!?-0123456789''"

definition shell_alnum :: "char \<Rightarrow> bool" where
  "shell_alnum c = (let n = (of_char c :: nat) in c = CHR ''_'' \<or> 48 \<le> n \<and> n \<le> 57 \<or> 97 \<le> n \<and> n \<le> 122 \<or> 65 \<le> n \<and> n \<le> 90)"

text \<open>The name that starts a text after a dollar sign, and how many bytes it takes.\<close>

definition getShellName :: "string \<Rightarrow> string \<times> nat" where
  "getShellName s =
     (case s of
        [] \<Rightarrow> ([], 0)
      | c # r \<Rightarrow>
          if c = CHR ''{'' then
            (case r of
               x # y # _ \<Rightarrow>
                 if shell_special x \<and> y = CHR ''}'' then ([x], 3)
                 else (case IndexByte r (CHR ''}'') of Some 0 \<Rightarrow> ([], 2) | Some i \<Rightarrow> (take i r, i + 2) | None \<Rightarrow> ([], 1))
             | _ \<Rightarrow> (case IndexByte r (CHR ''}'') of Some 0 \<Rightarrow> ([], 2) | Some i \<Rightarrow> (take i r, i + 2) | None \<Rightarrow> ([], 1)))
          else if shell_special c then ([c], 1)
          else (takeWhile shell_alnum s, length (takeWhile shell_alnum s)))"

function ExpandEnv :: "(string \<Rightarrow> string) \<Rightarrow> string \<Rightarrow> string" where
  "ExpandEnv getenv [] = []"
| "ExpandEnv getenv (c # r) =
     (if c = CHR ''$'' \<and> r \<noteq> [] then
        (case getShellName r of (name, w) \<Rightarrow>
           (if name = [] then (if w > 0 then [] else [c]) else getenv name) @ ExpandEnv getenv (drop w r))
      else c # ExpandEnv getenv r)"
  by pat_completeness auto
termination by (relation "measure (\<lambda>(g, s). length s)") auto

declare ExpandEnv.simps [simp del]

section \<open>The tree of files (tree.go)\<close>

record ConfigTree =
  tVersion :: string
  RootName :: string
  RootPath :: string
  ConfigName :: string
  ConfigPath :: string
  IpfsName :: string
  IpfsPath :: string
  StoreName :: string
  StorePath :: string
  FilesRootName :: string
  FilesRootPath :: string
  RulesRootName :: string
  RulesRootPath :: string

definition path_Abs :: "string + string \<Rightarrow> string \<Rightarrow> string + string" where
  "path_Abs cwd p = (if IsAbs p then Inr (path_Clean p) else rbind cwd (\<lambda>wd. Inr (path_Join [wd, p])))"

definition NewTree :: "(string \<Rightarrow> string) \<Rightarrow> string + string \<Rightarrow> string \<Rightarrow> string + ConfigTree" where
  "NewTree getenv cwd rootPath =
     rbind (path_Abs cwd (ExpandEnv getenv rootPath)) (\<lambda>rootPath.
       Inr \<lparr>tVersion = ''1.0'', RootName = path_Base rootPath, ConfigTree.RootPath = rootPath,
         ConfigName = ''hybrid.json'', ConfigPath = path_Join [rootPath, ''hybrid.json''],
         IpfsName = ''ipfs'', IpfsPath = path_Join [rootPath, ''ipfs''],
         StoreName = ''store'', StorePath = path_Join [rootPath, ''store''],
         FilesRootName = ''files-root'', FilesRootPath = path_Join [rootPath, ''files-root''],
         RulesRootName = ''rules-root'', RulesRootPath = path_Join [rootPath, ''rules-root'']\<rparr>)"

section \<open>Loading (load.go)\<close>

text \<open>The configuration with the fields only loading and the IPFS node use, and the tree once it was made.\<close>

record cfg_Loaded = cfg_Config +
  gRootPath :: string
  gLogDev :: bool
  gLogLevel :: string
  gLogTarget :: string
  gFakeApiListenAddr :: string
  gProfile :: "string list"
  gAutoMigrate :: bool
  gEnableIPNSPubSub :: bool
  gEnablePubSub :: bool
  gEnableMultiplex :: bool
  gTree :: "ConfigTree option"

record 'ver load_env =
  leGetenv :: "string \<Rightarrow> string"
  leCwd :: "string + string"
  EnvParse :: "cfg_Loaded \<Rightarrow> string + cfg_Loaded"
  DefaultsSet :: "cfg_Loaded \<Rightarrow> string + cfg_Loaded"
  ReadConfig :: "string \<Rightarrow> string + bytes"
  JsonVersion :: "bytes \<Rightarrow> string"
  NewVersion :: "string \<Rightarrow> string + 'ver"
  NewConstraint :: "string \<Rightarrow> string + ('ver \<Rightarrow> bool)"
  VersionText :: "'ver \<Rightarrow> string"
  Unmarshal :: "bytes \<Rightarrow> cfg_Loaded \<Rightarrow> string + cfg_Loaded"
  Validate :: "cfg_Loaded \<Rightarrow> string option"

definition get_tree :: "'ver load_env \<Rightarrow> cfg_Loaded \<Rightarrow> string + (ConfigTree \<times> cfg_Loaded)" where
  "get_tree L c =
     (case gTree c of
        Some t \<Rightarrow> Inr (t, c)
      | None \<Rightarrow> rbind (NewTree (leGetenv L) (leCwd L) (gRootPath c)) (\<lambda>t. Inr (t, c\<lparr>gTree := Some t\<rparr>)))"

datatype load_out = Loaded cfg_Loaded | LoadErr string | LoadPanic

definition zero_cfg :: cfg_Loaded where
  "zero_cfg = \<lparr>gBind = [], gToken = [], gIpfsToken = [], gListenProtocols = [], gApiServerName = [], gGatewayServerName = [],
     gIpfsServers = [], gFileServers = [], gHttpProxyServers = [], gRouters = [], gRootPath = [], gLogDev = False, gLogLevel = [], gLogTarget = [], gFakeApiListenAddr = [],
     gProfile = [], gAutoMigrate = False, gEnableIPNSPubSub = False, gEnablePubSub = False, gEnableMultiplex = False, gTree = None\<rparr>"

definition ConfigVersion :: string where "ConfigVersion = ''1''"
definition ConfigVersionConstraint :: string where "ConfigVersionConstraint = ''=1''"

text \<open>The error of making the tree is overwritten by that of reading the file, whose path is taken from the missing tree.\<close>

definition LoadConfig :: "'ver load_env \<Rightarrow> cfg_Loaded option \<Rightarrow> load_out" where
  "LoadConfig L c =
     (let c = (case c of None \<Rightarrow> zero_cfg | Some c \<Rightarrow> c) in
      case EnvParse L c of Inl e \<Rightarrow> LoadErr e | Inr c \<Rightarrow>
     (case DefaultsSet L c of Inl e \<Rightarrow> LoadErr e | Inr c \<Rightarrow>
     (case get_tree L c of Inl _ \<Rightarrow> LoadPanic | Inr (t, c) \<Rightarrow>
     (case ReadConfig L (ConfigPath t) of Inl e \<Rightarrow> LoadErr e | Inr content \<Rightarrow>
     (case NewVersion L (JsonVersion L content) of Inl e \<Rightarrow> LoadErr e | Inr ver \<Rightarrow>
     (case NewConstraint L ConfigVersionConstraint of Inl e \<Rightarrow> LoadErr e | Inr check \<Rightarrow>
      if \<not> check ver then LoadErr (''Current config version is v'' @ ConfigVersion @ '', need version '' @ [CHR 0x27] @
        ConfigVersionConstraint @ [CHR 0x27] @ '', but got v'' @ VersionText L ver)
      else
     (case Unmarshal L content c of Inl e \<Rightarrow> LoadErr e | Inr c \<Rightarrow>
     (case Validate L c of Some e \<Rightarrow> LoadErr e | None \<Rightarrow> Loaded c))))))))"

section \<open>The IPFS node of a configuration (node/ipfs.go)\<close>

text \<open>\<open>resolve\<close> gives the address and whether it names no IP; \<open>multi\<close> is the multiaddr of an address.\<close>

definition parseTCPMultiaddr ::
  "(string \<Rightarrow> ipfs_error + (ip option \<times> nat)) \<Rightarrow> (ip \<times> nat \<Rightarrow> ipfs_error + string) \<Rightarrow> string \<Rightarrow> ipfs_error + string" where
  "parseTCPMultiaddr resolve multi addr =
     rbind (resolve addr) (\<lambda>(i, port). multi (case i of None \<Rightarrow> v4InV6Prefix @ [0, 0, 0, 0] | Some i \<Rightarrow> i, port))"

definition node_NewIpfs ::
  "(string \<Rightarrow> ipfs_error + string) \<Rightarrow> 'ver load_env \<Rightarrow> 'conf daemon_env \<Rightarrow> nat \<Rightarrow> cfg_Loaded \<Rightarrow> ipfs ipfs_reply \<times> cfg_Loaded" where
  "node_NewIpfs addr L D n c =
     (case addr (gFakeApiListenAddr c) of Inl e \<Rightarrow> (IErr e, c) | Inr apiListenAddr \<Rightarrow>
     (case addr (gBind c) of Inl e \<Rightarrow> (IErr e, c) | Inr gatewayAddr \<Rightarrow>
     (case get_tree L c of Inl e \<Rightarrow> (IErr (IpfsErr e), c) | Inr (t, c) \<Rightarrow>
     (case Ipfs.NewIpfs D \<lparr>FakeApiListenAddr = apiListenAddr, GatewayListenAddr = gatewayAddr, ipfs_Config.RepoPath = IpfsPath t,
          Profile = gProfile c, AutoMigrate = gAutoMigrate c, EnableIPNSPubSub = gEnableIPNSPubSub c,
          EnablePubSub = gEnablePubSub c, EnableMultiplex = gEnableMultiplex c\<rparr> n of
        IErr e \<Rightarrow> (IErr e, c) | IPanic \<Rightarrow> (IPanic, c)
      | IOk hi \<Rightarrow> (IOk (Disconnected (Connected hi)), c)))))"

section \<open>Where the files are\<close>

text \<open>Names that are one plain element of a path.\<close>

lemma tree_names: "plain_elem ''hybrid.json''" "plain_elem ''ipfs''" "plain_elem ''store''" "plain_elem ''files-root''" "plain_elem ''rules-root''"
  by (simp_all add: plain_elem_def Separator_def)

lemma path_Abs_absolute:
  assumes "IsAbs wd" obtains r where "path_Abs (Inr wd) p = Inr (abs_path r)" "list_all plain_elem r"
proof (cases "IsAbs p")
  case True
  then show ?thesis using that Clean_absolute[of p] by (metis path_Abs_def)
next
  case False
  from assms have "IsAbs (Join [Separator] [wd, p])" by (cases wd) auto
  then obtain r where "path_Clean (Join [Separator] [wd, p]) = abs_path r" "list_all plain_elem r" by (rule Clean_absolute)
  moreover have "path_Join [wd, p] = path_Clean (Join [Separator] [wd, p])"
    using assms by (cases wd) (simp_all add: path_Join_def)
  ultimately show ?thesis using that False by (simp add: path_Abs_def)
qed

lemma Join_name: "list_all plain_elem r \<Longrightarrow> plain_elem n \<Longrightarrow> path_Join [abs_path r, n] = abs_path (r @ [n])"
  using Join_plain[of r "[n]"] by simp

definition tree_at :: "string list \<Rightarrow> ConfigTree \<Rightarrow> bool" where
  "tree_at r t \<longleftrightarrow> list_all plain_elem r \<and> ConfigTree.RootPath t = abs_path r \<and>
     RootName t = (if r = [] then [Separator] else last r) \<and>
     ConfigPath t = abs_path (r @ [''hybrid.json'']) \<and> IpfsPath t = abs_path (r @ [''ipfs'']) \<and> StorePath t = abs_path (r @ [''store'']) \<and>
     FilesRootPath t = abs_path (r @ [''files-root'']) \<and> RulesRootPath t = abs_path (r @ [''rules-root''])"

lemma Base_root: "list_all plain_elem r \<Longrightarrow> path_Base (abs_path r) = (if r = [] then [Separator] else last r)"
  by (cases r rule: rev_cases) (simp_all add: Base_abs_path, simp add: path_Base_def abs_path_def)

lemma NewTree_at:
  assumes "IsAbs wd" obtains r t where "NewTree getenv (Inr wd) root = Inr t" "tree_at r t"
proof -
  obtain r where r: "path_Abs (Inr wd) (ExpandEnv getenv root) = Inr (abs_path r)" "list_all plain_elem r"
    by (rule path_Abs_absolute[OF assms])
  then show ?thesis using that by (simp add: NewTree_def tree_at_def Join_name tree_names Base_root)
qed

lemma tree_at_distinct:
  assumes "tree_at r t" shows "distinct [ConfigPath t, IpfsPath t, StorePath t, FilesRootPath t, RulesRootPath t]"
proof -
  have "abs_path (r @ [x]) = abs_path (r @ [y]) \<longleftrightarrow> x = y" if "plain_elem x" "plain_elem y" for x y
    using that assms abs_path_inject[of "r @ [x]" "r @ [y]"] by (simp add: tree_at_def)
  with assms show ?thesis by (simp add: tree_at_def tree_names)
qed

text \<open>What a configuration that was loaded was read from.\<close>

lemma LoadConfig_ok:
  assumes "LoadConfig L c0 = Loaded c"
  obtains c1 c2 t content ver check where "rbind (EnvParse L (case c0 of None \<Rightarrow> zero_cfg | Some c \<Rightarrow> c)) (DefaultsSet L) = Inr c1"
    "get_tree L c1 = Inr (t, c2)" "ReadConfig L (ConfigPath t) = Inr content"
    "NewVersion L (JsonVersion L content) = Inr ver" "NewConstraint L ''=1'' = Inr check" "check ver"
    "Unmarshal L content c2 = Inr c" "Validate L c = None"
  using assms unfolding LoadConfig_def Let_def ConfigVersionConstraint_def
  by (auto split: sum.splits prod.splits if_splits option.splits intro: that)

lemma get_tree_new:
  assumes "get_tree L c1 = Inr (t, c2)" "leCwd L = Inr wd" "IsAbs wd" "gTree c1 = None"
  shows "gTree c2 = Some t \<and> (\<exists>r. tree_at r t)"
proof -
  obtain r u where "NewTree (leGetenv L) (Inr wd) (gRootPath c1) = Inr u" "tree_at r u" by (rule NewTree_at[OF assms(3)])
  with assms show ?thesis by (auto simp: get_tree_def)
qed

lemma NewIpfs_config:
  assumes "Ipfs.NewIpfs D c n = IOk hi" "ipfs_Config.RepoPath c \<noteq> []" shows "config hi = c"
proof -
  from assms have "CheckPlugins D (ipfs_Config.RepoPath c) = Inr ()" "createOfflineNode D c = IOk ()"
    by (cases "CheckPlugins D (ipfs_Config.RepoPath c)"; cases "createOfflineNode D c"; simp add: NewIpfs_def)+
  with assms show ?thesis by (auto simp: NewIpfs_def)
qed

lemma node_NewIpfs_ok:
  assumes "node_NewIpfs addr L D n c = (IOk hi, c')" "gTree c = Some t" "IpfsPath t \<noteq> []"
  shows "ipfs_Config.RepoPath (config hi) = IpfsPath t \<and> AutoMigrate (config hi) = gAutoMigrate c \<and> inode hi = OfflineNode n \<and>
    onConnected hi \<and> onDisconnected hi \<and> plisteners hi = []"
proof -
  obtain a b where "addr (gFakeApiListenAddr c) = Inr a" "addr (gBind c) = Inr b"
    using assms(1) by (cases "addr (gFakeApiListenAddr c)"; cases "addr (gBind c)") (auto simp: node_NewIpfs_def)
  with assms(1,2) obtain hi0 where hi: "hi = Disconnected (Connected hi0)"
    "Ipfs.NewIpfs D \<lparr>FakeApiListenAddr = a, GatewayListenAddr = b, ipfs_Config.RepoPath = IpfsPath t,
          Profile = gProfile c, AutoMigrate = gAutoMigrate c, EnableIPNSPubSub = gEnableIPNSPubSub c,
          EnablePubSub = gEnablePubSub c, EnableMultiplex = gEnableMultiplex c\<rparr> n = IOk hi0"
    by (auto simp: node_NewIpfs_def get_tree_def split: ipfs_reply.splits)
  from NewIpfs_config[OF hi(2)] NewIpfs_ok[OF hi(2)] assms(3) hi(1) show ?thesis
    by (auto simp: Connected_def Disconnected_def)
qed

text \<open>
  A configuration that was loaded has its tree: the paths of the tree are different places directly inside one directory, and
  the configuration was read from the first, had the right version and was found valid. \<open>keep\<close> says that the libraries,
  which only set exported fields, do not touch the tree.
\<close>

lemma LoadConfig_tree:
  assumes load: "LoadConfig L c0 = Loaded c" and wd: "leCwd L = Inr wd" "IsAbs wd" and new: "\<And>c. c0 = Some c \<Longrightarrow> gTree c = None"
    and keep: "\<And>c1 c2. EnvParse L c1 = Inr c2 \<or> DefaultsSet L c1 = Inr c2 \<or> (\<exists>b. Unmarshal L b c1 = Inr c2) \<Longrightarrow> gTree c2 = gTree c1"
  obtains r t content ver check where "gTree c = Some t" "tree_at r t" "ReadConfig L (ConfigPath t) = Inr content"
    "NewVersion L (JsonVersion L content) = Inr ver" "NewConstraint L ''=1'' = Inr check" "check ver" "Validate L c = None"
proof -
  obtain c1 c2 t content ver check where l: "rbind (EnvParse L (case c0 of None \<Rightarrow> zero_cfg | Some c \<Rightarrow> c)) (DefaultsSet L) = Inr c1"
    "get_tree L c1 = Inr (t, c2)" "ReadConfig L (ConfigPath t) = Inr content"
    "NewVersion L (JsonVersion L content) = Inr ver" "NewConstraint L ''=1'' = Inr check" "check ver"
    "Unmarshal L content c2 = Inr c" "Validate L c = None"
    by (rule LoadConfig_ok[OF load])
  have "gTree (case c0 of None \<Rightarrow> zero_cfg | Some c \<Rightarrow> c) = None" using new by (cases c0) (simp_all add: zero_cfg_def)
  with l(1) keep have "gTree c1 = None" unfolding rbind_Inr_iff by metis
  with get_tree_new[OF l(2) wd] obtain r where r: "gTree c2 = Some t" "tree_at r t" by blast
  then have "gTree c = Some t" using keep l(7) by metis
  then show ?thesis using that r(2) l(3-6,8) by blast
qed

text \<open>When the working directory is not known and the root path is relative, loading panics instead of returning the error.\<close>

lemma LoadConfig_panics:
  assumes "EnvParse L c = Inr c1" "DefaultsSet L c1 = Inr c2" "gTree c2 = None" "leCwd L = Inl e" "\<not> IsAbs (ExpandEnv (leGetenv L) (gRootPath c2))"
  shows "LoadConfig L (Some c) = LoadPanic"
  using assms by (simp add: LoadConfig_def get_tree_def NewTree_def path_Abs_def)

definition example_load_env :: "nat load_env" where
  "example_load_env = \<lparr>leGetenv = (\<lambda>v. if v = ''HOME'' then ''/home/u'' else []), leCwd = Inr ''/tmp'',
     EnvParse = Inr, DefaultsSet = (\<lambda>c. Inr (if gRootPath c = [] then c\<lparr>gRootPath := ''$HOME/.hybrid''\<rparr> else c)),
     ReadConfig = (\<lambda>p. if p = ''/home/u/.hybrid/hybrid.json'' then Inr [1] else Inl ''no such file''),
     JsonVersion = (\<lambda>_. ''1''), NewVersion = (\<lambda>_. Inr 1), NewConstraint = (\<lambda>_. Inr (\<lambda>v. v = 1)), VersionText = (\<lambda>_. ''1''),
     Unmarshal = (\<lambda>_ c. Inr (c\<lparr>gBind := '':7777'', gListenProtocols := [''/hybrid/1.0'']\<rparr>)), Validate = (\<lambda>_. None)\<rparr>"

end
