(* ===== verification/Keystore.thy ===== *)
theory Keystore
  imports Bufpool "HOL-Library.List_Lexorder"
begin

text \<open>
  The store of verification keys: \<open>src/pkg/authstore/keystore.go\<close>, over the buffer pool of
  \<open>Bufpool\<close>. Keys live in a badger database under \<open>prefix ++ big-endian id\<close>;
  id 0 is the place of the user's meta data, and badger keeps the id sequence under \<open>prefix\<close> itself.

  Badger and the protobuf codec are third-party code, hence parameters (\<open>ks_env\<close>). What the
  store relies on, its specification and the proofs are in \<open>KeystoreSpec\<close>.
\<close>

section \<open>Byte order of big-endian integers\<close>

text \<open>
  Big-endian encodings of equal length are ordered like the numbers they encode; an iterator over the
  store's keys therefore visits the ids in numerical order.
\<close>

fun be_val :: "bytes \<Rightarrow> nat" where
  "be_val [] = 0"
| "be_val (b # bs) = unat b * 256 ^ length bs + be_val bs"

lemma be_val_bound: "be_val bs < 256 ^ length bs"
proof (induction bs)
  case (Cons b bs)
  have "unat b < 256" using unsigned_less[of b] by simp
  then have "unat b * 256 ^ length bs + 256 ^ length bs \<le> 256 * (256 ^ length bs :: nat)"
    by (metis Suc_leI add.commute mult_Suc mult_le_mono1)
  with Cons have "unat b * 256 ^ length bs + be_val bs < 256 * 256 ^ length bs" by linarith
  then show ?case by simp
qed simp

lemma be_val_less: "length xs = length ys \<Longrightarrow> xs < ys \<longleftrightarrow> be_val xs < be_val ys"
proof (induction xs ys rule: list_induct2)
  case (Cons x xs y ys)
  consider "x < y" | "x = y" | "y < x" by (metis linorder_less_linear)
  then show ?case
  proof cases
    case 1
    then have "unat x + 1 \<le> unat y" by (simp add: word_less_nat_alt)
    then have "unat x * 256 ^ length ys + 256 ^ length ys \<le> unat y * 256 ^ length ys"
      by (metis add_mult_distrib mult_1 mult_le_mono1)
    with 1 Cons(1) be_val_bound[of xs] show ?thesis by (simp)
  next
    case 2
    with Cons show ?thesis by simp
  next
    case 3
    then have "unat y + 1 \<le> unat x" by (simp add: word_less_nat_alt)
    then have "unat y * 256 ^ length ys + 256 ^ length ys \<le> unat x * 256 ^ length ys"
      by (metis add_mult_distrib mult_1 mult_le_mono1)
    moreover have "\<not> x # xs < y # ys" using 3 by auto
    ultimately show ?thesis using Cons(1) be_val_bound[of ys] by simp
  qed
qed simp

lemma unat_byte_at: "unat (ucast (drop_bit n v) :: byte) = unat v div 2 ^ n mod 256" for v :: "'a::len word"
  by (simp add: unsigned_ucast_eq unat_drop_bit_eq take_bit_eq_mod) (simp add: drop_bit_eq_div)

lemma be_val_PutUint64: "be_val (PutUint64 v) = unat v"
proof -
  define q where "q k = unat v div 2 ^ k" for k
  have "unat v < 2 ^ 64" using unsigned_less[of v] by simp
  then have top: "q 56 mod 256 = q 56" by (simp add: q_def)
  have part: "q k = 256 * q (k + 8) + q k mod 256" for k
    using div_mult2_eq[of "unat v" "2 ^ k" 256] mult_div_mod_eq[of 256 "q k"] by (simp add: q_def power_add)
  have byte: "unat (ucast (drop_bit k v) :: byte) = q k mod 256" for k
    by (simp add: q_def unat_byte_at)
  have "be_val (PutUint64 v) = q 56 * 2 ^ 56 + q 48 mod 256 * 2 ^ 48 + q 40 mod 256 * 2 ^ 40 +
      q 32 mod 256 * 2 ^ 32 + q 24 mod 256 * 2 ^ 24 + q 16 mod 256 * 2 ^ 16 + q 8 mod 256 * 2 ^ 8 + q 0 mod 256"
    using top byte[of 0] by (simp add: PutUint64_def byte)
  also have "\<dots> = q 0"
    using part[of 0] part[of 8] part[of 16] part[of 24] part[of 32] part[of 40] part[of 48] by simp
  finally show ?thesis by (simp add: q_def)
qed

text \<open>The contract of a codec that keeps the order, for keys under a common prefix.\<close>

locale ordered_codec = fixed_codec +
  assumes enc_less: "enc v < enc w \<longleftrightarrow> (v :: 'a :: linorder) < w"
begin

lemma prefixed_less: "p @ enc v < p @ enc w \<longleftrightarrow> v < w"
  by (induction p) (simp_all add: enc_less)
end

interpretation be64_ord: ordered_codec 8 PutUint64 Uint64
  by unfold_locales (simp add: be_val_less be_val_PutUint64 word_less_nat_alt)

section \<open>Slices\<close>

text \<open>\<open>copy(dst, src)\<close> into the front of a slice.\<close>

definition go_copy :: "bytes \<Rightarrow> bytes \<Rightarrow> bytes" where
  "go_copy dst src = take (length dst) src @ drop (length src) dst"

section \<open>Types\<close>

datatype ks_error =
    ErrDBRequired | ErrPrefixRequired | ErrKeyExpired | ErrInvalidKeyID
  | ErrKeyNotFound
  | ErrOther string

record AuthKey =
  Id :: u64
  Key :: bytes
  Tags :: "string list"
  Desc :: string
  CreatedAt :: "64 word"
  ExpiresAt :: "64 word"

record Secure =
  Encrypt :: "bytes \<Rightarrow> bytes"
  Decrypt :: "bytes \<Rightarrow> ks_error + bytes"

definition nonCrypto :: Secure where
  "nonCrypto = \<lparr>Encrypt = (\<lambda>plaintext. plaintext), Decrypt = (\<lambda>ciphertext. Inr ciphertext)\<rparr>"

text \<open>
  Badger and protobuf, as the store calls them: a read transaction getting one key, an update
  transaction setting or deleting one key, the items an iterator visits from \<open>Seek\<close> on (each with the result
  of \<open>ValueCopy\<close>), the sequences, and the two directions of the codec.
\<close>

record ('db, 'seq) ks_env =
  Txn_Get :: "'db \<Rightarrow> bytes \<Rightarrow> ks_error + bytes"
  Txn_Set :: "'db \<Rightarrow> bytes \<Rightarrow> bytes \<Rightarrow> ks_error + 'db"
  Txn_Delete :: "'db \<Rightarrow> bytes \<Rightarrow> ks_error + 'db"
  Iterate :: "'db \<Rightarrow> bool \<Rightarrow> bytes \<Rightarrow> (bytes \<times> (ks_error + bytes)) list"
  GetSequence :: "'db \<Rightarrow> bytes \<Rightarrow> nat \<Rightarrow> ks_error + 'seq \<times> 'db"
  Seq_Next :: "'seq \<Rightarrow> 'db \<Rightarrow> (ks_error + u64) \<times> 'seq \<times> 'db"
  Seq_Release :: "'seq \<Rightarrow> 'db \<Rightarrow> 'db"
  Marshal :: "AuthKey \<Rightarrow> ks_error + bytes"
  Unmarshal :: "bytes \<Rightarrow> ks_error + AuthKey"
  MaxSlice :: int

record 'db ks_config =
  cfg_DB :: "'db option"
  cfg_Prefix :: bytes

text \<open>
  The store. The value pool is left out: its buffers are only used as capacity (\<open>buf[:0]\<close>), so
  their content is never read.
\<close>

record 'db KeyStore =
  db :: 'db
  ks_prefix :: bytes
  prefixLen :: nat
  metaKey :: bytes
  secure :: Secure
  keypool :: Pool

section \<open>Operations\<close>

definition New :: "'db ks_config \<Rightarrow> ks_error + 'db KeyStore" where
  "New config =
     (case cfg_DB config of None \<Rightarrow> Inl ErrDBRequired
      | Some d \<Rightarrow>
        if cfg_Prefix config = [] then Inl ErrPrefixRequired
        else let plen = length (cfg_Prefix config);
                 metaKey = cfg_Prefix config @ PutUint64 0;
                 prefix = take plen metaKey
             in Inr \<lparr>db = d, ks_prefix = prefix, prefixLen = plen, metaKey = metaKey,
                     secure = nonCrypto, keypool = NewSizeModify (plen + 8) (\<lambda>b. go_copy b prefix)\<rparr>)"

definition setSecure :: "Secure \<Rightarrow> 'db KeyStore \<Rightarrow> 'db KeyStore" where
  "setSecure sec s = s\<lparr>secure := sec\<rparr>"

text \<open>
  A key buffer is taken from the pool, its id is overwritten, and it is put back when the operation
  returns.
\<close>

definition with_key :: "'db KeyStore \<Rightarrow> u64 \<Rightarrow> bytes \<times> 'db KeyStore" where
  "with_key s i =
     (let (b, kp) = Pool_Get (keypool s);
          key = take (prefixLen s) b @ PutUint64 i @ drop (prefixLen s + 8) b
      in (key, s\<lparr>keypool := Pool_Put key kp\<rparr>))"

definition NextId :: "('db, 'seq) ks_env \<Rightarrow> 'db KeyStore \<Rightarrow> (ks_error + u64) \<times> 'db KeyStore" where
  "NextId E s =
     (case GetSequence E (db s) (ks_prefix s) 1 of
        Inl e \<Rightarrow> (Inl e, s)
      | Inr (seq, d) \<Rightarrow>
          (case Seq_Next E seq d of
             (Inl e, seq, d) \<Rightarrow> (Inl e, s\<lparr>db := Seq_Release E seq d\<rparr>)
           | (Inr num, seq, d) \<Rightarrow>
               if num \<noteq> 0 then (Inr num, s\<lparr>db := Seq_Release E seq d\<rparr>)
               else (case Seq_Next E seq d of
                       (r, seq, d) \<Rightarrow> (r, s\<lparr>db := Seq_Release E seq d\<rparr>))))"

text \<open>\<open>Save\<close> fills in the id of its argument, so it returns the key as it is then, with the error.\<close>

definition save_with_id ::
  "('db, 'seq) ks_env \<Rightarrow> 'db KeyStore \<Rightarrow> AuthKey \<Rightarrow> ks_error option \<times> AuthKey \<times> 'db KeyStore" where
  "save_with_id E s ak =
     (case Marshal E ak of
        Inl e \<Rightarrow> (Some e, ak, s)
      | Inr plaintext \<Rightarrow>
          let ciphertext = Encrypt (secure s) plaintext; (key, s) = with_key s (Id ak)
          in (case Txn_Set E (db s) key ciphertext of
                Inl e \<Rightarrow> (Some e, ak, s)
              | Inr d \<Rightarrow> (None, ak, s\<lparr>db := d\<rparr>)))"

definition Save ::
  "('db, 'seq) ks_env \<Rightarrow> 'db KeyStore \<Rightarrow> AuthKey \<Rightarrow> ks_error option \<times> AuthKey \<times> 'db KeyStore" where
  "Save E s ak =
     (if Id ak = 0
      then (case NextId E s of
              (Inl e, s) \<Rightarrow> (Some e, ak\<lparr>Id := 0\<rparr>, s)
            | (Inr n, s) \<Rightarrow> save_with_id E s (ak\<lparr>Id := n\<rparr>))
      else save_with_id E s ak)"

text \<open>Decrypting and unmarshalling one stored value.\<close>

definition open_value :: "('db, 'seq) ks_env \<Rightarrow> Secure \<Rightarrow> bytes \<Rightarrow> ks_error + AuthKey" where
  "open_value E sec c = rbind (Decrypt sec c) (Unmarshal E)"

definition Find :: "('db, 'seq) ks_env \<Rightarrow> 'db KeyStore \<Rightarrow> u64 \<Rightarrow> (ks_error + AuthKey) \<times> 'db KeyStore" where
  "Find E s i =
     (if i = 0 then (Inl ErrInvalidKeyID, s)
      else let (key, s) = with_key s i
           in (rbind (Txn_Get E (db s) key) (open_value E (secure s)), s))"

definition GetKey ::
  "('db, 'seq) ks_env \<Rightarrow> 64 word \<Rightarrow> 'db KeyStore \<Rightarrow> bytes \<Rightarrow> (ks_error + bytes) \<times> 'db KeyStore" where
  "GetKey E now s keyid =
     (if length keyid \<noteq> 8 then (Inl ErrInvalidKeyID, s)
      else case Find E s (Uint64 keyid) of
             (Inl e, s) \<Rightarrow> (Inl e, s)
           | (Inr ak, s) \<Rightarrow>
               if sint now < sint (ExpiresAt ak) then (Inl ErrKeyExpired, s) else (Inr (Key ak), s))"

text \<open>
  The loop of \<open>Slice\<close> over the items of the iterator, with the values copied so far; \<open>None\<close> is the
  panic of \<open>valueBufs[total]\<close> past its end.
\<close>

fun slice_loop ::
  "bool \<Rightarrow> bytes \<Rightarrow> bytes \<Rightarrow> nat \<Rightarrow> (bytes \<times> (ks_error + bytes)) list \<Rightarrow> bytes list
     \<Rightarrow> (bytes list \<times> ks_error option) option" where
  "slice_loop reverse pre meta n [] acc = Some (acc, None)"
| "slice_loop reverse pre meta n ((k, r) # items) acc =
     (if \<not> HasPrefix k pre then Some (acc, None)
      else if reverse \<and> k = meta then slice_loop reverse pre meta n items acc
      else if n \<le> length acc then None
      else case r of
             Inl e \<Rightarrow> Some (acc, Some e)
           | Inr v \<Rightarrow> slice_loop reverse pre meta n items (acc @ [v]))"

fun open_values :: "('db, 'seq) ks_env \<Rightarrow> Secure \<Rightarrow> bytes list \<Rightarrow> AuthKey list \<times> ks_error option" where
  "open_values E sec [] = ([], None)"
| "open_values E sec (v # vs) =
     (case open_value E sec v of
        Inl e \<Rightarrow> ([], Some e)
      | Inr ak \<Rightarrow> (case open_values E sec vs of (aks, e) \<Rightarrow> (ak # aks, e)))"

text \<open>
  \<open>Slice\<close>; the result \<open>None\<close> is a panic: \<open>make\<close> with a size that is negative or greater than the run time allows
  (\<open>MaxSlice\<close>), or an index out of range when there are more keys than \<open>size\<close>. Running out of memory, which ends the
  process, is not modelled.
\<close>

definition Slice ::
  "('db, 'seq) ks_env \<Rightarrow> 'db KeyStore \<Rightarrow> u64 \<Rightarrow> int \<Rightarrow> bool
     \<Rightarrow> (AuthKey list \<times> ks_error option) option \<times> 'db KeyStore" where
  "Slice E s start sz reverse =
     (let start = (if start = 0 \<and> \<not> reverse then 1 else start) in
      if sz < 0 \<or> MaxSlice E < sz then (None, s)
      else let (key, s) = with_key s start in
        (case slice_loop reverse (ks_prefix s) (metaKey s) (nat sz) (Iterate E (db s) reverse key) [] of
           None \<Rightarrow> (None, s)
         | Some (vs, verr) \<Rightarrow>
             (case open_values E (secure s) vs of
                (aks, Some e) \<Rightarrow> (Some (aks, Some e), s)
              | (aks, None) \<Rightarrow> (Some (aks, verr), s))))"

definition Delete :: "('db, 'seq) ks_env \<Rightarrow> 'db KeyStore \<Rightarrow> u64 \<Rightarrow> ks_error option \<times> 'db KeyStore" where
  "Delete E s i =
     (if i = 0 then (Some ErrInvalidKeyID, s)
      else let (key, s) = with_key s i
           in (case Txn_Delete E (db s) key of
                 Inl e \<Rightarrow> (Some e, s) | Inr d \<Rightarrow> (None, s\<lparr>db := d\<rparr>)))"

definition SetMeta :: "('db, 'seq) ks_env \<Rightarrow> 'db KeyStore \<Rightarrow> bytes \<Rightarrow> ks_error option \<times> 'db KeyStore" where
  "SetMeta E s meta =
     (case Txn_Set E (db s) (metaKey s) meta of Inl e \<Rightarrow> (Some e, s) | Inr d \<Rightarrow> (None, s\<lparr>db := d\<rparr>))"

definition GetMeta :: "('db, 'seq) ks_env \<Rightarrow> 'db KeyStore \<Rightarrow> ks_error + bytes" where
  "GetMeta E s = Txn_Get E (db s) (metaKey s)"

definition DeleteMeta :: "('db, 'seq) ks_env \<Rightarrow> 'db KeyStore \<Rightarrow> ks_error option \<times> 'db KeyStore" where
  "DeleteMeta E s =
     (case Txn_Delete E (db s) (metaKey s) of Inl e \<Rightarrow> (Some e, s) | Inr d \<Rightarrow> (None, s\<lparr>db := d\<rparr>))"

end
