(* ===== verification/KeystoreSpec.thy ===== *)
theory KeystoreSpec
  imports Keystore "HOL-Library.AList"
begin

text \<open>
  What the key store of \<open>Keystore\<close> relies on and what it promises. \<open>env_ok\<close> states the documented behaviour of
  badger and protobuf: transactions read and write one key, an iterator visits the keys of the database in byte
  order, a sequence hands out increasing integers and only touches its own key, and unmarshalling gives back what
  was marshalled. \<open>ks_inv\<close> is the invariant of the store, \<open>vault_step\<close> its specification as a map from ids to keys
  with a place for meta data, and \<open>ks_abs\<close> the abstraction between the two. A database in memory shows that
  the assumptions can be met, and serves the examples.
\<close>

section \<open>What the store relies on\<close>

text \<open>
  The observable content of a database: the value under each key (\<open>view\<close>), the least integer a
  sequence may still hand out (\<open>floor\<close>), and the key a sequence object belongs to.
\<close>

record ('db, 'seq) ks_view =
  view :: "'db \<Rightarrow> bytes \<Rightarrow> bytes option"
  seq_floor :: "'db \<Rightarrow> bytes \<Rightarrow> nat"
  seq_key :: "'seq \<Rightarrow> bytes"

text \<open>A step of a sequence for key \<open>k\<close> changes no other key and no other sequence.\<close>

definition seq_only :: "('db, 'seq) ks_view \<Rightarrow> bytes \<Rightarrow> 'db \<Rightarrow> 'db \<Rightarrow> bool" where
  "seq_only V k d d' \<longleftrightarrow>
     (\<forall>k'. k' \<noteq> k \<longrightarrow> view V d' k' = view V d k' \<and> seq_floor V d' k' = seq_floor V d k') \<and>
     seq_floor V d k \<le> seq_floor V d' k"

definition txn_ok :: "('db, 'seq) ks_env \<Rightarrow> ('db, 'seq) ks_view \<Rightarrow> bool" where
  "txn_ok E V \<longleftrightarrow>
     (\<forall>d k. Txn_Get E d k = (case view V d k of None \<Rightarrow> Inl ErrKeyNotFound | Some v \<Rightarrow> Inr v)) \<and>
     (\<forall>d k v d'. Txn_Set E d k v = Inr d' \<longrightarrow>
        view V d' = (view V d)(k \<mapsto> v) \<and> (\<forall>k'. k' \<noteq> k \<longrightarrow> seq_floor V d' k' = seq_floor V d k')) \<and>
     (\<forall>d k d'. Txn_Delete E d k = Inr d' \<longrightarrow>
        view V d' = (view V d)(k := None) \<and> (\<forall>k'. k' \<noteq> k \<longrightarrow> seq_floor V d' k' = seq_floor V d k'))"

definition iterator_ok :: "('db, 'seq) ks_env \<Rightarrow> ('db, 'seq) ks_view \<Rightarrow> bool" where
  "iterator_ok E V \<longleftrightarrow>
     (\<forall>d k. sorted_wrt (<) (map fst (Iterate E d False k)) \<and>
        set (Iterate E d False k) = {(k', Inr v) | k' v. view V d k' = Some v \<and> k \<le> k'}) \<and>
     (\<forall>d k. sorted_wrt (>) (map fst (Iterate E d True k)) \<and>
        set (Iterate E d True k) = {(k', Inr v) | k' v. view V d k' = Some v \<and> k' \<le> k})"

definition sequence_ok :: "('db, 'seq) ks_env \<Rightarrow> ('db, 'seq) ks_view \<Rightarrow> bool" where
  "sequence_ok E V \<longleftrightarrow>
     (\<forall>d k bw sq d'. GetSequence E d k bw = Inr (sq, d') \<longrightarrow> seq_key V sq = k \<and> seq_only V k d d') \<and>
     (\<forall>sq d r sq' d'. Seq_Next E sq d = (r, sq', d') \<longrightarrow>
        seq_key V sq' = seq_key V sq \<and> seq_only V (seq_key V sq) d d' \<and>
        (\<forall>n. r = Inr n \<longrightarrow> seq_floor V d (seq_key V sq) \<le> unat n \<and> seq_floor V d' (seq_key V sq) = unat n + 1)) \<and>
     (\<forall>sq d. seq_only V (seq_key V sq) d (Seq_Release E sq d) \<and>
        seq_floor V (Seq_Release E sq d) (seq_key V sq) = seq_floor V d (seq_key V sq))"

definition codec_ok :: "('db, 'seq) ks_env \<Rightarrow> bool" where
  "codec_ok E \<longleftrightarrow> (\<forall>ak b. Marshal E ak = Inr b \<longrightarrow> Unmarshal E b = Inr ak)"

definition env_ok :: "('db, 'seq) ks_env \<Rightarrow> ('db, 'seq) ks_view \<Rightarrow> bool" where
  "env_ok E V \<longleftrightarrow> txn_ok E V \<and> iterator_ok E V \<and> sequence_ok E V \<and> codec_ok E"

definition secure_ok :: "Secure \<Rightarrow> bool" where
  "secure_ok sec \<longleftrightarrow> (\<forall>p. Decrypt sec (Encrypt sec p) = Inr p)"

section \<open>Invariant\<close>

definition skey :: "'db KeyStore \<Rightarrow> u64 \<Rightarrow> bytes" where
  "skey s i = ks_prefix s @ PutUint64 i"

text \<open>The fields agree with each other, and every pooled key buffer starts with the prefix.\<close>

definition ks_wf :: "'db KeyStore \<Rightarrow> bool" where
  "ks_wf s \<longleftrightarrow> ks_prefix s \<noteq> [] \<and> prefixLen s = length (ks_prefix s) \<and> metaKey s = skey s 0 \<and>
     pool_all (\<lambda>b. \<exists>i. b = skey s i) (keypool s)"

text \<open>
  Under the prefix there is nothing but the sequence, the meta data, and keys that open to an
  \<open>AuthKey\<close> with the id they are stored under.
\<close>

definition ks_data :: "('db, 'seq) ks_env \<Rightarrow> ('db, 'seq) ks_view \<Rightarrow> 'db KeyStore \<Rightarrow> bool" where
  "ks_data E V s \<longleftrightarrow>
     (\<forall>k v. view V (db s) k = Some v \<longrightarrow> HasPrefix k (ks_prefix s) \<longrightarrow>
        k = ks_prefix s \<or> k = skey s 0 \<or>
        (\<exists>ak. k = skey s (Id ak) \<and> Id ak \<noteq> 0 \<and> open_value E (secure s) v = Inr ak))"

definition ks_inv :: "('db, 'seq) ks_env \<Rightarrow> ('db, 'seq) ks_view \<Rightarrow> 'db KeyStore \<Rightarrow> bool" where
  "ks_inv E V s \<longleftrightarrow> ks_wf s \<and> secure_ok (secure s) \<and> ks_data E V s"

section \<open>Abstract specification: a map from ids to keys\<close>

text \<open>\<open>vnext\<close> bounds the ids still to be given out, \<open>vmax\<close> is the longest list that can be asked for.\<close>

record vault =
  vkeys :: "u64 \<Rightarrow> AuthKey option"
  vmeta :: "bytes option"
  vnext :: nat
  vmax :: int

datatype ks_op =
    OpSave AuthKey | OpFind u64 | OpGetKey "64 word" bytes | OpSlice u64 int bool | OpDelete u64
  | OpSetMeta bytes | OpGetMeta | OpDeleteMeta | OpNextId

datatype ks_out =
    OErr ks_error | ODone | OKey AuthKey | OBytes bytes | OId u64
  | OKeys "(AuthKey list \<times> ks_error option) option"

text \<open>The keys from id \<open>i\<close> on, in the order of their ids.\<close>

definition lists_from :: "(u64 \<Rightarrow> AuthKey option) \<Rightarrow> u64 \<Rightarrow> AuthKey list \<Rightarrow> bool" where
  "lists_from m i aks \<longleftrightarrow>
     sorted_wrt (<) (map Id aks) \<and> set aks = {ak. \<exists>j. i \<le> j \<and> m j = Some ak}"

text \<open>
  The promise of each operation. A write may fail and then changes no key; a failed \<open>Save\<close> of a new key may
  have used up ids. A forward \<open>Slice\<close> lists the keys from its start, or panics when they are more than
  its size or the size is not one of a slice; the promise says nothing about a reverse one.
\<close>

inductive vault_step :: "vault \<Rightarrow> ks_op \<Rightarrow> ks_out \<Rightarrow> vault \<Rightarrow> bool" where
  save_known: "Id ak \<noteq> 0 \<Longrightarrow> vault_step m (OpSave ak) (OKey ak) (m\<lparr>vkeys := (vkeys m)(Id ak \<mapsto> ak)\<rparr>)"
| save_new: "Id ak = 0 \<Longrightarrow> n \<noteq> 0 \<Longrightarrow> vnext m \<le> unat n \<Longrightarrow> vault_step m (OpSave ak) (OKey (ak\<lparr>Id := n\<rparr>))
    (m\<lparr>vnext := unat n + 1, vkeys := (vkeys m)(n \<mapsto> ak\<lparr>Id := n\<rparr>)\<rparr>)"
| save_failed: "vnext m \<le> n \<Longrightarrow> (Id ak \<noteq> 0 \<Longrightarrow> n = vnext m) \<Longrightarrow> vault_step m (OpSave ak) (OErr e) (m\<lparr>vnext := n\<rparr>)"
| find: "i \<noteq> 0 \<Longrightarrow> out = (case vkeys m i of None \<Rightarrow> OErr ErrKeyNotFound | Some ak \<Rightarrow> OKey ak) \<Longrightarrow>
    vault_step m (OpFind i) out m"
| find_meta: "vault_step m (OpFind 0) (OErr ErrInvalidKeyID) m"
| getkey_bad: "length keyid \<noteq> 8 \<or> Uint64 keyid = 0 \<Longrightarrow> vault_step m (OpGetKey now keyid) (OErr ErrInvalidKeyID) m"
| getkey: "length keyid = 8 \<Longrightarrow> Uint64 keyid \<noteq> 0 \<Longrightarrow>
    out = (case vkeys m (Uint64 keyid) of None \<Rightarrow> OErr ErrKeyNotFound
      | Some ak \<Rightarrow> if sint now < sint (ExpiresAt ak) then OErr ErrKeyExpired else OBytes (Key ak)) \<Longrightarrow>
    vault_step m (OpGetKey now keyid) out m"
| slice: "lists_from (vkeys m) (max 1 start) aks \<Longrightarrow> int (length aks) \<le> n \<Longrightarrow> n \<le> vmax m \<Longrightarrow>
    vault_step m (OpSlice start n False) (OKeys (Some (aks, None))) m"
| slice_panic: "lists_from (vkeys m) (max 1 start) aks \<Longrightarrow> n < int (length aks) \<or> n < 0 \<or> vmax m < n \<Longrightarrow>
    vault_step m (OpSlice start n False) (OKeys None) m"
| slice_reverse: "vault_step m (OpSlice start n True) (OKeys r) m"
| delete: "i \<noteq> 0 \<Longrightarrow> vault_step m (OpDelete i) ODone (m\<lparr>vkeys := (vkeys m)(i := None)\<rparr>)"
| delete_failed: "i = 0 \<longrightarrow> e = ErrInvalidKeyID \<Longrightarrow> vault_step m (OpDelete i) (OErr e) m"
| set_meta: "vault_step m (OpSetMeta b) ODone (m\<lparr>vmeta := Some b\<rparr>)"
| set_meta_failed: "vault_step m (OpSetMeta b) (OErr e) m"
| get_meta: "out = (case vmeta m of None \<Rightarrow> OErr ErrKeyNotFound | Some b \<Rightarrow> OBytes b) \<Longrightarrow> vault_step m OpGetMeta out m"
| delete_meta: "vault_step m OpDeleteMeta ODone (m\<lparr>vmeta := None\<rparr>)"
| delete_meta_failed: "vault_step m OpDeleteMeta (OErr e) m"
| next_id: "n \<noteq> 0 \<Longrightarrow> vnext m \<le> unat n \<Longrightarrow> vault_step m OpNextId (OId n) (m\<lparr>vnext := unat n + 1\<rparr>)"
| next_id_failed: "vnext m \<le> n \<Longrightarrow> vault_step m OpNextId (OErr e) (m\<lparr>vnext := n\<rparr>)"

fun vault_run :: "vault \<Rightarrow> (ks_op \<times> ks_out) list \<Rightarrow> vault \<Rightarrow> bool" where
  "vault_run m [] m' \<longleftrightarrow> m = m'"
| "vault_run m ((op, out) # l) m' \<longleftrightarrow> (\<exists>m1. vault_step m op out m1 \<and> vault_run m1 l m')"

text \<open>The operations of the store by name, and sequences of them.\<close>

definition err_out :: "ks_out \<Rightarrow> ks_error option \<Rightarrow> ks_out" where
  "err_out ok e = (case e of None \<Rightarrow> ok | Some e \<Rightarrow> OErr e)"

definition res_out :: "('a \<Rightarrow> ks_out) \<Rightarrow> ks_error + 'a \<Rightarrow> ks_out" where
  "res_out f r = (case r of Inl e \<Rightarrow> OErr e | Inr a \<Rightarrow> f a)"

fun exec :: "('db, 'seq) ks_env \<Rightarrow> 'db KeyStore \<Rightarrow> ks_op \<Rightarrow> ks_out \<times> 'db KeyStore" where
  "exec E s (OpSave ak) = (case Save E s ak of (e, ak', s') \<Rightarrow> (err_out (OKey ak') e, s'))"
| "exec E s (OpFind i) = map_prod (res_out OKey) id (Find E s i)"
| "exec E s (OpGetKey now keyid) = map_prod (res_out OBytes) id (GetKey E now s keyid)"
| "exec E s (OpSlice start n reverse) = map_prod OKeys id (Slice E s start n reverse)"
| "exec E s (OpDelete i) = map_prod (err_out ODone) id (Delete E s i)"
| "exec E s (OpSetMeta b) = map_prod (err_out ODone) id (SetMeta E s b)"
| "exec E s OpGetMeta = (res_out OBytes (GetMeta E s), s)"
| "exec E s OpDeleteMeta = map_prod (err_out ODone) id (DeleteMeta E s)"
| "exec E s OpNextId = map_prod (res_out OId) id (NextId E s)"

fun exec_all :: "('db, 'seq) ks_env \<Rightarrow> 'db KeyStore \<Rightarrow> ks_op list \<Rightarrow> (ks_op \<times> ks_out) list \<times> 'db KeyStore" where
  "exec_all E s [] = ([], s)"
| "exec_all E s (op # ops) =
     (case exec E s op of (out, s') \<Rightarrow> (case exec_all E s' ops of (l, s'') \<Rightarrow> ((op, out) # l, s'')))"

text \<open>The abstract state that a store stands for.\<close>

definition abs_keys :: "('db, 'seq) ks_env \<Rightarrow> ('db, 'seq) ks_view \<Rightarrow> 'db KeyStore \<Rightarrow> u64 \<Rightarrow> AuthKey option" where
  "abs_keys E V s i =
     (if i = 0 then None
      else case view V (db s) (skey s i) of None \<Rightarrow> None
           | Some v \<Rightarrow> (case open_value E (secure s) v of Inl _ \<Rightarrow> None | Inr ak \<Rightarrow> Some ak))"

definition ks_abs :: "('db, 'seq) ks_env \<Rightarrow> ('db, 'seq) ks_view \<Rightarrow> 'db KeyStore \<Rightarrow> vault" where
  "ks_abs E V s = \<lparr>vkeys = abs_keys E V s, vmeta = view V (db s) (skey s 0), vnext = seq_floor V (db s) (ks_prefix s), vmax = MaxSlice E\<rparr>"

section \<open>Lemmas\<close>

named_theorems ks_upd \<open>what the updates of single fields leave as it is\<close>

lemma skey_eq [simp]: "skey s i = skey s j \<longleftrightarrow> i = j"
  by (simp add: skey_def be64.enc_inject)

lemma skey_less [simp]: "skey s i < skey s j \<longleftrightarrow> i < j"
  by (simp add: skey_def be64_ord.prefixed_less)

lemma skey_le [simp]: "skey s i \<le> skey s j \<longleftrightarrow> i \<le> j"
  by (simp add: linorder_not_less[symmetric])

lemma skey_ne_prefix [simp]: "skey s i \<noteq> ks_prefix s" "ks_prefix s \<noteq> skey s i"
  by (auto simp: skey_def PutUint64_def)

lemma skey_has_prefix [simp]: "prefix (ks_prefix s) (skey s i)"
  by (simp add: skey_def)

lemma skey_upd [simp, ks_upd]: "skey (s\<lparr>db := d\<rparr>) i = skey s i" "skey (s\<lparr>keypool := kp\<rparr>) i = skey s i"
  by (simp_all add: skey_def)

lemma ks_wf_db [simp, ks_upd]: "ks_wf (s\<lparr>db := d\<rparr>) = ks_wf s"
  by (simp add: ks_wf_def)

lemma ks_data_keypool [simp, ks_upd]: "ks_data E V (s\<lparr>keypool := kp\<rparr>) = ks_data E V s"
  by (simp add: ks_data_def)

lemma ks_abs_keypool [simp, ks_upd]: "ks_abs E V (s\<lparr>keypool := kp\<rparr>) = ks_abs E V s"
  by (simp add: ks_abs_def abs_keys_def fun_eq_iff cong: option.case_cong)

lemma PutUint64_0: "PutUint64 0 = replicate 8 0"
  by (simp add: PutUint64_def numeral_eq_Suc)

text \<open>\<open>New\<close> gives a well-formed store over an unused prefix.\<close>

lemma New_ok:
  assumes "New \<lparr>cfg_DB = Some d, cfg_Prefix = p\<rparr> = Inr s"
  shows "ks_wf s" "secure s = nonCrypto" "db s = d" "ks_prefix s = p"
  using assms
  by (auto simp: New_def ks_wf_def skey_def Let_def NewSizeModify_def pool_all_def go_copy_def PutUint64_0 split: if_splits
      intro!: exI[of _ 0])

lemma nonCrypto_ok [simp]: "secure_ok nonCrypto"
  by (simp add: secure_ok_def nonCrypto_def)

text \<open>Whatever buffer the pool gives, the operation works on the key for its id.\<close>

lemma with_key_ok:
  assumes "ks_wf s"
  obtains kp where "with_key s i = (skey s i, s\<lparr>keypool := kp\<rparr>)" "ks_wf (s\<lparr>keypool := kp\<rparr>)"
proof -
  obtain b kp where g: "Pool_Get (keypool s) = (b, kp)" by force
  have "pool_all (\<lambda>b. \<exists>j. b = skey s j) (keypool s)" using assms by (simp add: ks_wf_def)
  from pool_all_Get[OF this g] have b: "\<exists>j. b = skey s j" and kp: "pool_all (\<lambda>b. \<exists>j. b = skey s j) kp" by blast+
  have "with_key s i = (skey s i, s\<lparr>keypool := Pool_Put (skey s i) kp\<rparr>)"
    using assms g b by (auto simp: with_key_def ks_wf_def skey_def Let_def)
  moreover have "ks_wf (s\<lparr>keypool := Pool_Put (skey s i) kp\<rparr>)"
    using assms pool_all_Put[OF kp, of "skey s i"] by (auto simp: ks_wf_def skey_def)
  ultimately show thesis by (rule that)
qed

lemma ks_inv_upd:
  "ks_wf (s\<lparr>keypool := kp\<rparr>) \<Longrightarrow> ks_inv E V s \<Longrightarrow> ks_inv E V (s\<lparr>keypool := kp\<rparr>)"
  by (simp add: ks_inv_def)

text \<open>The effect on the abstract state of each kind of write to the database.\<close>

lemma write_key:
  assumes "ks_inv E V s" "view V d = (view V (db s))(skey s (Id ak) \<mapsto> c)" "Id ak \<noteq> 0"
    "open_value E (secure s) c = Inr ak" "seq_floor V d (ks_prefix s) = seq_floor V (db s) (ks_prefix s)"
  shows "ks_inv E V (s\<lparr>db := d\<rparr>) \<and>
    ks_abs E V (s\<lparr>db := d\<rparr>) = (ks_abs E V s)\<lparr>vkeys := (vkeys (ks_abs E V s))(Id ak \<mapsto> ak)\<rparr>"
  using assms by (auto simp: ks_inv_def ks_data_def ks_abs_def abs_keys_def fun_eq_iff cong: option.case_cong)

lemma erase_key:
  assumes "ks_inv E V s" "view V d = (view V (db s))(skey s i := None)" "i \<noteq> 0"
    "seq_floor V d (ks_prefix s) = seq_floor V (db s) (ks_prefix s)"
  shows "ks_inv E V (s\<lparr>db := d\<rparr>) \<and>
    ks_abs E V (s\<lparr>db := d\<rparr>) = (ks_abs E V s)\<lparr>vkeys := (vkeys (ks_abs E V s))(i := None)\<rparr>"
  using assms by (auto simp: ks_inv_def ks_data_def ks_abs_def abs_keys_def fun_eq_iff cong: option.case_cong)

lemma write_meta:
  assumes "ks_inv E V s" "view V d = (view V (db s))(skey s 0 := b)"
    "seq_floor V d (ks_prefix s) = seq_floor V (db s) (ks_prefix s)"
  shows "ks_inv E V (s\<lparr>db := d\<rparr>) \<and> ks_abs E V (s\<lparr>db := d\<rparr>) = (ks_abs E V s)\<lparr>vmeta := b\<rparr>"
  using assms by (auto simp: ks_inv_def ks_data_def ks_abs_def abs_keys_def fun_eq_iff cong: option.case_cong)

lemma advance_sequence:
  assumes "ks_inv E V s" "seq_only V (ks_prefix s) (db s) d"
  shows "ks_inv E V (s\<lparr>db := d\<rparr>) \<and>
    ks_abs E V (s\<lparr>db := d\<rparr>) = (ks_abs E V s)\<lparr>vnext := seq_floor V d (ks_prefix s)\<rparr> \<and>
    vnext (ks_abs E V s) \<le> seq_floor V d (ks_prefix s)"
proof -
  have v: "k \<noteq> ks_prefix s \<Longrightarrow> view V d k = view V (db s) k" for k using assms(2) by (simp add: seq_only_def)
  have "ks_data E V (s\<lparr>db := d\<rparr>)" unfolding ks_data_def
  proof (intro allI impI)
    fix k b assume "view V (db (s\<lparr>db := d\<rparr>)) k = Some b" "prefix (ks_prefix (s\<lparr>db := d\<rparr>)) k"
    then show "k = ks_prefix (s\<lparr>db := d\<rparr>) \<or> k = skey (s\<lparr>db := d\<rparr>) 0 \<or> (\<exists>ak. k = skey (s\<lparr>db := d\<rparr>) (Id ak) \<and>
        Id ak \<noteq> 0 \<and> open_value E (secure (s\<lparr>db := d\<rparr>)) b = Inr ak)"
      using assms(1) v[of k] by (cases "k = ks_prefix s") (auto simp: ks_inv_def ks_data_def)
  qed
  with assms v show ?thesis
    by (auto simp: ks_inv_def ks_abs_def abs_keys_def fun_eq_iff seq_only_def cong: option.case_cong)
qed

lemma seq_only_trans: "seq_only V k a b \<Longrightarrow> seq_only V k b c \<Longrightarrow> seq_only V k a c"
  by (auto simp: seq_only_def)

text \<open>What the database promises, as rules.\<close>

lemma env_okD:
  assumes "env_ok E V"
  shows "Txn_Get E d k = (case view V d k of None \<Rightarrow> Inl ErrKeyNotFound | Some v \<Rightarrow> Inr v)"
    and "Txn_Set E d k b = Inr d' \<Longrightarrow> view V d' = (view V d)(k \<mapsto> b)"
    and "Txn_Set E d k b = Inr d' \<Longrightarrow> k' \<noteq> k \<Longrightarrow> seq_floor V d' k' = seq_floor V d k'"
    and "Txn_Delete E d k = Inr d' \<Longrightarrow> view V d' = (view V d)(k := None)"
    and "Txn_Delete E d k = Inr d' \<Longrightarrow> k' \<noteq> k \<Longrightarrow> seq_floor V d' k' = seq_floor V d k'"
    and "GetSequence E d k bw = Inr (sq, d') \<Longrightarrow> seq_key V sq = k \<and> seq_only V k d d'"
    and "Marshal E ak = Inr b \<Longrightarrow> Unmarshal E b = Inr ak"
  using assms by (simp_all add: env_ok_def txn_ok_def sequence_ok_def codec_ok_def)

lemma Seq_NextD:
  assumes "env_ok E V" "Seq_Next E sq d = (r, sq', d')"
  shows "seq_key V sq' = seq_key V sq" "seq_only V (seq_key V sq) d d'"
    "r = Inr n \<Longrightarrow> seq_floor V d (seq_key V sq) \<le> unat n \<and> seq_floor V d' (seq_key V sq) = unat n + 1"
  using assms by (simp_all add: env_ok_def sequence_ok_def)

lemma Seq_ReleaseD:
  assumes "env_ok E V"
  shows "seq_only V (seq_key V sq) d (Seq_Release E sq d)"
    "seq_floor V (Seq_Release E sq d) (seq_key V sq) = seq_floor V d (seq_key V sq)"
  using assms by (simp_all add: env_ok_def sequence_ok_def)

text \<open>\<open>NextId\<close> only moves the sequence, gives no id below its floor, and never gives 0.\<close>

lemma NextId_seq:
  assumes E: "env_ok E V" and n: "NextId E s = (r, s')"
  shows "\<exists>d. s' = s\<lparr>db := d\<rparr> \<and> seq_only V (ks_prefix s) (db s) d \<and>
    (\<forall>i. r = Inr i \<longrightarrow> i \<noteq> 0 \<and> seq_floor V (db s) (ks_prefix s) \<le> unat i \<and> seq_floor V d (ks_prefix s) = unat i + 1)"
proof (cases "GetSequence E (db s) (ks_prefix s) 1")
  case (Inl e)
  with n show ?thesis by (auto simp: NextId_def seq_only_def intro!: exI[of _ "db s"])
next
  case (Inr p)
  then obtain sq d where g: "GetSequence E (db s) (ks_prefix s) 1 = Inr (sq, d)" by (cases p) auto
  obtain r1 sq1 d1 where n1: "Seq_Next E sq d = (r1, sq1, d1)" by (metis prod_cases3)
  obtain r2 sq2 d2 where n2: "Seq_Next E sq1 d1 = (r2, sq2, d2)" by (metis prod_cases3)
  note s0 = env_okD(6)[OF E g] and s1 = Seq_NextD[OF E n1] and s2 = Seq_NextD[OF E n2]
  have k: "seq_key V sq = ks_prefix s" "seq_key V sq1 = ks_prefix s" "seq_key V sq2 = ks_prefix s"
    using s0 s1(1) s2(1) by simp_all
  note rel = Seq_ReleaseD[OF E, where sq = sq1 and d = d1] Seq_ReleaseD[OF E, where sq = sq2 and d = d2]
  have f: "seq_floor V (db s) (ks_prefix s) \<le> seq_floor V d (ks_prefix s)"
    "seq_floor V d (ks_prefix s) \<le> seq_floor V d1 (ks_prefix s)"
    using s0 s1(2) k by (simp_all add: seq_only_def)
  have o1: "seq_only V (ks_prefix s) (db s) d1" and o2: "seq_only V (ks_prefix s) (db s) d2"
    using s0 s1(2) s2(2) k by (auto intro: seq_only_trans)
  then have o: "seq_only V (ks_prefix s) (db s) (Seq_Release E sq1 d1)" "seq_only V (ks_prefix s) (db s) (Seq_Release E sq2 d2)"
    using rel k by (auto intro: seq_only_trans)
  show ?thesis
  proof (cases "r1 = Inr 0")
    case True
    then have "r = r2" "s' = s\<lparr>db := Seq_Release E sq2 d2\<rparr>" using n g n1 n2 by (auto simp: NextId_def)
    then show ?thesis using o(2) f s1(3)[OF True] s2(3) rel(4) k by (auto intro!: exI[of _ "Seq_Release E sq2 d2"])
  next
    case False
    then have "r = r1" "s' = s\<lparr>db := Seq_Release E sq1 d1\<rparr>"
      using n g n1 by (cases r1; auto simp: NextId_def)+
    then show ?thesis using False o(1) f s1(3) rel(2) k
      by (auto intro!: exI[of _ "Seq_Release E sq1 d1"])
  qed
qed


section \<open>The store implements the specification\<close>

text \<open>What it means that an operation meets its promise and keeps the invariant.\<close>

definition refines :: "('db, 'seq) ks_env \<Rightarrow> ('db, 'seq) ks_view \<Rightarrow> 'db KeyStore \<Rightarrow> ks_op \<Rightarrow> ks_out \<Rightarrow> 'db KeyStore \<Rightarrow> bool" where
  "refines E V s op out s' \<longleftrightarrow> ks_inv E V s' \<and> vault_step (ks_abs E V s) op out (ks_abs E V s')"

lemma refines_keypool:
  assumes "ks_wf (s\<lparr>keypool := kp\<rparr>)" "ks_inv E V s" "vault_step (ks_abs E V s) op out (ks_abs E V s)"
  shows "refines E V s op out (s\<lparr>keypool := kp\<rparr>)"
  using assms by (simp add: refines_def ks_inv_upd)

lemma open_value_encrypt:
  "env_ok E V \<Longrightarrow> secure_ok sec \<Longrightarrow> Marshal E ak = Inr b \<Longrightarrow> open_value E sec (Encrypt sec b) = Inr ak"
  by (simp add: open_value_def secure_ok_def env_okD(7))

text \<open>A stored key opens to the key of the abstract map.\<close>

lemma abs_keys_stored:
  assumes "ks_inv E V s" "i \<noteq> 0" "view V (db s) (skey s i) = Some b"
  obtains ak where "open_value E (secure s) b = Inr ak" "Id ak = i" "abs_keys E V s i = Some ak"
proof -
  have "skey s i = ks_prefix s \<or> skey s i = skey s 0 \<or>
      (\<exists>ak. skey s i = skey s (Id ak) \<and> Id ak \<noteq> 0 \<and> open_value E (secure s) b = Inr ak)"
    using assms(1,3) skey_has_prefix[of s i] unfolding ks_inv_def ks_data_def by blast
  with assms(2) obtain ak where "Id ak = i" "open_value E (secure s) b = Inr ak" by auto
  with assms that show thesis by (simp add: abs_keys_def)
qed

lemma abs_keys_SomeD:
  assumes "ks_inv E V s" "abs_keys E V s i = Some ak"
  shows "i \<noteq> 0" "Id ak = i" "\<exists>b. view V (db s) (skey s i) = Some b \<and> open_value E (secure s) b = Inr ak"
proof -
  from assms(2) obtain b where b: "i \<noteq> 0" "view V (db s) (skey s i) = Some b" "open_value E (secure s) b = Inr ak"
    by (auto simp: abs_keys_def split: if_splits option.splits sum.splits)
  from abs_keys_stored[OF assms(1) b(1,2)] b(3) have "Id ak = i" by auto
  with b show "i \<noteq> 0" "Id ak = i" "\<exists>b. view V (db s) (skey s i) = Some b \<and> open_value E (secure s) b = Inr ak"
    by auto
qed

lemma Find_result:
  assumes E: "env_ok E V" and s: "ks_inv E V s" and i: "i \<noteq> 0"
  shows "\<exists>kp. Find E s i = (case abs_keys E V s i of None \<Rightarrow> Inl ErrKeyNotFound | Some ak \<Rightarrow> Inr ak, s\<lparr>keypool := kp\<rparr>)
    \<and> ks_wf (s\<lparr>keypool := kp\<rparr>)"
proof -
  from s obtain kp where kp: "with_key s i = (skey s i, s\<lparr>keypool := kp\<rparr>)" "ks_wf (s\<lparr>keypool := kp\<rparr>)"
    unfolding ks_inv_def by (blast elim: with_key_ok)
  show ?thesis
  proof (cases "view V (db s) (skey s i)")
    case None
    with kp i E show ?thesis by (auto simp: Find_def env_okD(1) abs_keys_def)
  next
    case (Some b)
    with abs_keys_stored[OF s i] kp i E show ?thesis by (fastforce simp: Find_def env_okD(1))
  qed
qed

lemma Find_refines: "env_ok E V \<Longrightarrow> ks_inv E V s \<Longrightarrow> Find E s i = (r, s') \<Longrightarrow> refines E V s (OpFind i) (res_out OKey r) s'"
proof (cases "i = 0")
  case True
  assume "ks_inv E V s" "Find E s i = (r, s')"
  with True show ?thesis by (auto simp: Find_def refines_def res_out_def intro: vault_step.find_meta)
next
  case False
  assume "env_ok E V" "ks_inv E V s" "Find E s i = (r, s')"
  with Find_result[of E V s i] False show ?thesis
    by (fastforce intro!: refines_keypool vault_step.find simp: res_out_def ks_abs_def split: option.splits)
qed

lemma GetKey_refines:
  assumes E: "env_ok E V" and s: "ks_inv E V s" and g: "GetKey E now s keyid = (r, s')"
  shows "refines E V s (OpGetKey now keyid) (res_out OBytes r) s'"
proof (cases "length keyid = 8 \<and> Uint64 keyid \<noteq> 0")
  case False
  then have "r = Inl ErrInvalidKeyID \<and> s' = s" using g by (auto simp: GetKey_def Find_def split: if_splits)
  with s False show ?thesis by (auto simp: refines_def res_out_def intro: vault_step.getkey_bad)
next
  case True
  then have k: "length keyid = 8" "Uint64 keyid \<noteq> 0" by simp_all
  obtain kp where kp: "Find E s (Uint64 keyid) = (case abs_keys E V s (Uint64 keyid) of None \<Rightarrow> Inl ErrKeyNotFound
      | Some ak \<Rightarrow> Inr ak, s\<lparr>keypool := kp\<rparr>)" "ks_wf (s\<lparr>keypool := kp\<rparr>)"
    using Find_result[OF E s k(2)] by blast
  then have "s' = s\<lparr>keypool := kp\<rparr>" "res_out OBytes r = (case vkeys (ks_abs E V s) (Uint64 keyid) of None \<Rightarrow> OErr ErrKeyNotFound
      | Some ak \<Rightarrow> if sint now < sint (ExpiresAt ak) then OErr ErrKeyExpired else OBytes (Key ak))"
    using g k(1) by (auto simp: GetKey_def res_out_def ks_abs_def split: option.splits if_splits)
  with refines_keypool[OF kp(2) s vault_step.getkey[OF k]] show ?thesis by simp
qed

lemma NextId_refines:
  assumes E: "env_ok E V" and s: "ks_inv E V s" and n: "NextId E s = (r, s')"
  shows "refines E V s OpNextId (res_out OId r) s'"
proof -
  obtain d where d: "s' = s\<lparr>db := d\<rparr>" "seq_only V (ks_prefix s) (db s) d"
    "\<forall>i. r = Inr i \<longrightarrow> i \<noteq> 0 \<and> seq_floor V (db s) (ks_prefix s) \<le> unat i \<and> seq_floor V d (ks_prefix s) = unat i + 1"
    using NextId_seq[OF E n] by blast
  note a = advance_sequence[OF s d(2)]
  show ?thesis
  proof (cases r)
    case (Inl e)
    with a d(1) show ?thesis by (simp add: refines_def res_out_def vault_step.next_id_failed)
  next
    case (Inr i)
    with d(3) have "i \<noteq> 0" "vnext (ks_abs E V s) \<le> unat i" "seq_floor V d (ks_prefix s) = unat i + 1"
      by (simp_all add: ks_abs_def)
    with a d(1) Inr vault_step.next_id show ?thesis by (simp add: refines_def res_out_def)
  qed
qed

lemma save_with_id_refines:
  assumes E: "env_ok E V" and s: "ks_inv E V s" and i: "Id ak \<noteq> 0" and sv: "save_with_id E s ak = (e, ak', s')"
  shows "ak' = ak \<and> ks_inv E V s' \<and>
    ks_abs E V s' = (if e = None then (ks_abs E V s)\<lparr>vkeys := (vkeys (ks_abs E V s))(Id ak \<mapsto> ak)\<rparr> else ks_abs E V s)"
proof (cases "Marshal E ak")
  case (Inl e)
  with sv s show ?thesis by (auto simp: save_with_id_def)
next
  case (Inr b)
  let ?c = "Encrypt (secure s) b"
  from s obtain kp where kp: "with_key s (Id ak) = (skey s (Id ak), s\<lparr>keypool := kp\<rparr>)" "ks_wf (s\<lparr>keypool := kp\<rparr>)"
    unfolding ks_inv_def by (blast elim: with_key_ok)
  note s1 = ks_inv_upd[OF kp(2) s]
  have op: "open_value E (secure s) ?c = Inr ak"
    using open_value_encrypt[OF E _ Inr] s by (simp add: ks_inv_def)
  show ?thesis
  proof (cases "Txn_Set E (db s) (skey s (Id ak)) ?c")
    case (Inl e)
    with sv Inr kp s1 show ?thesis by (auto simp: save_with_id_def)
  next
    case (Inr d)
    with sv \<open>Marshal E ak = _\<close> kp have s': "e = None" "ak' = ak" "s' = (s\<lparr>keypool := kp\<rparr>)\<lparr>db := d\<rparr>"
      by (auto simp: save_with_id_def)
    have w: "view V d = (view V (db (s\<lparr>keypool := kp\<rparr>)))(skey (s\<lparr>keypool := kp\<rparr>) (Id ak) \<mapsto> ?c)"
      "seq_floor V d (ks_prefix (s\<lparr>keypool := kp\<rparr>)) = seq_floor V (db (s\<lparr>keypool := kp\<rparr>)) (ks_prefix (s\<lparr>keypool := kp\<rparr>))"
      using env_okD(2,3)[OF E Inr] by simp_all
    from write_key[OF s1 w(1) i _ w(2)] op s' show ?thesis by simp
  qed
qed

lemma Save_refines:
  assumes E: "env_ok E V" and s: "ks_inv E V s" and sv: "Save E s ak = (e, ak', s')"
  shows "refines E V s (OpSave ak) (err_out (OKey ak') e) s'"
proof (cases "Id ak = 0")
  case False
  then have "save_with_id E s ak = (e, ak', s')" using sv by (simp add: Save_def)
  note r = save_with_id_refines[OF E s False this]
  show ?thesis
  proof (cases e)
    case None
    with r vault_step.save_known[OF False, of "ks_abs E V s"] show ?thesis by (simp add: refines_def err_out_def)
  next
    case (Some x)
    with r vault_step.save_failed[of "ks_abs E V s" "vnext (ks_abs E V s)" ak x] show ?thesis
      by (simp add: refines_def err_out_def)
  qed
next
  case True
  obtain r s1 where n: "NextId E s = (r, s1)" by force
  then obtain d where d: "s1 = s\<lparr>db := d\<rparr>" "seq_only V (ks_prefix s) (db s) d"
    "\<forall>i. r = Inr i \<longrightarrow> i \<noteq> 0 \<and> seq_floor V (db s) (ks_prefix s) \<le> unat i \<and> seq_floor V d (ks_prefix s) = unat i + 1"
    using NextId_seq[OF E n] by blast
  note a = advance_sequence[OF s d(2)]
  show ?thesis
  proof (cases r)
    case (Inl x)
    with sv n True have "e = Some x" "s' = s1" by (auto simp: Save_def)
    with a d(1) True show ?thesis by (simp add: refines_def err_out_def vault_step.save_failed)
  next
    case (Inr i)
    with sv n True have sv': "save_with_id E s1 (ak\<lparr>Id := i\<rparr>) = (e, ak', s')" by (simp add: Save_def)
    from Inr d(3) have i: "i \<noteq> 0" "vnext (ks_abs E V s) \<le> unat i" "seq_floor V d (ks_prefix s) = unat i + 1"
      by (simp_all add: ks_abs_def)
    have s1: "ks_inv E V s1" "ks_abs E V s1 = (ks_abs E V s)\<lparr>vnext := unat i + 1\<rparr>" using a d(1) i(3) by simp_all
    note r = save_with_id_refines[OF E s1(1) _ sv', simplified, OF i(1)]
    show ?thesis
    proof (cases e)
      case None
      with r s1(2) vault_step.save_new[OF True i(1,2)] show ?thesis
        by (simp add: refines_def err_out_def) 
    next
      case (Some x)
      with r s1(2) i(2) True show ?thesis by (simp add: refines_def err_out_def vault_step.save_failed)
    qed
  qed
qed

lemma Delete_refines:
  assumes E: "env_ok E V" and s: "ks_inv E V s" and dl: "Delete E s i = (e, s')"
  shows "refines E V s (OpDelete i) (err_out ODone e) s'"
proof (cases "i = 0")
  case True
  with dl s show ?thesis by (auto simp: Delete_def refines_def err_out_def intro: vault_step.delete_failed)
next
  case False
  from s obtain kp where kp: "with_key s i = (skey s i, s\<lparr>keypool := kp\<rparr>)" "ks_wf (s\<lparr>keypool := kp\<rparr>)"
    unfolding ks_inv_def by (blast elim: with_key_ok)
  let ?s = "s\<lparr>keypool := kp\<rparr>"
  note s1 = ks_inv_upd[OF kp(2) s]
  show ?thesis
  proof (cases "Txn_Delete E (db s) (skey s i)")
    case (Inl x)
    with dl kp False have "s' = ?s" "e = Some x" by (auto simp: Delete_def)
    with False show ?thesis by (simp add: err_out_def refines_keypool[OF kp(2) s] vault_step.delete_failed)
  next
    case (Inr d)
    have w: "view V d = (view V (db ?s))(skey ?s i := None)" "seq_floor V d (ks_prefix ?s) = seq_floor V (db ?s) (ks_prefix ?s)"
      using env_okD(4,5)[OF E Inr] by simp_all
    from dl kp False Inr have s': "s' = ?s\<lparr>db := d\<rparr>" "e = None" by (auto simp: Delete_def)
    from erase_key[OF s1 w(1) False w(2)] s' vault_step.delete[OF False, of "ks_abs E V s"] show ?thesis
      by (simp add: refines_def err_out_def)
  qed
qed

lemma meta_refines:
  assumes E: "env_ok E V" and s: "ks_inv E V s"
  shows "SetMeta E s b = (e, s') \<Longrightarrow> refines E V s (OpSetMeta b) (err_out ODone e) s'"
    and "DeleteMeta E s = (e, s') \<Longrightarrow> refines E V s OpDeleteMeta (err_out ODone e) s'"
    and "refines E V s OpGetMeta (res_out OBytes (GetMeta E s)) s"
proof -
  have m: "metaKey s = skey s 0" using s by (simp add: ks_inv_def ks_wf_def)
  show "refines E V s (OpSetMeta b) (err_out ODone e) s'" if sm: "SetMeta E s b = (e, s')"
  proof (cases "Txn_Set E (db s) (skey s 0) b")
    case (Inl x)
    with sm s m show ?thesis by (auto simp: SetMeta_def refines_def err_out_def intro: vault_step.set_meta_failed)
  next
    case (Inr d)
    with sm m have s': "s' = s\<lparr>db := d\<rparr>" "e = None" by (auto simp: SetMeta_def)
    from write_meta[OF s env_okD(2)[OF E Inr]] env_okD(3)[OF E Inr] s' show ?thesis
      by (simp add: refines_def err_out_def vault_step.set_meta)
  qed
  show "refines E V s OpDeleteMeta (err_out ODone e) s'" if dm: "DeleteMeta E s = (e, s')"
  proof (cases "Txn_Delete E (db s) (skey s 0)")
    case (Inl x)
    with dm s m show ?thesis by (auto simp: DeleteMeta_def refines_def err_out_def intro: vault_step.delete_meta_failed)
  next
    case (Inr d)
    with dm m have s': "s' = s\<lparr>db := d\<rparr>" "e = None" by (auto simp: DeleteMeta_def)
    from write_meta[OF s env_okD(4)[OF E Inr]] env_okD(5)[OF E Inr] s' show ?thesis
      by (simp add: refines_def err_out_def vault_step.delete_meta)
  qed
  show "refines E V s OpGetMeta (res_out OBytes (GetMeta E s)) s"
    using s m E by (auto simp: refines_def GetMeta_def env_okD(1) res_out_def ks_abs_def intro!: vault_step.get_meta split: option.splits)
qed

text \<open>The keys under a prefix are next to each other in the byte order.\<close>

lemma prefix_convex:
  fixes p lo k hi :: bytes
  shows "prefix p lo \<Longrightarrow> prefix p hi \<Longrightarrow> lo \<le> k \<Longrightarrow> k \<le> hi \<Longrightarrow> prefix p k"
proof (induction p arbitrary: lo k hi)
  case (Cons c p)
  from Cons.prems(1,2) obtain u v where "lo = c # p @ u" "hi = c # p @ v" by (auto elim!: prefixE)
  with Cons.prems(3,4) Cons.IH[of "p @ u" "p @ v"] show ?case by (cases k) auto
qed simp

lemma less_append: "x \<noteq> [] \<Longrightarrow> p < p @ x" for p x :: bytes
  by (induction p) (cases x, auto)

lemma takeWhile_filter: "sorted_wrt (\<lambda>a b. P b \<longrightarrow> P a) xs \<Longrightarrow> takeWhile P xs = filter P xs"
proof (induction xs)
  case (Cons x xs)
  then show ?case by (cases "P x") (auto simp: filter_empty_conv)
qed simp

text \<open>The items a \<open>Slice\<close> copies, when every value can be read.\<close>

definition slice_items :: "bool \<Rightarrow> bytes \<Rightarrow> bytes \<Rightarrow> (bytes \<times> 'b) list \<Rightarrow> (bytes \<times> 'b) list" where
  "slice_items reverse p meta items =
     filter (\<lambda>x. \<not> (reverse \<and> fst x = meta)) (takeWhile (\<lambda>x. prefix p (fst x)) items)"

lemma slice_loop_reads:
  assumes "\<forall>x \<in> set items. \<exists>b. snd x = Inr b" "length acc \<le> n"
  shows "slice_loop reverse p meta n items acc =
    (let vs = map (projr \<circ> snd) (slice_items reverse p meta items)
     in if length acc + length vs \<le> n then Some (acc @ vs, None) else None)"
  using assms
proof (induction items arbitrary: acc)
  case (Cons x items)
  then show ?case by (cases x) (auto simp: slice_items_def)
qed (simp add: slice_items_def)

lemma open_values_ok:
  "\<forall>b \<in> set bs. \<exists>ak. open_value E sec b = Inr ak \<Longrightarrow>
    open_values E sec (bs @ cs) = (case open_values E sec cs of (aks, e) \<Rightarrow> (map (\<lambda>b. projr (open_value E sec b)) bs @ aks, e))"
  by (induction bs) (auto split: prod.splits)


lemma iterator_okD:
  assumes "env_ok E V"
  shows "sorted_wrt (<) (map fst (Iterate E d False k))"
    "set (Iterate E d False k) = {(k', Inr v) | k' v. view V d k' = Some v \<and> k \<le> k'}"
    "sorted_wrt (>) (map fst (Iterate E d True k))"
    "set (Iterate E d True k) = {(k', Inr v) | k' v. view V d k' = Some v \<and> k' \<le> k}"
  using assms by (simp_all only: env_ok_def iterator_ok_def)

text \<open>
  An item of the iterator under the prefix that is neither the sequence nor the meta data is a stored
  key, opened by \<open>item_key\<close>.
\<close>

definition item_key :: "('db, 'seq) ks_env \<Rightarrow> 'db KeyStore \<Rightarrow> bytes \<times> (ks_error + bytes) \<Rightarrow> AuthKey" where
  "item_key E s x = projr (open_value E (secure s) (projr (snd x)))"

lemma item_key_stored:
  assumes s: "ks_inv E V s" and x: "view V (db s) k = Some b" "prefix (ks_prefix s) k" "k \<noteq> ks_prefix s" "k \<noteq> skey s 0"
  shows "k = skey s (Id (item_key E s (k, Inr b)))"
    "open_value E (secure s) b = Inr (item_key E s (k, Inr b))"
    "abs_keys E V s (Id (item_key E s (k, Inr b))) = Some (item_key E s (k, Inr b))"
proof -
  from s x obtain ak where ak: "k = skey s (Id ak)" "Id ak \<noteq> 0" "open_value E (secure s) b = Inr ak"
    unfolding ks_inv_def ks_data_def by blast
  then have "item_key E s (k, Inr b) = ak" by (simp add: item_key_def)
  with ak x(1) show "k = skey s (Id (item_key E s (k, Inr b)))"
    "open_value E (secure s) b = Inr (item_key E s (k, Inr b))"
    "abs_keys E V s (Id (item_key E s (k, Inr b))) = Some (item_key E s (k, Inr b))"
    by (simp_all add: abs_keys_def)
qed

text \<open>The items of a forward iteration from an id other than 0 are the stored keys in order.\<close>

lemma forward_items:
  assumes E: "env_ok E V" and s: "ks_inv E V s" and i: "i \<noteq> 0"
  defines "its \<equiv> slice_items False (ks_prefix s) (metaKey s) (Iterate E (db s) False (skey s i))"
  shows "lists_from (abs_keys E V s) i (map (item_key E s) its)"
    "\<forall>x \<in> set its. \<exists>ak. open_value E (secure s) (projr (snd x)) = Inr ak"
proof -
  let ?items = "Iterate E (db s) False (skey s i)" and ?P = "\<lambda>x. prefix (ks_prefix s) (fst x)"
  have st: "set ?items = {(k', Inr v) | k' v. view V (db s) k' = Some v \<and> skey s i \<le> k'}"
    by (rule iterator_okD(2)[OF E])
  have so: "sorted_wrt (\<lambda>a b. fst a < fst b) ?items" using iterator_okD(1)[OF E] by (simp add: sorted_wrt_map)
  then have "sorted_wrt (\<lambda>a b. ?P b \<longrightarrow> ?P a) ?items"
  proof (rule sorted_wrt_mono_rel[rotated])
    fix a b assume "a \<in> set ?items" "fst a < fst b"
    then show "?P b \<longrightarrow> ?P a" using prefix_convex[OF skey_has_prefix[of s i], of "fst b" "fst a"] st by auto
  qed
  then have its: "its = filter ?P ?items" by (simp add: its_def slice_items_def takeWhile_filter)
  have x: "k \<noteq> ks_prefix s \<and> k \<noteq> skey s 0" if "skey s i \<le> k" for k
  proof -
    have "ks_prefix s < skey s i" unfolding skey_def by (rule less_append) (simp add: PutUint64_def)
    with that i show ?thesis by (auto simp: linorder_not_less[symmetric] word_gt_0)
  qed
  have mem: "fst y = skey s (Id (item_key E s y)) \<and> (\<exists>ak. open_value E (secure s) (projr (snd y)) = Inr ak) \<and>
      i \<le> Id (item_key E s y) \<and> abs_keys E V s (Id (item_key E s y)) = Some (item_key E s y)" if "y \<in> set its" for y
  proof -
    from that st obtain k b where y: "y = (k, Inr b)" "view V (db s) k = Some b" "skey s i \<le> k" "prefix (ks_prefix s) k"
      by (auto simp: its)
    from x[OF y(3)] have ne: "k \<noteq> ks_prefix s" "k \<noteq> skey s 0" by simp_all
    note r = item_key_stored[OF s y(2,4) ne]
    have "skey s i \<le> skey s (Id (item_key E s (k, Inr b)))" using y(3) r(1) by (rule ord_le_eq_trans)
    then have "i \<le> Id (item_key E s (k, Inr b))" by (simp only: skey_le)
    with r y(1) show ?thesis by simp
  qed
  then show "\<forall>x \<in> set its. \<exists>ak. open_value E (secure s) (projr (snd x)) = Inr ak" by blast
  have "sorted_wrt (\<lambda>a b. fst a < fst b) its" using so by (simp add: its sorted_wrt_filter)
  then have "sorted_wrt (\<lambda>a b. Id (item_key E s a) < Id (item_key E s b)) its"
    by (rule sorted_wrt_mono_rel[rotated]) (metis mem skey_less)
  moreover have "ak \<in> item_key E s ` set its" if j: "i \<le> j" "abs_keys E V s j = Some ak" for j ak
  proof -
    obtain b where b: "view V (db s) (skey s j) = Some b" "open_value E (secure s) b = Inr ak"
      using abs_keys_SomeD[OF s j(2)] by blast
    then have "(skey s j, Inr b) \<in> set its" using j(1) st by (simp add: its)
    moreover have "item_key E s (skey s j, Inr b) = ak" using b(2) by (simp add: item_key_def)
    ultimately show ?thesis by force
  qed
  moreover have "\<exists>j \<ge> i. abs_keys E V s j = Some (item_key E s y)" if "y \<in> set its" for y
    using mem[OF that] by blast
  ultimately show "lists_from (abs_keys E V s) i (map (item_key E s) its)"
    unfolding lists_from_def by (auto simp: sorted_wrt_map)
qed

lemma Slice_refines:
  assumes E: "env_ok E V" and s: "ks_inv E V s" and sl: "Slice E s start n False = (r, s')"
  shows "refines E V s (OpSlice start n False) (OKeys r) s'"
proof -
  define i where "i = max 1 start"
  have i: "i \<noteq> 0" "i = (if start = 0 then 1 else start)"
    by (auto simp: i_def max_def word_le_nat_alt unat_eq_0[symmetric] simp del: unat_eq_0) 
  from s obtain kp where kp: "with_key s i = (skey s i, s\<lparr>keypool := kp\<rparr>)" "ks_wf (s\<lparr>keypool := kp\<rparr>)"
    unfolding ks_inv_def by (blast elim: with_key_ok)
  let ?items = "Iterate E (db s) False (skey s i)"
  let ?its = "slice_items False (ks_prefix s) (metaKey s) ?items"
  let ?bs = "map (projr \<circ> snd) ?its" and ?aks = "map (item_key E s) ?its"
  note f = forward_items[OF E s i(1)]
  have rd: "\<forall>x \<in> set ?items. \<exists>b. snd x = Inr b" using iterator_okD(2)[OF E, of "db s" "skey s i"] by auto
  have ov: "open_values E (secure s) ?bs = (?aks, None)"
    using open_values_ok[of ?bs E "secure s" "[]"] f(2) by (simp add: item_key_def comp_def)
  have l: "lists_from (vkeys (ks_abs E V s)) (max 1 start) ?aks" using f(1) by (simp add: ks_abs_def i_def)
  have res: "r = (if 0 \<le> n \<and> n \<le> MaxSlice E \<and> int (length ?aks) \<le> n then Some (?aks, None) else None) \<and> (s' = s \<or> s' = s\<lparr>keypool := kp\<rparr>)"
    using sl kp ov slice_loop_reads[OF rd, of "[]" "nat n" False "ks_prefix s" "metaKey s"] i(2)
    by (auto simp: Slice_def Let_def le_nat_iff nat_le_iff split: if_splits)
  then have "vault_step (ks_abs E V s) (OpSlice start n False) (OKeys r) (ks_abs E V s)"
    using vault_step.slice[OF l, of n] vault_step.slice_panic[OF l, of n] by (auto simp: not_le ks_abs_def)
  with res s show ?thesis using refines_keypool[OF kp(2) s] by (auto simp: refines_def)
qed

lemma Slice_state: "ks_wf s \<Longrightarrow> Slice E s start n reverse = (r, s') \<Longrightarrow> \<exists>kp. s' = s\<lparr>keypool := kp\<rparr> \<and> ks_wf s'"
proof -
  assume s: "ks_wf s" "Slice E s start n reverse = (r, s')"
  let ?i = "if start = 0 \<and> \<not> reverse then 1 else start"
  obtain kp where kp: "with_key s ?i = (skey s ?i, s\<lparr>keypool := kp\<rparr>)" "ks_wf (s\<lparr>keypool := kp\<rparr>)"
    by (rule with_key_ok[OF s(1)])
  have "s' = s \<or> s' = s\<lparr>keypool := kp\<rparr>"
    using s(2) kp(1) by (auto simp: Slice_def Let_def split: if_splits option.splits prod.splits)
  then show ?thesis using s(1) kp(2) by (auto intro: exI[of _ "keypool s"])
qed

lemma exec_refines:
  assumes E: "env_ok E V" and s: "ks_inv E V s" and ex: "exec E s op = (out, s')"
  shows "refines E V s op out s'"
proof (cases op)
  case (OpSlice start n reverse)
  show ?thesis
  proof (cases reverse)
    case True
    obtain r where r: "Slice E s start n True = (r, s')" "out = OKeys r"
      using ex OpSlice True by (cases "Slice E s start n True") auto
    then obtain kp where "s' = s\<lparr>keypool := kp\<rparr>" "ks_wf s'" using Slice_state[OF _ r(1)] s by (auto simp: ks_inv_def)
    with r OpSlice True s show ?thesis by (auto intro!: refines_keypool vault_step.slice_reverse)
  next
    case False
    with ex OpSlice Slice_refines[OF E s] show ?thesis by (cases "Slice E s start n False") auto
  qed
qed (use ex E s in \<open>auto intro: Save_refines Find_refines GetKey_refines Delete_refines meta_refines NextId_refines
        split: prod.splits simp: map_prod_def\<close>)

lemma exec_all_refines:
  "env_ok E V \<Longrightarrow> ks_inv E V s \<Longrightarrow> exec_all E s ops = (l, s') \<Longrightarrow>
    ks_inv E V s' \<and> vault_run (ks_abs E V s) l (ks_abs E V s')"
proof (induction ops arbitrary: s l)
  case (Cons op ops)
  obtain out s1 where ex: "exec E s op = (out, s1)" by force
  obtain l1 s2 where ex1: "exec_all E s1 ops = (l1, s2)" by force
  from ex ex1 Cons.prems(3) have l: "l = (op, out) # l1" "s2 = s'" by auto
  from exec_refines[OF Cons.prems(1,2) ex] have r: "ks_inv E V s1" "vault_step (ks_abs E V s) op out (ks_abs E V s1)"
    by (auto simp: refines_def)
  from Cons.IH[OF Cons.prems(1) r(1), of l1] ex1 l r(2) show ?case by auto
qed auto

text \<open>A store made by \<open>New\<close> over a database with nothing under the prefix.\<close>

lemma New_inv:
  assumes "New \<lparr>cfg_DB = Some d, cfg_Prefix = p\<rparr> = Inr s0" "secure_ok sec" "\<forall>k. prefix p k \<longrightarrow> view V d k = None"
  shows "ks_inv E V (setSecure sec s0)"
    "ks_abs E V (setSecure sec s0) = \<lparr>vkeys = \<lambda>_. None, vmeta = None, vnext = seq_floor V d p, vmax = MaxSlice E\<rparr>"
proof -
  note n = New_ok[OF assms(1)]
  have k: "skey (setSecure sec s0) i = skey s0 i" for i by (simp add: setSecure_def skey_def)
  show "ks_inv E V (setSecure sec s0)"
    using n assms(2,3) by (simp add: ks_inv_def ks_wf_def ks_data_def k) (auto simp: setSecure_def)
  have "view V d (skey s0 i) = None" for i using assms(3) n(4) skey_has_prefix[of s0 i] by simp
  then show "ks_abs E V (setSecure sec s0) = \<lparr>vkeys = \<lambda>_. None, vmeta = None, vnext = seq_floor V d p, vmax = MaxSlice E\<rparr>"
    using n by (simp add: ks_abs_def abs_keys_def fun_eq_iff k) (simp add: setSecure_def)
qed

section \<open>Reachable stores\<close>

inductive ks_step :: "('db, 'seq) ks_env \<Rightarrow> 'db KeyStore \<Rightarrow> 'db KeyStore \<Rightarrow> bool" for E where
  "exec E s op = (out, s') \<Longrightarrow> ks_step E s s'"

definition ks_start :: "('db, 'seq) ks_env \<Rightarrow> ('db, 'seq) ks_view \<Rightarrow> 'db KeyStore \<Rightarrow> bool" where
  "ks_start E V s \<longleftrightarrow> env_ok E V \<and>
     (\<exists>d p s0. New \<lparr>cfg_DB = Some d, cfg_Prefix = p\<rparr> = Inr s0 \<and> (\<forall>k. prefix p k \<longrightarrow> view V d k = None) \<and>
        secure_ok (secure s) \<and> s = setSecure (secure s) s0)"

interpretation keystore: invariant_system "ks_step E" "ks_start E V" "\<lambda>s. env_ok E V \<and> ks_inv E V s" for E V
proof
  show "env_ok E V \<and> ks_inv E V s" if "ks_start E V s" for s
    using that New_inv(1) unfolding ks_start_def by metis
  show "env_ok E V \<and> ks_inv E V t" if "env_ok E V \<and> ks_inv E V s" "ks_step E s t" for s t
    using that(2,1) by cases (auto dest: exec_refines simp: refines_def)
qed

section \<open>Ids\<close>

text \<open>The ids that were handed out, in order: by \<open>NextId\<close>, and by \<open>Save\<close> to a key without one.\<close>

fun issued :: "(ks_op \<times> ks_out) list \<Rightarrow> u64 list" where
  "issued [] = []"
| "issued ((op, out) # l) =
     (case (op, out) of
        (OpNextId, OId n) \<Rightarrow> n # issued l
      | (OpSave ak, OKey ak') \<Rightarrow> (if Id ak = 0 then Id ak' # issued l else issued l)
      | _ \<Rightarrow> issued l)"

lemma vault_step_issues:
  "vault_step m op out m' \<Longrightarrow> vnext m \<le> vnext m' \<and>
    (issued [(op, out)] = [] \<or> (\<exists>n. issued [(op, out)] = [n] \<and> n \<noteq> 0 \<and> vnext m \<le> unat n \<and> unat n < vnext m'))"
  by (induction rule: vault_step.induct) (auto split: option.splits if_splits)

lemma issued_Cons: "issued (x # l) = issued [x] @ issued l"
  by (cases x) (auto split: ks_op.splits ks_out.splits)

lemma vault_run_issues:
  "vault_run m l m' \<Longrightarrow> sorted_wrt (<) (issued l) \<and> (\<forall>n \<in> set (issued l). n \<noteq> 0 \<and> vnext m \<le> unat n)"
proof (induction l arbitrary: m)
  case (Cons x l)
  obtain op out where x: "x = (op, out)" by force
  from Cons.prems x obtain m1 where m1: "vault_step m op out m1" "vault_run m1 l m'" by auto
  note i = vault_step_issues[OF m1(1)] and ih = Cons.IH[OF m1(2)]
  have "vnext m \<le> vnext m1" using i by simp
  then have "n \<noteq> 0 \<and> vnext m \<le> unat n" if "n \<in> set (issued l)" for n using ih that by (auto dest!: bspec)
  moreover have "a < n" if "issued [(op, out)] = [a]" "n \<in> set (issued l)" for a n
    using ih i that by (auto simp: word_less_nat_alt)
  ultimately show ?case using ih i unfolding issued_Cons[of x l] unfolding x by (elim conjE disjE exE) simp_all
qed simp

lemma backward_items:
  assumes E: "env_ok E V" and s: "ks_inv E V s" and q: "view V (db s) (ks_prefix s) = Some lease"
    and its_def: "its = slice_items True (ks_prefix s) (metaKey s) (Iterate E (db s) True (skey s i))"
  obtains ys where "its = ys @ [(ks_prefix s, Inr lease)]"
    "sorted_wrt (>) (map Id (map (item_key E s) ys))"
    "set (map (item_key E s) ys) = {ak. \<exists>j. j \<le> i \<and> abs_keys E V s j = Some ak}"
    "\<forall>x \<in> set ys. \<exists>ak. open_value E (secure s) (projr (snd x)) = Inr ak"
proof -
  let ?items = "Iterate E (db s) True (skey s i)" and ?P = "\<lambda>x. prefix (ks_prefix s) (fst x)"
  have m: "metaKey s = skey s 0" using s by (simp add: ks_inv_def ks_wf_def)
  have st: "set ?items = {(k', Inr v) | k' v. view V (db s) k' = Some v \<and> k' \<le> skey s i}"
    by (rule iterator_okD(4)[OF E])
  have so: "sorted_wrt (\<lambda>a b. fst b < fst a) ?items" using iterator_okD(3)[OF E] by (simp add: sorted_wrt_map)
  then have "sorted_wrt (\<lambda>a b. ?P b \<longrightarrow> ?P a) ?items"
  proof (rule sorted_wrt_mono_rel[rotated])
    fix a b assume "a \<in> set ?items" "fst b < fst a"
    then show "?P b \<longrightarrow> ?P a" using prefix_convex[OF _ skey_has_prefix[of s i], of "fst b" "fst a"] st by auto
  qed
  then have its: "its = filter (\<lambda>x. fst x \<noteq> skey s 0) (filter ?P ?items)"
    by (simp add: its_def slice_items_def takeWhile_filter m)
  then have so': "sorted_wrt (\<lambda>a b. fst b < fst a) its" using so by (simp add: sorted_wrt_filter)
  have low: "ks_prefix s \<le> k" if "prefix (ks_prefix s) k" for k
    using that less_append by (auto elim!: prefixE simp: le_less)
  have "(ks_prefix s, Inr lease) \<in> set its" using q st low[OF skey_has_prefix] by (auto simp: its)
  then obtain ys zs where yz: "its = ys @ (ks_prefix s, Inr lease) # zs" by (auto dest: split_list)
  have "zs = []"
  proof (rule ccontr)
    assume "zs \<noteq> []"
    then obtain z where "z \<in> set zs" by (meson list.set_sel(1))
    with yz so' have "fst z < ks_prefix s" "z \<in> set its" by (auto simp: sorted_wrt_append)
    with low[of "fst z"] show False by (auto simp: its)
  qed
  have mem: "fst y = skey s (Id (item_key E s y)) \<and> (\<exists>ak. open_value E (secure s) (projr (snd y)) = Inr ak) \<and>
      Id (item_key E s y) \<le> i \<and> abs_keys E V s (Id (item_key E s y)) = Some (item_key E s y)" if "y \<in> set ys" for y
  proof -
    from that yz have "y \<in> set its" by simp
    with st obtain k b where y: "y = (k, Inr b)" "view V (db s) k = Some b" "k \<le> skey s i" "prefix (ks_prefix s) k" "k \<noteq> skey s 0"
      by (auto simp: its)
    have "k \<noteq> ks_prefix s" using that yz so' y(1) by (auto simp: sorted_wrt_append)
    note r = item_key_stored[OF s y(2,4) this y(5)]
    have "skey s (Id (item_key E s (k, Inr b))) \<le> skey s i" using r(1)[symmetric] y(3) by (rule ord_eq_le_trans)
    then have "Id (item_key E s (k, Inr b)) \<le> i" by (simp only: skey_le)
    with r y(1) show ?thesis by simp
  qed
  have "sorted_wrt (\<lambda>a b. fst b < fst a) ys" using so' yz by (simp add: sorted_wrt_append)
  then have d: "sorted_wrt (\<lambda>a b. Id (item_key E s b) < Id (item_key E s a)) ys"
    by (rule sorted_wrt_mono_rel[rotated]) (metis mem skey_less)
  have all: "ak \<in> item_key E s ` set ys" if j: "j \<le> i" "abs_keys E V s j = Some ak" for j ak
  proof -
    note a = abs_keys_SomeD[OF s j(2)]
    then obtain b where b: "view V (db s) (skey s j) = Some b" "open_value E (secure s) b = Inr ak" by blast
    then have "(skey s j, Inr b) \<in> set its" using j(1) a(1) st by (simp add: its)
    then have "(skey s j, Inr b) \<in> set ys" using yz \<open>zs = []\<close> by auto
    moreover have "item_key E s (skey s j, Inr b) = ak" using b(2) by (simp add: item_key_def)
    ultimately show ?thesis by force
  qed
  have "\<exists>j \<le> i. abs_keys E V s j = Some (item_key E s y)" if "y \<in> set ys" for y using mem[OF that] by blast
  with all have "set (map (item_key E s) ys) = {ak. \<exists>j. j \<le> i \<and> abs_keys E V s j = Some ak}" by auto
  with d mem yz \<open>zs = []\<close> that[of ys] show thesis by (simp add: sorted_wrt_map)
qed

section \<open>A database in memory\<close>

text \<open>
  The assumptions on badger and protobuf can be met: an association list with a sequence stored as eight bytes
  under its key, and a codec for keys without tags, description and creation time.
\<close>

type_synonym mem_db = "(bytes \<times> bytes) list"

definition mem_set :: "bytes \<Rightarrow> bytes \<Rightarrow> mem_db \<Rightarrow> mem_db" where
  "mem_set k v d = (k, v) # filter (\<lambda>p. fst p \<noteq> k) d"

definition mem_items :: "(bytes \<Rightarrow> bool) \<Rightarrow> mem_db \<Rightarrow> (bytes \<times> (ks_error + bytes)) list" where
  "mem_items P d = map (\<lambda>(k, v). (k, Inr v)) (sort_key fst (filter (\<lambda>p. P (fst p)) (AList.clearjunk d)))"

definition mem_floor :: "mem_db \<Rightarrow> bytes \<Rightarrow> u64" where
  "mem_floor d k = (case map_of d k of None \<Rightarrow> 0 | Some v \<Rightarrow> Uint64 v)"

definition mem_Marshal :: "AuthKey \<Rightarrow> ks_error + bytes" where
  "mem_Marshal ak =
     (if Tags ak = [] \<and> Desc ak = [] \<and> CreatedAt ak = 0 then Inr (PutUint64 (Id ak) @ PutUint64 (ExpiresAt ak) @ Key ak)
      else Inl (ErrOther ''unsupported''))"

definition mem_Unmarshal :: "bytes \<Rightarrow> ks_error + AuthKey" where
  "mem_Unmarshal b =
     (if length b < 16 then Inl (ErrOther ''short'')
      else Inr \<lparr>Id = Uint64 b, Key = drop 16 b, Tags = [], Desc = [], CreatedAt = 0, ExpiresAt = Uint64 (drop 8 b)\<rparr>)"

definition mem_env :: "(mem_db, bytes) ks_env" where
  "mem_env = \<lparr>
     Txn_Get = (\<lambda>d k. case map_of d k of None \<Rightarrow> Inl ErrKeyNotFound | Some v \<Rightarrow> Inr v),
     Txn_Set = (\<lambda>d k v. Inr (mem_set k v d)),
     Txn_Delete = (\<lambda>d k. Inr (filter (\<lambda>p. fst p \<noteq> k) d)),
     Iterate = (\<lambda>d reverse k. if reverse then rev (mem_items (\<lambda>x. x \<le> k) d) else mem_items (\<lambda>x. k \<le> x) d),
     GetSequence = (\<lambda>d k bw. Inr (k, d)),
     Seq_Next = (\<lambda>k d. let n = mem_floor d k in
        if n = - 1 then (Inl (ErrOther ''exhausted''), k, d) else (Inr n, k, mem_set k (PutUint64 (n + 1)) d)),
     Seq_Release = (\<lambda>k d. d),
     Marshal = mem_Marshal, Unmarshal = mem_Unmarshal, MaxSlice = 2 ^ 48 div 24\<rparr>"

definition mem_view :: "(mem_db, bytes) ks_view" where
  "mem_view = \<lparr>view = map_of, seq_floor = (\<lambda>d k. unat (mem_floor d k)), seq_key = (\<lambda>k. k)\<rparr>"

lemma map_of_mem_delete: "map_of (filter (\<lambda>p. fst p \<noteq> k) d) = (map_of d)(k := None)"
  by (induction d) (auto simp: fun_eq_iff)

lemma map_of_mem_set [simp]: "map_of (mem_set k v d) = (map_of d)(k \<mapsto> v)"
  by (simp add: mem_set_def map_of_mem_delete)

lemma mem_items_sorted: "sorted_wrt (<) (map fst (mem_items P d))"
proof -
  have "map fst (mem_items P d) = map fst (sort_key fst (filter (\<lambda>p. P (fst p)) (AList.clearjunk d)))"
    by (simp add: mem_items_def comp_def case_prod_beta)
  moreover have "distinct (map fst (filter (\<lambda>p. P (fst p)) (AList.clearjunk d)))"
    by (simp add: distinct_map_filter distinct_clearjunk)
  ultimately show ?thesis by (simp add: strict_sorted_iff distinct_map)
qed

lemma mem_items_set: "set (mem_items P d) = {(k, Inr v) | k v. map_of d k = Some v \<and> P k}"
proof -
  have "(k, v) \<in> set (AList.clearjunk d) \<longleftrightarrow> map_of d k = Some v" for k v
    by (metis distinct_clearjunk map_of_clearjunk map_of_eq_Some_iff)
  then show ?thesis by (auto simp: mem_items_def image_iff)
qed

lemma unat_inc: "n \<noteq> - 1 \<Longrightarrow> unat (n + 1) = unat n + 1" for n :: u64
  by (metis Suc_eq_plus1 unatSuc add.commute add.inverse_inverse add_eq_0_iff)

lemma mem_env_ok: "env_ok mem_env mem_view"
proof -
  have "txn_ok mem_env mem_view"
    by (auto simp: txn_ok_def mem_env_def mem_view_def mem_floor_def map_of_mem_delete)
  moreover have "iterator_ok mem_env mem_view"
    using mem_items_sorted by (simp add: iterator_ok_def mem_env_def mem_view_def mem_items_set rev_map[symmetric] sorted_wrt_rev)
  moreover have "sequence_ok mem_env mem_view"
    by (auto simp: sequence_ok_def mem_env_def mem_view_def seq_only_def mem_floor_def Let_def unat_inc split: if_splits option.splits)
  moreover have "codec_ok mem_env"
    by (auto simp: codec_ok_def mem_env_def mem_Marshal_def mem_Unmarshal_def split: if_splits)
  ultimately show ?thesis by (simp add: env_ok_def)
qed

section \<open>Properties\<close>

text \<open>
  C4: a store over an unused prefix behaves as a map from ids to keys with a place for meta data: for
  every sequence of operations, the results are ones the specification allows, and the database then stands for
  the map the specification reaches. Keys of one id never disturb those of another, the meta data or the sequence.
\<close>

theorem keystore_refines_vault:
  assumes env: "env_ok E V" and new: "New \<lparr>cfg_DB = Some d, cfg_Prefix = p\<rparr> = Inr s" and sec: "secure_ok sec"
    and unused: "\<forall>k. prefix p k \<longrightarrow> view V d k = None"
    and run: "exec_all E (setSecure sec s) ops = (l, s')"
  shows "vault_run \<lparr>vkeys = \<lambda>_. None, vmeta = None, vnext = seq_floor V d p, vmax = MaxSlice E\<rparr> l (ks_abs E V s')"
  using exec_all_refines[OF env New_inv(1)[OF new sec unused] run] New_inv(2)[OF new sec unused] by simp

definition example_store :: "mem_db KeyStore" where
  "example_store = projr (New \<lparr>cfg_DB = Some [], cfg_Prefix = [118, 47]\<rparr>)"

definition example_key :: AuthKey where
  "example_key = \<lparr>Id = 0, Key = [7], Tags = [], Desc = [], CreatedAt = 0, ExpiresAt = 100\<rparr>"

lemma example_New: "New \<lparr>cfg_DB = Some [], cfg_Prefix = [118, 47]\<rparr> = Inr example_store"
  by (simp add: example_store_def New_def Let_def)

definition example_ops :: "ks_op list" where
  "example_ops = [OpSave example_key, OpNextId, OpSave example_key, OpDelete 1, OpFind 1, OpFind 3, OpSlice 0 5 False, OpSlice 0 0 False]"

theorem keystore_refines_vault_witness:
  "\<exists>l s'. exec_all mem_env (setSecure nonCrypto example_store) example_ops = (l, s') \<and>
     map snd l = [OKey (example_key\<lparr>Id := 1\<rparr>), OId 2, OKey (example_key\<lparr>Id := 3\<rparr>), ODone, OErr ErrKeyNotFound,
       OKey (example_key\<lparr>Id := 3\<rparr>), OKeys (Some ([example_key\<lparr>Id := 3\<rparr>], None)), OKeys None] \<and>
     vault_run \<lparr>vkeys = \<lambda>_. None, vmeta = None, vnext = 0, vmax = MaxSlice mem_env\<rparr> l (ks_abs mem_env mem_view s')"
proof -
  obtain l s' where r: "exec_all mem_env (setSecure nonCrypto example_store) example_ops = (l, s')" by force
  have "map snd (fst (exec_all mem_env (setSecure nonCrypto example_store) example_ops)) =
      [OKey (example_key\<lparr>Id := 1\<rparr>), OId 2, OKey (example_key\<lparr>Id := 3\<rparr>), ODone, OErr ErrKeyNotFound,
       OKey (example_key\<lparr>Id := 3\<rparr>), OKeys (Some ([example_key\<lparr>Id := 3\<rparr>], None)), OKeys None]"
    by code_simp
  with r keystore_refines_vault[OF mem_env_ok example_New nonCrypto_ok _ r] show ?thesis
    by (simp add: mem_view_def mem_floor_def)
qed

text \<open>
  After an id was handed out, a reverse \<open>Slice\<close> ends in an error although every key can be read:
  it goes on to badger's own sequence entry under the prefix and takes it for a key.
\<close>

theorem Slice_reverse_reads_sequence:
  assumes E: "env_ok E V" and s: "ks_inv E V s"
    and lease: "view V (db s) (ks_prefix s) = Some lease" "open_value E (secure s) lease = Inl e"
    and room: "fst (Slice E s start n True) \<noteq> None"
  shows "\<exists>aks. fst (Slice E s start n True) = Some (aks, Some e) \<and>
    sorted_wrt (>) (map Id aks) \<and> set aks = {ak. \<exists>j. j \<le> start \<and> abs_keys E V s j = Some ak}"
proof -
  let ?items = "Iterate E (db s) True (skey s start)"
  from s obtain kp where kp: "with_key s start = (skey s start, s\<lparr>keypool := kp\<rparr>)"
    unfolding ks_inv_def by (blast elim: with_key_ok)
  obtain ys where ys: "slice_items True (ks_prefix s) (metaKey s) ?items = ys @ [(ks_prefix s, Inr lease)]"
    "sorted_wrt (>) (map Id (map (item_key E s) ys))"
    "set (map (item_key E s) ys) = {ak. \<exists>j. j \<le> start \<and> abs_keys E V s j = Some ak}"
    "\<forall>x \<in> set ys. \<exists>ak. open_value E (secure s) (projr (snd x)) = Inr ak"
    by (rule backward_items[OF E s lease(1) refl])
  have rd: "\<forall>x \<in> set ?items. \<exists>b. snd x = Inr b" using iterator_okD(4)[OF E, of "db s" "skey s start"] by auto
  have "open_values E (secure s) (map (projr \<circ> snd) ys @ [lease]) = (map (item_key E s) ys, Some e)"
    using open_values_ok[of "map (projr \<circ> snd) ys" E "secure s" "[lease]"] ys(4) lease(2)
    by (simp add: item_key_def comp_def)
  then have "fst (Slice E s start n True) = Some (map (item_key E s) ys, Some e)"
    using room kp slice_loop_reads[OF rd, of "[]" "nat n" True "ks_prefix s" "metaKey s"] ys(1)
    by (auto simp: Slice_def Let_def split: if_splits)
  with ys(2,3) show ?thesis by blast
qed

lemma abs_keys_conv: "vkeys (ks_abs E V s) = abs_keys E V s"
  by (simp add: ks_abs_def)

text \<open>The effect of a successful \<open>Save\<close> on the abstract map.\<close>

lemma Save_ok:
  assumes E: "env_ok E V" and s: "ks_inv E V s" and sv: "Save E s ak = (None, ak', s')"
  shows "ks_inv E V s'" "Id ak' \<noteq> 0" "ak' = ak\<lparr>Id := Id ak'\<rparr>" "abs_keys E V s' = (abs_keys E V s)(Id ak' \<mapsto> ak')"
proof -
  have r: "ks_inv E V s'" "vault_step (ks_abs E V s) (OpSave ak) (OKey ak') (ks_abs E V s')"
    using Save_refines[OF E s sv] by (simp_all add: refines_def err_out_def)
  from r(2) have "Id ak' \<noteq> 0 \<and> ak' = ak\<lparr>Id := Id ak'\<rparr> \<and> vkeys (ks_abs E V s') = (vkeys (ks_abs E V s))(Id ak' \<mapsto> ak')"
    by cases auto
  with r(1) show "ks_inv E V s'" "Id ak' \<noteq> 0" "ak' = ak\<lparr>Id := Id ak'\<rparr>" "abs_keys E V s' = (abs_keys E V s)(Id ak' \<mapsto> ak')"
    by (simp_all add: abs_keys_conv)
qed

lemma Find_value:
  assumes "env_ok E V" "ks_inv E V s"
  shows "fst (Find E s i) = (if i = 0 then Inl ErrInvalidKeyID
    else case abs_keys E V s i of None \<Rightarrow> Inl ErrKeyNotFound | Some ak \<Rightarrow> Inr ak)"
  using Find_result[OF assms, of i] by (auto simp: Find_def)

text \<open>
  C25: a key that was saved without error is found again under its id, which is not 0 and was filled in when the
  caller left it out; what is found under any other id does not change.
\<close>

theorem Save_Find_roundtrip:
  assumes E: "env_ok E V" and s: "ks_inv E V s" and sv: "Save E s ak = (None, ak', s')"
  shows "Id ak' \<noteq> 0 \<and> ak' = ak\<lparr>Id := Id ak'\<rparr> \<and> fst (Find E s' (Id ak')) = Inr ak' \<and>
    (\<forall>j. j \<noteq> Id ak' \<longrightarrow> fst (Find E s' j) = fst (Find E s j))"
  using Save_ok[OF E s sv] Find_value[OF E s] by (simp add: Find_value[OF E Save_ok(1)[OF E s sv]])

lemma example_inv: "ks_inv mem_env mem_view (setSecure nonCrypto example_store)"
  by (rule New_inv(1)[OF example_New nonCrypto_ok]) (simp add: mem_view_def)

definition example_saved :: "AuthKey \<times> mem_db KeyStore" where
  "example_saved = snd (Save mem_env (setSecure nonCrypto example_store) example_key)"

lemma example_Save:
  "Save mem_env (setSecure nonCrypto example_store) example_key = (None, example_key\<lparr>Id := 1\<rparr>, snd example_saved)"
proof -
  have "fst (Save mem_env (setSecure nonCrypto example_store) example_key) = None" "fst example_saved = example_key\<lparr>Id := 1\<rparr>"
    by code_simp+
  then show ?thesis by (simp add: example_saved_def prod_eq_iff)
qed

lemma example_saved_inv: "ks_inv mem_env mem_view (snd example_saved)"
  by (rule Save_ok(1)[OF mem_env_ok example_inv example_Save])

theorem Save_Find_roundtrip_witness: "fst (Find mem_env (snd example_saved) 1) = Inr (example_key\<lparr>Id := 1\<rparr>)"
  using Save_Find_roundtrip[OF mem_env_ok example_inv example_Save] by simp

text \<open>
  The key of a saved \<open>AuthKey\<close> is handed out for verification only when the current time has reached
  \<open>ExpiresAt\<close>; before that, while the key should be valid, \<open>GetKey\<close> answers \<open>ErrKeyExpired\<close>. The comparison
  in the code is the wrong way round.
\<close>

theorem GetKey_expiry:
  assumes E: "env_ok E V" and s: "ks_inv E V s" and sv: "Save E s ak = (None, ak', s')"
  shows "fst (GetKey E now s' (PutUint64 (Id ak'))) =
    (if sint now < sint (ExpiresAt ak) then Inl ErrKeyExpired else Inr (Key ak))"
proof -
  note k = Save_ok[OF E s sv]
  have "ExpiresAt ak' = ExpiresAt ak" "Key ak' = Key ak" using k(3) by (metis AuthKey.select_convs AuthKey.update_convs(1) AuthKey.surjective)+
  moreover have "fst (Find E s' (Id ak')) = Inr ak'" using k by (simp add: Find_value[OF E k(1)])
  ultimately show ?thesis by (cases "Find E s' (Id ak')") (auto simp: GetKey_def)
qed

theorem GetKey_expiry_witness:
  "fst (GetKey mem_env 99 (snd example_saved) (PutUint64 1)) = Inl ErrKeyExpired \<and>
   fst (GetKey mem_env 100 (snd example_saved) (PutUint64 1)) = Inr [7]"
  using GetKey_expiry[OF mem_env_ok example_inv example_Save, of 99] GetKey_expiry[OF mem_env_ok example_inv example_Save, of 100]
  by (simp add: example_key_def)

lemma lists_from_length:
  assumes s: "ks_inv E V s" and l: "lists_from (abs_keys E V s) i aks"
  shows "length aks = card {j. i \<le> j \<and> abs_keys E V s j \<noteq> None}"
proof -
  have "distinct (map Id aks)" using l by (simp add: lists_from_def strict_sorted_iff)
  then have "length aks = card (Id ` set aks)" by (metis distinct_card length_map list.set_map)
  also have "Id ` set aks = {j. i \<le> j \<and> abs_keys E V s j \<noteq> None}"
  proof (intro set_eqI iffI)
    fix j assume "j \<in> Id ` set aks"
    then show "j \<in> {j. i \<le> j \<and> abs_keys E V s j \<noteq> None}"
      using l abs_keys_SomeD(2)[OF s] by (fastforce simp: lists_from_def)
  next
    fix j assume "j \<in> {j. i \<le> j \<and> abs_keys E V s j \<noteq> None}"
    then obtain ak where "i \<le> j" "abs_keys E V s j = Some ak" by auto
    then show "j \<in> Id ` set aks" using l abs_keys_SomeD(2)[OF s] by (fastforce simp: lists_from_def)
  qed
  finally show ?thesis .
qed

text \<open>
  C26: a forward \<open>Slice\<close> panics exactly when its size is negative, greater than the longest slice the run time makes, or smaller
  than the number of keys from its start.
\<close>

theorem Slice_panics_iff:
  assumes E: "env_ok E V" and s: "ks_inv E V s"
  shows "fst (Slice E s start n False) = None \<longleftrightarrow> n < 0 \<or> MaxSlice E < n \<or> n < int (card {j. max 1 start \<le> j \<and> abs_keys E V s j \<noteq> None})"
proof -
  obtain r s' where sl: "Slice E s start n False = (r, s')" by force
  have "vault_step (ks_abs E V s) (OpSlice start n False) (OKeys r) (ks_abs E V s')"
    using Slice_refines[OF E s sl] by (simp add: refines_def)
  then show ?thesis
    by cases (use lists_from_length[OF s] sl in \<open>auto simp: abs_keys_conv ks_abs_def\<close>)
qed

theorem Slice_panics_iff_witness:
  "fst (Slice mem_env (snd example_saved) 1 0 False) = None"
proof -
  have "fst (Slice mem_env (snd example_saved) 1 0 False) = None \<longleftrightarrow>
      (0::int) < 0 \<or> MaxSlice mem_env < 0 \<or> 0 < int (card {j. max 1 1 \<le> j \<and> abs_keys mem_env mem_view (snd example_saved) j \<noteq> None})"
    by (rule Slice_panics_iff[OF mem_env_ok example_saved_inv])
  moreover have "1 \<in> {j. max 1 1 \<le> j \<and> abs_keys mem_env mem_view (snd example_saved) j \<noteq> None}"
    using Save_ok(4)[OF mem_env_ok example_inv example_Save] by simp
  ultimately show ?thesis by (auto simp: card_gt_0_iff)
qed

text \<open>
  C23: every operation keeps the invariant: whatever is called on a store made by \<open>New\<close>, all pooled key buffers
  start with the prefix, and everything stored under the prefix is the sequence, the meta data, or a key that opens to
  an \<open>AuthKey\<close> carrying the id it is stored under.
\<close>

theorem keystore_inv_reachable:
  "ks_start E V s \<Longrightarrow> reach (ks_step E) s s' \<Longrightarrow> ks_inv E V s'"
  using keystore.inv_reachable by blast

lemma example_start: "ks_start mem_env mem_view (setSecure nonCrypto example_store)"
  unfolding ks_start_def using mem_env_ok example_New
  by (auto simp: setSecure_def mem_view_def intro!: exI[of _ "[]"] exI[of _ "[118, 47]"])

theorem keystore_inv_reachable_witness: "ks_inv mem_env mem_view (snd (exec mem_env (setSecure nonCrypto example_store) (OpSave example_key)))"
  by (rule keystore_inv_reachable[OF example_start], rule reach_step[OF reach_refl], rule ks_step.intros, rule prod.collapse[symmetric])

text \<open>
  C24: the ids handed out by \<open>NextId\<close> and \<open>Save\<close> are never 0 and strictly increase, whatever else is called in between.
\<close>

theorem issued_ids_increase:
  assumes "env_ok E V" "ks_inv E V s" "exec_all E s ops = (l, s')"
  shows "sorted_wrt (<) (issued l) \<and> 0 \<notin> set (issued l)"
  using vault_run_issues exec_all_refines[OF assms] by blast

theorem issued_ids_increase_witness: "issued (fst (exec_all mem_env (setSecure nonCrypto example_store) example_ops)) = [1, 2, 3] \<and>
  sorted_wrt (<) (issued (fst (exec_all mem_env (setSecure nonCrypto example_store) example_ops)))"
proof
  show "issued (fst (exec_all mem_env (setSecure nonCrypto example_store) example_ops)) = [1, 2, 3]" by code_simp
  show "sorted_wrt (<) (issued (fst (exec_all mem_env (setSecure nonCrypto example_store) example_ops)))"
    using issued_ids_increase[OF mem_env_ok example_inv surjective_pairing] by blast
qed

theorem Slice_reverse_reads_sequence_witness:
  "\<exists>aks e. fst (Slice mem_env (snd example_saved) 9 5 True) = Some (aks, Some e) \<and> map Id aks = [1]"
proof -
  have l: "view mem_view (db (snd example_saved)) (ks_prefix (snd example_saved)) = Some (PutUint64 2)"
    "open_value mem_env (secure (snd example_saved)) (PutUint64 2) = Inl (ErrOther ''short'')"
    and m: "map_option (\<lambda>p. map Id (fst p)) (fst (Slice mem_env (snd example_saved) 9 5 True)) = Some [1]"
    by code_simp+
  show ?thesis
    using Slice_reverse_reads_sequence[OF mem_env_ok example_saved_inv l, of 9 5] m by fastforce
qed

end
