(* ===== verification/Listeners.thy ===== *)
theory Listeners
  imports GoLib
begin

text \<open>
  The listeners a node serves: \<open>groupListeners\<close> of \<open>src/node/node.go\<close> with \<open>StartProxy\<close>, \<open>StartIpfsApi\<close>,
  \<open>StartIpfsGateway\<close> (the same bookkeeping around different servers), \<open>StopListener\<close> and \<open>Close\<close>, and the serving
  goroutines, as a transition system. A goroutine ends when its listener is closed (\<open>SimpleServe\<close> and \<open>http.Serve\<close>
  return the error of \<open>Accept\<close>) or fails, and then deletes whatever is registered under its id.
\<close>

section \<open>State and steps\<close>

text \<open>Listeners are numbered; a state has the map, the running goroutines and the closed listeners.\<close>

record listeners =
  group :: "u32 \<Rightarrow> nat option"
  serving :: "(u32 \<times> nat) list"
  closed :: "nat list"

definition no_listeners :: listeners where
  "no_listeners = \<lparr>group = (\<lambda>_. None), serving = [], closed = []\<rparr>"

text \<open>\<open>StartProxy\<close> and the two IPFS variants: register the listener and start its goroutine.\<close>

definition StartProxy :: "u32 \<Rightarrow> nat \<Rightarrow> listeners \<Rightarrow> listeners" where
  "StartProxy uniqueId ln s = s\<lparr>group := (group s)(uniqueId \<mapsto> ln), serving := (uniqueId, ln) # serving s\<rparr>"

definition StopListener :: "u32 \<Rightarrow> listeners \<Rightarrow> listeners" where
  "StopListener uniqueId s = (case group s uniqueId of None \<Rightarrow> s | Some ln \<Rightarrow> s\<lparr>closed := ln # closed s\<rparr>)"

text \<open>The end of a goroutine: its deferred \<open>Delete\<close> of the id.\<close>

definition serve_end :: "u32 \<times> nat \<Rightarrow> listeners \<Rightarrow> listeners" where
  "serve_end g s = s\<lparr>group := (group s)(fst g := None), serving := remove1 g (serving s)\<rparr>"

text \<open>
  \<open>Close\<close> closes every registered listener; \<open>ids\<close> are the registered ids, in the order \<open>Range\<close> visits them.
\<close>

definition CloseAll :: "u32 list \<Rightarrow> listeners \<Rightarrow> listeners" where
  "CloseAll ids s = fold StopListener ids s"

text \<open>
  The rest of \<open>Close\<close>: the file clients are closed one after the other; \<open>rs\<close> are the errors this gives. An error
  is only kept when there already is one.
\<close>

definition close_files :: "string option list \<Rightarrow> string option" where
  "close_files rs = fold (\<lambda>r err. if err \<noteq> None then r else err) rs None"

text \<open>
  The steps. \<open>unique\<close> says whether callers give each listener an id that is not in use, and \<open>fails\<close> whether
  \<open>Accept\<close> can fail for good on an open listener; a new listener is always a fresh one and open.
\<close>

inductive lstep :: "bool \<Rightarrow> bool \<Rightarrow> listeners \<Rightarrow> listeners \<Rightarrow> bool" for unique fails where
  start: "(unique \<Longrightarrow> group s i = None \<and> i \<notin> fst ` set (serving s)) \<Longrightarrow> ln \<notin> set (closed s) \<Longrightarrow> ln \<notin> snd ` set (serving s) \<Longrightarrow>
    lstep unique fails s (StartProxy i ln s)"
| stop: "lstep unique fails s (StopListener i s)"
| finish: "(i, ln) \<in> set (serving s) \<Longrightarrow> ln \<in> set (closed s) \<Longrightarrow> lstep unique fails s (serve_end (i, ln) s)"
| fail: "fails \<Longrightarrow> g \<in> set (serving s) \<Longrightarrow> lstep unique fails s (serve_end g s)"
| close: "set ids = dom (group s) \<Longrightarrow> lstep unique fails s (CloseAll ids s)"

inductive_cases lstepE: "lstep unique fails s t"

section \<open>Invariants\<close>

text \<open>With ids in use not given out again, the map and the goroutines agree.\<close>

definition group_inv :: "listeners \<Rightarrow> bool" where
  "group_inv s \<longleftrightarrow> (\<forall>i ln. (i, ln) \<in> set (serving s) \<longleftrightarrow> group s i = Some ln) \<and> distinct (map fst (serving s))"

lemma StopListener_keeps [simp]: "group (StopListener i s) = group s" "serving (StopListener i s) = serving s"
  by (simp_all add: StopListener_def split: option.splits)

lemma set_closed_Stop: "set (closed (StopListener i s)) = set_option (group s i) \<union> set (closed s)"
  by (auto simp: StopListener_def split: option.splits)

lemma CloseAll_keeps [simp]: "group (CloseAll ids s) = group s" "serving (CloseAll ids s) = serving s"
  by (induction ids arbitrary: s) (simp_all add: CloseAll_def)

lemma set_closed_CloseAll: "set (closed (CloseAll ids s)) = (\<Union>i \<in> set ids. set_option (group s i)) \<union> set (closed s)"
  by (induction ids arbitrary: s) (auto simp: CloseAll_def set_closed_Stop)

lemma set_closed_Close:
  "set ids = dom (group s) \<Longrightarrow> set (closed (CloseAll ids s)) = ran (group s) \<union> set (closed s)"
  by (auto simp: set_closed_CloseAll ran_def dom_def)

lemma serve_end_inv:
  assumes "group_inv s" "g \<in> set (serving s)"
  shows "group_inv (serve_end g s)"
proof -
  obtain i ln where g: "g = (i, ln)" by force
  have d: "distinct (map fst (serving s))" using assms(1) by (simp add: group_inv_def)
  then have "distinct (serving s)" by (simp add: distinct_map)
  moreover have "distinct (map fst (remove1 g (serving s)))"
    using d by (auto simp: distinct_map intro: inj_on_subset)
  moreover have "(i, k) \<in> set (serving s) \<longleftrightarrow> k = ln" for k
    using assms g by (auto simp: group_inv_def)
  ultimately show ?thesis using assms(1) g by (auto simp: group_inv_def serve_end_def)
qed

interpretation listeners: invariant_system "lstep True fails" "\<lambda>s. s = no_listeners" group_inv for fails
proof
  show "group_inv s" if "s = no_listeners" for s using that by (simp add: group_inv_def no_listeners_def)
  show "group_inv t" if "group_inv s" "lstep True fails s t" for s t
    using that(2)
  proof cases
    case (start i ln)
    with that(1) show ?thesis by (auto simp: group_inv_def StartProxy_def)
  qed (use that(1) in \<open>simp_all add: serve_end_inv\<close>, simp_all add: group_inv_def)
qed

section \<open>Properties\<close>

text \<open>Whatever closing the file clients reports, \<open>Close\<close> returns nil.\<close>

lemma close_files_nil: "close_files rs = None"
proof -
  have "fold (\<lambda>r err. if err \<noteq> None then r else err) rs None = None" by (induction rs) simp_all
  then show ?thesis by (simp add: close_files_def)
qed

text \<open>Once every listener is closed, the goroutines can all end.\<close>

lemma all_finish:
  "(\<forall>g \<in> set (serving s). snd g \<in> set (closed s)) \<Longrightarrow> \<exists>s'. reach (lstep u f) s s' \<and> serving s' = []"
proof (induction "length (serving s)" arbitrary: s)
  case 0
  then show ?case by (auto intro: reach_refl)
next
  case (Suc n)
  then obtain i ln gs where g: "serving s = (i, ln) # gs" by (metis length_Suc_conv prod.exhaust)
  let ?t = "serve_end (i, ln) s"
  have t: "serving ?t = gs" "closed ?t = closed s" by (simp_all add: serve_end_def g)
  have "lstep u f s ?t" using Suc.prems g by (intro lstep.finish) simp_all
  moreover obtain s' where "reach (lstep u f) ?t s'" "serving s' = []"
    using Suc.hyps(1)[of ?t] Suc.hyps(2) Suc.prems g t by auto
  ultimately show ?case by (blast intro: reach_first)
qed

text \<open>
  C30: as long as no id in use is given out again, every listener being served is registered under its id, so that
  \<open>StopListener\<close> closes it; and \<open>Close\<close> closes them all, so that every goroutine can end and \<open>ErrGroupWait\<close> return.
\<close>

theorem listeners_can_be_stopped:
  assumes "reach (lstep True fails) no_listeners s"
  shows "(\<forall>(i, ln) \<in> set (serving s). ln \<in> set (closed (StopListener i s))) \<and>
    (\<forall>ids. set ids = dom (group s) \<longrightarrow>
      (\<forall>g \<in> set (serving s). snd g \<in> set (closed (CloseAll ids s))) \<and>
      (\<exists>s'. reach (lstep True fails) (CloseAll ids s) s' \<and> serving s' = []))"
proof -
  have inv: "group_inv s" using listeners.inv_reachable[OF refl assms] .
  then have reg: "group s i = Some ln" if "(i, ln) \<in> set (serving s)" for i ln using that by (simp add: group_inv_def)
  then have "\<forall>(i, ln) \<in> set (serving s). ln \<in> set (closed (StopListener i s))" by (auto simp: set_closed_Stop)
  moreover have "\<forall>g \<in> set (serving s). snd g \<in> set (closed (CloseAll ids s))" if "set ids = dom (group s)" for ids
    using reg ranI[of "group s"] by (fastforce simp: set_closed_Close[OF that])
  ultimately show ?thesis using all_finish[of "CloseAll ids s" for ids] by simp
qed

theorem listeners_can_be_stopped_witness:
  "1 \<in> set (closed (StopListener 7 (StartProxy 7 1 no_listeners)))"
proof -
  have "lstep True False no_listeners (StartProxy 7 1 no_listeners)"
    by (rule lstep.start) (simp_all add: no_listeners_def)
  then have "reach (lstep True False) no_listeners (StartProxy 7 1 no_listeners)" by (blast intro: reach_refl reach_step)
  from listeners_can_be_stopped[OF this] show ?thesis by (simp add: StartProxy_def)
qed

text \<open>
  When an id is used again before the goroutine of its previous listener has ended, as unbinding and binding the
  configured proxy does, that goroutine deletes the entry of the new listener: from then on nothing the node does closes
  the new listener, its goroutine never ends, and \<open>ErrGroupWait\<close> never returns.
\<close>

theorem rebinding_loses_listener:
  "\<exists>s i ln. reach (lstep False False) no_listeners s \<and>
     (\<forall>t. reach (lstep False False) s t \<longrightarrow> (i, ln) \<in> set (serving t) \<and> ln \<notin> set (closed t))"
proof -
  let ?a = "StartProxy 0 0 no_listeners"
  let ?b = "StartProxy 0 1 (StopListener 0 ?a)"
  let ?s = "serve_end (0, 0) ?b"
  have st: "lstep False False no_listeners ?a" "lstep False False ?a (StopListener 0 ?a)"
    "lstep False False (StopListener 0 ?a) ?b" "lstep False False ?b ?s"
    by (rule lstep.start lstep.stop lstep.finish; simp add: StartProxy_def StopListener_def no_listeners_def)+
  have "reach (lstep False False) no_listeners ?s"
    by (rule reach_step, rule reach_step, rule reach_step, rule reach_step, rule reach_refl) (rule st)+
  moreover have "(0, 1) \<in> set (serving t) \<and> 1 \<notin> set (closed t) \<and> 1 \<notin> ran (group t)" if "reach (lstep False False) ?s t" for t
    using that
  proof (induction rule: reach.induct)
    case reach_refl
    then show ?case by (simp add: serve_end_def StartProxy_def StopListener_def no_listeners_def)
  next
    case (reach_step t u)
    from reach_step.hyps(2) reach_step.IH show ?case
    proof (cases rule: lstep.cases)
      case (start i ln)
      with reach_step.IH have "ln \<noteq> 1" by force
      with start reach_step.IH show ?thesis by (auto simp: StartProxy_def ran_def split: if_splits)
    next
      case (stop i)
      with reach_step.IH show ?thesis by (auto simp: set_closed_Stop intro: ranI)
    next
      case (finish i ln)
      with reach_step.IH have "(i, ln) \<noteq> (0, 1)" by auto
      with finish(1) reach_step.IH show ?thesis by (auto simp: serve_end_def ran_def split: if_splits)
    next
      case (close ids)
      with reach_step.IH show ?thesis by (auto simp: set_closed_Close)
    qed simp
  qed
  ultimately show ?thesis by blast
qed

end
