(* ===== verification/Zapsuit.thy ===== *)
theory Zapsuit
  imports GoLib
begin

text \<open>
  The choice of a log target: \<open>src/pkg/zapsuit/suit.go\<close> and \<open>src/grpc/log.go\<close>. Parsing of URLs, levels and durations and the
  loggers themselves are library code.
\<close>

section \<open>Targets\<close>

record log_url =
  uScheme :: string
  uUser :: bool
  uHost :: string
  uPort :: string
  uPath :: string
  uFragment :: string
  uTimeout :: string

datatype log_level = Level string

datatype log_out =
  NopLogger | SentryLogger bool "log_level option" string | ZapLogger bool "log_level option" "string option" | LogErr string

text \<open>\<open>NewZap\<close>: which logger a configuration gives; building one is the library's.\<close>

definition NewZap :: "(string \<Rightarrow> string + log_url) \<Rightarrow> bool \<Rightarrow> log_level option \<Rightarrow> string \<Rightarrow> log_out" where
  "NewZap parse dev level target =
     (if target = ''nop'' then NopLogger
      else case parse target of
             Inr u \<Rightarrow>
               if uScheme u = ''https'' \<or> uScheme u = ''http'' then
                 (if uHost u = ''sentry.io'' then SentryLogger dev level target
                  else LogErr (''not implemented zapcore with url: '' @ target))
               else ZapLogger dev level (if target = [] then None else Some target)
           | Inl _ \<Rightarrow> ZapLogger dev level (if target = [] then None else Some target))"

definition NewLogger :: "(string \<Rightarrow> string + log_level) \<Rightarrow> (string \<Rightarrow> string + log_url) \<Rightarrow> bool \<Rightarrow> string \<Rightarrow> string \<Rightarrow> log_out" where
  "NewLogger setLevel parse dev level target =
     (if level \<noteq> [] then (case setLevel level of Inl e \<Rightarrow> LogErr e | Inr l \<Rightarrow> NewZap parse dev (Some l) target)
      else NewZap parse dev None target)"

text \<open>
  \<open>NewTCPSink\<close>: the checks, then dialling with a timeout in nanoseconds. The duration that was parsed is another variable
  than the one dialled with, which stays 0.
\<close>

definition NewTCPSink :: "(string \<Rightarrow> string + int) \<Rightarrow> (string \<Rightarrow> int \<Rightarrow> string + 'conn) \<Rightarrow> log_url \<Rightarrow> string + 'conn" where
  "NewTCPSink parseDuration dial u =
     (if uUser u then Inl ''user and password not allowed''
      else if uFragment u \<noteq> [] then Inl ''fragments not allowed''
      else if uPath u \<noteq> [] then Inl ''path parameters not allowed''
      else if uPort u = [] then Inl ''port must be set''
      else let dur = 0 in
        if uTimeout u \<noteq> [] then
          (case parseDuration (uTimeout u) of Inl e \<Rightarrow> Inl (''parse timeout err: '' @ e)
           | Inr d \<Rightarrow> if d < 0 then Inl ''timeout not allowed negative'' else dial (uHost u) dur)
        else dial (uHost u) dur)"

end
