(* ===== verification/ServiceStart.thy ===== *)
theory ServiceStart
  imports Config KeystoreSpec Listeners Zapsuit
begin

text \<open>
  The service the control server runs: \<open>src/grpc/service.go\<close> with \<open>NewBadger\<close> of \<open>src/pkg/badgerutil\<close>. Starting it puts the
  components together: the configuration is loaded (\<open>Config\<close>), a logger chosen (\<open>Zapsuit\<close>), the key store made over the
  database (\<open>Keystore\<close>), the IPFS node made off line (\<open>Ipfs\<close>), the node built with its listeners (\<open>Node\<close>), and the
  IPFS node brought on line.

  What is an argument here is what is an argument in those theories, the libraries and the operating system.
\<close>

section \<open>Types\<close>

datatype srv_error =
    ErrKeyLife | ErrConfigBindId | ErrNoService | ErrServiceAlreadyStarted | ErrIpfsRepoLocked | ErrNotImplememted
  | ErrConfigBindNotSet | ErrKeys ks_error | ErrIpfs ipfs_error | ErrNode node_error | ErrOf string

text \<open>The parts of a service that the handlers of the control server read and change.\<close>

record 'db Service =
  svBind :: string
  svConfigPath :: string
  svListeners :: listeners
  svConfigBindId :: u32
  verifyKeystore :: "'db KeyStore"
  cancelled :: bool

text \<open>A service that was started: besides those, its configuration, its node and its IPFS node.\<close>

record ('db, 'm) Started =
  stService :: "'db Service"
  stConfig :: cfg_Loaded
  stNode :: "'m node"
  stIpfs :: ipfs

definition StorePrefixVerifyKey :: bytes where
  "StorePrefixVerifyKey = [118, 47]"

section \<open>The database (badgerutil)\<close>

record 'opt badger_options =
  Dir :: string
  ValueDir :: string
  otherOptions :: 'opt

definition NewBadger ::
  "('opt badger_options \<Rightarrow> string + 'db) \<Rightarrow> 'opt badger_options \<Rightarrow> string \<Rightarrow> 'opt badger_options option \<Rightarrow> string + 'db" where
  "NewBadger badgerOpen defaultOptions path options =
     (let opt = (case options of None \<Rightarrow> defaultOptions | Some x \<Rightarrow> x)
      in badgerOpen (opt\<lparr>Dir := path, ValueDir := path\<rparr>))"

section \<open>Starting\<close>

record ('m, 'rule, 'peer, 'ver, 'conf, 'opt, 'db) svc_env =
  svLoad :: "'ver load_env"
  svSetLevel :: "string \<Rightarrow> string + log_level"
  svParseURL :: "string \<Rightarrow> string + log_url"
  svBuildLog :: "log_out \<Rightarrow> string option"
  svBadgerOpen :: "'opt badger_options \<Rightarrow> string + 'db"
  svDefaultOptions :: "'opt badger_options"
  svResolve :: "string \<Rightarrow> ipfs_error + (ip option \<times> nat)"
  svMulti :: "ip \<times> nat \<Rightarrow> ipfs_error + string"
  svDaemon :: "'conf daemon_env"
  svNodeEnv :: "('m, 'rule, 'peer) node_env"

definition start_logger :: "('m, 'rule, 'peer, 'ver, 'conf, 'opt, 'db) svc_env \<Rightarrow> cfg_Loaded \<Rightarrow> string option" where
  "start_logger Z c =
     (case NewLogger (svSetLevel Z) (svParseURL Z) (gLogDev c) (gLogLevel c) (gLogTarget c) of
        LogErr e \<Rightarrow> Some e | l \<Rightarrow> svBuildLog Z l)"

text \<open>The files a node reads are those under the root of its tree.\<close>

definition node_at :: "ConfigTree \<Rightarrow> ('m, 'rule, 'peer) node_env \<Rightarrow> ('m, 'rule, 'peer) node_env" where
  "node_at t ne = ne\<lparr>OpenReader := (\<lambda>p. OpenReader ne (ConfigTree.RootPath t # p)),
     ReadDir := (\<lambda>p. ReadDir ne (ConfigTree.RootPath t # p)), ReadFile := (\<lambda>p. ReadFile ne (ConfigTree.RootPath t # p))\<rparr>"

definition node_New ::
  "'ver load_env \<Rightarrow> ('m, 'rule, 'peer) node_env \<Rightarrow> cfg_Loaded \<Rightarrow> (string \<Rightarrow> bool) option \<Rightarrow> ipfs \<Rightarrow> (node_error + 'm node) \<times> ipfs" where
  "node_New L ne c localServers hi =
     (case get_tree L c of
        Inl e \<Rightarrow> (Inl (ErrTree e), hi)
      | Inr (t, c) \<Rightarrow> NewNode (node_at t ne) (cfg_Config.truncate c) localServers hi)"

text \<open>
  What is acquired and released on the way. Archives are given by the place of their file server in the configuration, listeners by their
  protocol. The IPFS node made off line has the number 0, the daemon that \<open>Connect\<close> starts 1.
\<close>

datatype svc_event =
    OpenLog | SyncLog | Setenv string string | OpenDB | CloseDB | WithCancel | Cancel | MakeNode | CloseNode | SpawnWait
  | OpenArchive nat | CloseArchive nat | AddListener string | StartDaemon nat

datatype 'a svc_out = SOk 'a | SErr srv_error | SPanic

definition node_failure :: "node_error \<Rightarrow> 'a svc_out" where
  "node_failure e = (case e of ErrNodePanic _ \<Rightarrow> SPanic | _ \<Rightarrow> SErr (ErrNode e))"

text \<open>
  What \<open>node.New\<close> opens: the archives of the file servers up to the first that fails, and the listeners it registered. When it fails at
  the routers it closes the file clients it has, one for each name; at any other error it closes nothing.
\<close>

definition fs_name :: "cfg_FileServer \<Rightarrow> string" where
  "fs_name s = (if fsName s = [] then fsRootZipName s else fsName s)"

definition opened_archives :: "('m, 'rule, 'peer) node_env \<Rightarrow> cfg_Config \<Rightarrow> nat" where
  "opened_archives ne c =
     length (takeWhile (\<lambda>s. is_ok (NewFileProxyRouterClient ne (parseEnvList ne ''HYBRID_FILE_SERVERS_DISABLED'' (fs_name s))
       [''files-root'', fsRootZipName s] (fsRedirect s))) (gFileServers c))"

definition kept_archives :: "cfg_Config \<Rightarrow> nat \<Rightarrow> nat list" where
  "kept_archives c k = filter (\<lambda>i. list_all (\<lambda>j. fs_name (gFileServers c ! j) \<noteq> fs_name (gFileServers c ! i)) [Suc i..<k]) [0..<k]"

definition archive_events :: "('m, 'rule, 'peer) node_env \<Rightarrow> cfg_Config \<Rightarrow> svc_event list" where
  "archive_events ne c =
     (let n = \<lparr>nProxies = [''DIRECT'' \<mapsto> PDirect], nFileClients = (\<lambda>_. None), nDialers = NewH2Client,
               nRouterDisabled = parseEnvList ne ''HYBRID_ROUTER_DISABLED'',
               nFsDisabled = parseEnvList ne ''HYBRID_FILE_SERVERS_DISABLED''\<rparr>;
          ipfsToken = (if gIpfsToken c = [] then gToken c else gIpfsToken c);
          k = opened_archives ne c
      in case rfold (add_ipfs_server ne ipfsToken) (gIpfsServers c) n of Inl _ \<Rightarrow> []
         | Inr n \<Rightarrow>
        (case rbind (rfold (add_file_server ne) (gFileServers c) n) (rfold (add_http_proxy ne) (gHttpProxyServers c)) of
           Inl _ \<Rightarrow> map OpenArchive [0..<k]
         | Inr n \<Rightarrow> map OpenArchive [0..<k] @
             (case new_routers ne n (gRouters c) of Inl _ \<Rightarrow> map CloseArchive (kept_archives c k) | Inr _ \<Rightarrow> [])))"

definition listen_events :: "ipfs \<Rightarrow> ipfs \<Rightarrow> svc_event list" where
  "listen_events hi hi' = map AddListener (rev (filter (\<lambda>p. p \<notin> set (plisteners hi)) (plisteners hi')))"

definition node_events ::
  "'ver load_env \<Rightarrow> ('m, 'rule, 'peer) node_env \<Rightarrow> cfg_Loaded \<Rightarrow> ipfs \<Rightarrow> ipfs \<Rightarrow> svc_event list" where
  "node_events L ne c hi hi' =
     (case get_tree L c of Inl _ \<Rightarrow> [] | Inr (t, c) \<Rightarrow> archive_events (node_at t ne) (cfg_Config.truncate c) @ listen_events hi hi')"

text \<open>The daemon, when \<open>Connect\<close> leaves it running, also after an error.\<close>

definition daemon_events :: "nat \<Rightarrow> ipfs \<Rightarrow> svc_event list" where
  "daemon_events n hi = (if n \<in> set (live hi) then [StartDaemon n] else [])"

text \<open>
  A deferred function runs when \<open>Start\<close> returns or panics, after all that follows, and releases what was acquired before it
  unless \<open>s.node\<close> was set, which is the case only when \<open>Start\<close> succeeds.
\<close>

definition deferred :: "svc_event \<Rightarrow> svc_event \<Rightarrow> 'a svc_out \<times> svc_event list \<Rightarrow> 'a svc_out \<times> svc_event list" where
  "deferred acquire release rest =
     (case rest of (out, evs) \<Rightarrow> (out, acquire # evs @ (case out of SOk _ \<Rightarrow> [] | _ \<Rightarrow> [release])))"

definition after :: "svc_event list \<Rightarrow> 'a svc_out \<times> svc_event list \<Rightarrow> 'a svc_out \<times> svc_event list" where
  "after evs rest = (case rest of (out, evs') \<Rightarrow> (out, evs @ evs'))"

definition Service_Start ::
  "('m, 'rule, 'peer, 'ver, 'conf, 'opt, 'db) svc_env \<Rightarrow> string \<Rightarrow> u32 \<Rightarrow> ('db, 'm) Started svc_out \<times> svc_event list" where
  "Service_Start Z root configBindId =
     (case LoadConfig (svLoad Z) (Some (zero_cfg\<lparr>gRootPath := root\<rparr>)) of
        LoadPanic \<Rightarrow> (SPanic, []) | LoadErr x \<Rightarrow> (SErr (ErrOf (''LoadConfig err: '' @ x)), [])
      | Loaded c \<Rightarrow>
     (case start_logger Z c of Some x \<Rightarrow> (SErr (ErrOf (''NewLogger err: '' @ x)), [])
      | None \<Rightarrow> deferred OpenLog SyncLog
     (case get_tree (svLoad Z) c of Inl x \<Rightarrow> (SErr (ErrOf x), [])
      | Inr (t, c) \<Rightarrow> after [Setenv ''IPFS_PATH'' (IpfsPath t)]
     (case NewBadger (svBadgerOpen Z) (svDefaultOptions Z) (StorePath t) None of Inl x \<Rightarrow> (SErr (ErrOf x), [])
      | Inr d \<Rightarrow> deferred OpenDB CloseDB
     (case Keystore.New \<lparr>cfg_DB = Some d, cfg_Prefix = StorePrefixVerifyKey\<rparr> of Inl x \<Rightarrow> (SErr (ErrKeys x), [])
      | Inr ks \<Rightarrow> deferred WithCancel Cancel
     (case node_NewIpfs (parseTCPMultiaddr (svResolve Z) (svMulti Z)) (svLoad Z) (svDaemon Z) 0 c of
        (IPanic, c) \<Rightarrow> (SPanic, []) | (IErr x, c) \<Rightarrow> (SErr (ErrIpfs x), [])
      | (IOk hi, c) \<Rightarrow>
     (case node_New (svLoad Z) (svNodeEnv Z) c (Some (\<lambda>_. False)) hi of
        (Inl x, hi') \<Rightarrow> (node_failure x, node_events (svLoad Z) (svNodeEnv Z) c hi hi')
      | (Inr nd, hi') \<Rightarrow> after (node_events (svLoad Z) (svNodeEnv Z) c hi hi') (deferred MakeNode CloseNode
     (case Connect (svDaemon Z) 1 hi' of
        (r, hi') \<Rightarrow> after (daemon_events 1 hi')
          (case r of IPanic \<Rightarrow> (SPanic, []) | IErr x \<Rightarrow> (SErr (ErrIpfs x), [])
           | IOk _ \<Rightarrow>
               (SOk \<lparr>stService = \<lparr>svBind = gBind c, svConfigPath = ConfigPath t, svListeners = no_listeners, svConfigBindId = configBindId,
                     verifyKeystore = ks, cancelled = False\<rparr>,
                   stConfig = c, stNode = nd, stIpfs = hi'\<rparr>, [SpawnWait])))))))))))"

section \<open>Resources\<close>

fun release_of :: "svc_event \<Rightarrow> svc_event option" where
  "release_of OpenLog = Some SyncLog"
| "release_of OpenDB = Some CloseDB"
| "release_of WithCancel = Some Cancel"
| "release_of MakeNode = Some CloseNode"
| "release_of e = None"

abbreviation releases :: "svc_event set" where "releases \<equiv> {SyncLog, CloseDB, Cancel, CloseNode}"

text \<open>
  Running the events against a stack of what must still be released by \<open>Start\<close>: a release must be that of the last thing acquired.
\<close>

fun held :: "svc_event list \<Rightarrow> svc_event list \<Rightarrow> svc_event list option" where
  "held stack [] = Some stack"
| "held stack (e # evs) =
     (case release_of e of
        Some r \<Rightarrow> held (r # stack) evs
      | None \<Rightarrow> if e \<in> releases
                then (case stack of r # rest \<Rightarrow> if r = e then held rest evs else None | [] \<Rightarrow> None)
                else held stack evs)"

lemma held_append: "held st (a @ b) = (case held st a of None \<Rightarrow> None | Some st' \<Rightarrow> held st' b)"
  by (induction st a rule: held.induct) (auto split: option.splits list.splits)

text \<open>A part of \<open>Start\<close> that leaves \<open>rs\<close> to be released when it succeeds and nothing otherwise.\<close>

definition leaves :: "svc_event list \<Rightarrow> 'a svc_out \<times> svc_event list \<Rightarrow> bool" where
  "leaves rs p \<longleftrightarrow> (\<forall>st. held st (snd p) = Some ((case fst p of SOk _ \<Rightarrow> rs | _ \<Rightarrow> []) @ st))"

lemma leaves_deferred: "leaves rs p \<Longrightarrow> release_of a = Some r \<Longrightarrow> r \<in> releases \<Longrightarrow> leaves (rs @ [r]) (deferred a r p)"
  by (cases p; cases "fst p") (auto simp: leaves_def deferred_def held_append split: svc_out.splits)

lemma leaves_after: "leaves rs p \<Longrightarrow> (\<And>st. held st evs = Some st) \<Longrightarrow> leaves rs (after evs p)"
  by (auto simp: leaves_def after_def held_append split: prod.splits)

lemma leaves_fail: "(\<And>st. held st evs = Some st) \<Longrightarrow> leaves rs (SErr e, evs) \<and> leaves rs (SPanic, evs)"
  by (simp add: leaves_def)

lemma leaves_done: "leaves [] (SOk x, [SpawnWait])"
  by (simp add: leaves_def)

lemma held_map: "(\<And>x. release_of (f x) = None \<and> f x \<notin> releases) \<Longrightarrow> held st (map f xs) = Some st"
  by (induction xs) auto

lemma held_node_events: "held st (node_events L ne c hi hi') = Some st"
  by (auto simp: node_events_def archive_events_def listen_events_def Let_def held_append held_map split: sum.splits prod.splits)

lemma leaves_node_failure: "(\<And>st. held st evs = Some st) \<Longrightarrow> leaves rs (node_failure x, evs)"
  by (simp add: node_failure_def leaves_fail split: node_error.splits)

text \<open>
  However starting a service ends, its log, its database, its context and its node are released in the opposite order of
  acquiring them, unless it succeeded; then all of them are held. (What else may be left after a failure: the archives and listeners of a
  node that could not be made, and a daemon whose handlers could not be made.)
\<close>

theorem Service_Start_releases:
  "leaves [CloseNode, Cancel, CloseDB, SyncLog] (Service_Start Z root i)"
proof -
  have d: "held st (daemon_events n hi) = Some st" for st n hi by (simp add: daemon_events_def)
  note nest = leaves_deferred[of "[]" _ MakeNode CloseNode, simplified] leaves_deferred[of "[CloseNode]" _ WithCancel Cancel, simplified]
    leaves_deferred[of "[CloseNode, Cancel]" _ OpenDB CloseDB, simplified] leaves_deferred[of "[CloseNode, Cancel, CloseDB]" _ OpenLog SyncLog, simplified]
  show ?thesis
    unfolding Service_Start_def
    by (auto simp: leaves_fail held_node_events d leaves_done leaves_node_failure intro!: nest leaves_after
        split: load_out.splits sum.splits option.splits prod.splits ipfs_reply.splits)
qed

text \<open>
  A node that cannot be made because of an HTTP proxy leaves the archives of its file servers open: none of the events after opening
  them closes one.
\<close>

theorem archives_left_open:
  assumes "rfold (add_ipfs_server ne (if gIpfsToken c = [] then gToken c else gIpfsToken c)) (gIpfsServers c)
      \<lparr>nProxies = [''DIRECT'' \<mapsto> PDirect], nFileClients = (\<lambda>_. None), nDialers = NewH2Client,
       nRouterDisabled = parseEnvList ne ''HYBRID_ROUTER_DISABLED'', nFsDisabled = parseEnvList ne ''HYBRID_FILE_SERVERS_DISABLED''\<rparr> = Inr n1"
    "rfold (add_file_server ne) (gFileServers c) n1 = Inr n2" "rfold (add_http_proxy ne) (gHttpProxyServers c) n2 = Inl e"
  shows "build_node ne c ls = Inl e \<and> archive_events ne c = map OpenArchive [0..<opened_archives ne c]"
  using assms by (simp add: build_node_def archive_events_def Let_def)

section \<open>A started service\<close>

lemma Service_Start_ok:
  assumes "Service_Start Z root i = (SOk st, evs)"
  obtains c0 t c1 d ks hi0 c hi1 where
    "LoadConfig (svLoad Z) (Some (zero_cfg\<lparr>gRootPath := root\<rparr>)) = Loaded c0" "get_tree (svLoad Z) c0 = Inr (t, c1)"
    "NewBadger (svBadgerOpen Z) (svDefaultOptions Z) (StorePath t) None = Inr d"
    "Keystore.New \<lparr>cfg_DB = Some d, cfg_Prefix = StorePrefixVerifyKey\<rparr> = Inr ks"
    "node_NewIpfs (parseTCPMultiaddr (svResolve Z) (svMulti Z)) (svLoad Z) (svDaemon Z) 0 c1 = (IOk hi0, c)"
    "node_New (svLoad Z) (svNodeEnv Z) c (Some (\<lambda>_. False)) hi0 = (Inr (stNode st), hi1)"
    "Connect (svDaemon Z) 1 hi1 = (IOk (), stIpfs st)"
    "stService st = \<lparr>svBind = gBind c, svConfigPath = ConfigPath t, svListeners = no_listeners, svConfigBindId = i,
       verifyKeystore = ks, cancelled = False\<rparr>" "stConfig st = c"
    "Setenv ''IPFS_PATH'' (IpfsPath t) \<in> set evs"
  using assms unfolding Service_Start_def node_failure_def deferred_def after_def
  by (auto split: load_out.splits option.splits sum.splits prod.splits ipfs_reply.splits node_error.splits intro: that)

lemma get_tree_known: "gTree c = Some t \<Longrightarrow> get_tree L c = Inr (t, c)"
  by (simp add: get_tree_def)

lemma node_NewIpfs_keeps: "gTree c = Some t \<Longrightarrow> node_NewIpfs addr L D n c = (r, c') \<Longrightarrow> c' = c"
  by (auto simp: node_NewIpfs_def get_tree_known split: sum.splits ipfs_reply.splits)

lemma Connect_ok:
  assumes "Connect D n hi = (IOk u, hi')" "isOnline hi = Some False"
  shows "inode hi' = OnlineNode n \<and> api hi' = Some n \<and> streams hi' = plisteners hi \<and> config hi' = config hi \<and>
    apiServer hi' = HServe n \<and> gatewayServer hi' = HServe n"
  using assms by (auto simp: Connect_def SetOnline_def Let_def split: ipfs_reply.splits option.splits)

lemma truncate_sels:
  "gListenProtocols (cfg_Config.truncate c) = gListenProtocols c" "gIpfsServers (cfg_Config.truncate c) = gIpfsServers c"
  "gHttpProxyServers (cfg_Config.truncate c) = gHttpProxyServers c" "gRouters (cfg_Config.truncate c) = gRouters c"
  by (simp_all add: cfg_Config.truncate_def)

text \<open>
  C5: a service that was started with any root path has one directory: the configuration was read there, in the right version,
  and is valid; the database of its key store and its IPFS repository are other places in the same directory. The IPFS
  node is on line and both of its HTTP servers serve; the node has the proxies its configuration names and one listener
  for each configured protocol, all different, whose stream handlers are installed at the host that is on line; and
  the key store is a new one over that database, for verification keys.
\<close>

theorem service_started:
  fixes Z :: "('m, 'rule, 'peer, 'ver, 'conf, 'opt, 'db) svc_env"
  assumes start: "Service_Start Z root i = (SOk st, evs)" and wd: "leCwd (svLoad Z) = Inr wd" "IsAbs wd"
    and keep: "\<And>c1 c2. EnvParse (svLoad Z) c1 = Inr c2 \<or> DefaultsSet (svLoad Z) c1 = Inr c2 \<or> (\<exists>b. load_env.Unmarshal (svLoad Z) b c1 = Inr c2) \<Longrightarrow>
      gTree c2 = gTree c1"
  shows "\<exists>r t content ver check. gTree (stConfig st) = Some t \<and> tree_at r t \<and>
    distinct [ConfigPath t, IpfsPath t, StorePath t, FilesRootPath t, RulesRootPath t] \<and>
    ReadConfig (svLoad Z) (abs_path (r @ [''hybrid.json''])) = Inr content \<and>
    NewVersion (svLoad Z) (JsonVersion (svLoad Z) content) = Inr ver \<and> NewConstraint (svLoad Z) ''=1'' = Inr check \<and> check ver \<and>
    load_env.Validate (svLoad Z) (stConfig st) = None \<and>
    svBadgerOpen Z ((svDefaultOptions Z)\<lparr>Dir := abs_path (r @ [''store'']), ValueDir := abs_path (r @ [''store''])\<rparr>) =
      Inr (db (verifyKeystore (stService st))) \<and>
    ks_prefix (verifyKeystore (stService st)) = StorePrefixVerifyKey \<and> ks_wf (verifyKeystore (stService st)) \<and>
    ipfs_Config.RepoPath (config (stIpfs st)) = abs_path (r @ [''ipfs'']) \<and> Setenv ''IPFS_PATH'' (abs_path (r @ [''ipfs''])) \<in> set evs \<and>
    inode (stIpfs st) = OnlineNode 1 \<and> apiServer (stIpfs st) = HServe 1 \<and> gatewayServer (stIpfs st) = HServe 1 \<and>
    ndListeners (stNode st) = gListenProtocols (stConfig st) \<and> distinct (gListenProtocols (stConfig st)) \<and>
    set (streams (stIpfs st)) = set (gListenProtocols (stConfig st)) \<and>
    Proxies (ndCore (stNode st)) = config_proxies (cfg_Config.truncate (stConfig st)) \<and>
    svBind (stService st) = gBind (stConfig st)"
proof -
  let ?L = "svLoad Z"
  obtain c0 t0 c1 d ks hi0 c hi1 where s:
    "LoadConfig ?L (Some (zero_cfg\<lparr>gRootPath := root\<rparr>)) = Loaded c0" "get_tree ?L c0 = Inr (t0, c1)"
    "NewBadger (svBadgerOpen Z) (svDefaultOptions Z) (StorePath t0) None = Inr d"
    "Keystore.New \<lparr>cfg_DB = Some d, cfg_Prefix = StorePrefixVerifyKey\<rparr> = Inr ks"
    "node_NewIpfs (parseTCPMultiaddr (svResolve Z) (svMulti Z)) ?L (svDaemon Z) 0 c1 = (IOk hi0, c)"
    "node_New ?L (svNodeEnv Z) c (Some (\<lambda>_. False)) hi0 = (Inr (stNode st), hi1)"
    "Connect (svDaemon Z) 1 hi1 = (IOk (), stIpfs st)"
    "stService st = \<lparr>svBind = gBind c, svConfigPath = ConfigPath t0, svListeners = no_listeners, svConfigBindId = i,
       verifyKeystore = ks, cancelled = False\<rparr>" "stConfig st = c"
    "Setenv ''IPFS_PATH'' (IpfsPath t0) \<in> set evs"
    by (rule Service_Start_ok[OF start])
  obtain r t content ver check where l: "gTree c0 = Some t" "tree_at r t" "ReadConfig ?L (ConfigPath t) = Inr content"
    "NewVersion ?L (JsonVersion ?L content) = Inr ver" "NewConstraint ?L ''=1'' = Inr check" "check ver" "load_env.Validate ?L c0 = None"
    by (rule LoadConfig_tree[OF s(1) wd _ keep]) (auto simp: zero_cfg_def)
  have e: "t0 = t" "c1 = c0" using s(2) get_tree_known[OF l(1), of ?L] by simp_all
  then have c: "c = c0" using node_NewIpfs_keeps[OF l(1)] s(5) by blast
  have "IpfsPath t \<noteq> []" using l(2) by (simp add: tree_at_def abs_path_def)
  with node_NewIpfs_ok[OF s(5)] l(1) e have hi0: "ipfs_Config.RepoPath (config hi0) = IpfsPath t" "inode hi0 = OfflineNode 0" "plisteners hi0 = []" by auto
  then have on0: "isOnline hi0 = Some False" by (simp add: isOnline_def)
  from s(6) get_tree_known[OF l(1), of ?L] have nd: "NewNode (node_at t (svNodeEnv Z)) (cfg_Config.truncate c) (Some (\<lambda>_. False)) hi0 = (Inr (stNode st), hi1)"
    by (simp add: node_New_def c)
  have lns: "start_listeners (gListenProtocols c) hi0 = (Inr (ndListeners (stNode st)), hi1)"
    by (rule NewNode_stages[OF nd]) (simp add: truncate_sels)
  note hi1 = start_listeners_ok[OF lns on0]
  then have "isOnline hi1 = Some False" using on0 by (simp add: isOnline_def)
  note hi = Connect_ok[OF s(7) this]
  have "set (streams (stIpfs st)) = set (gListenProtocols c)" using hi hi1 hi0(3) by simp
  moreover have "svBadgerOpen Z ((svDefaultOptions Z)\<lparr>Dir := abs_path (r @ [''store'']), ValueDir := abs_path (r @ [''store''])\<rparr>) = Inr (db ks)"
    using s(3,4) l(2) e by (auto simp: NewBadger_def tree_at_def New_def StorePrefixVerifyKey_def Let_def)
  moreover have "ks_prefix ks = StorePrefixVerifyKey" "ks_wf ks" using New_ok[OF s(4)] by auto
  moreover have "Setenv ''IPFS_PATH'' (IpfsPath t) \<in> set evs" using s(10) e by simp
  ultimately show ?thesis
    using l hi hi1 s(8,9) hi0(1) c NewNode_parts(1)[OF nd] tree_at_distinct[OF l(2)]
    by (intro exI[of _ r] exI[of _ t] exI[of _ content] exI[of _ ver] exI[of _ check]) (simp add: tree_at_def)
qed

definition example_service :: "(unit, unit, string, nat, string, unit, mem_db) svc_env" where
  "example_service = \<lparr>svLoad = example_load_env, svSetLevel = Inl, svParseURL = Inl, svBuildLog = (\<lambda>_. None), svBadgerOpen = (\<lambda>_. Inr []),
     svDefaultOptions = \<lparr>Dir = [], ValueDir = [], otherOptions = ()\<rparr>, svResolve = (\<lambda>_. Inr (None, 7777)), svMulti = (\<lambda>_. Inr ''/tcp''),
     svDaemon = example_daemon, svNodeEnv = example_node_env\<rparr>"

lemma example_service_starts: "\<exists>st evs. Service_Start example_service [] 5 = (SOk st, evs)"
proof -
  have "case fst (Service_Start example_service [] 5) of SOk _ \<Rightarrow> True | _ \<Rightarrow> False" by code_simp
  then show ?thesis by (auto split: svc_out.splits) (metis prod.collapse)
qed

theorem service_started_witness:
  "\<exists>st evs. Service_Start example_service [] 5 = (SOk st, evs) \<and> inode (stIpfs st) = OnlineNode 1 \<and>
     set (streams (stIpfs st)) = set (gListenProtocols (stConfig st)) \<and> svBind (stService st) = gBind (stConfig st)"
proof -
  obtain st evs where st: "Service_Start example_service [] 5 = (SOk st, evs)" using example_service_starts by blast
  have w: "leCwd (svLoad example_service) = Inr ''/tmp''" "IsAbs ''/tmp''"
    by (simp_all add: example_service_def example_load_env_def Separator_def)
  have "gTree c2 = gTree c1" if "EnvParse (svLoad example_service) c1 = Inr c2 \<or> DefaultsSet (svLoad example_service) c1 = Inr c2 \<or>
      (\<exists>b. load_env.Unmarshal (svLoad example_service) b c1 = Inr c2)" for c1 c2
    using that by (auto simp: example_service_def example_load_env_def)
  from service_started[OF st w this] st show ?thesis by blast
qed

end
