(* ===== verification/GrpcServer.thy ===== *)
theory GrpcServer
  imports ServiceStart
begin

text \<open>
  The control server, \<open>src/grpc/server.go\<close>, with \<open>StartConfigProxy\<close> and \<open>StopConfigProxy\<close> of \<open>src/node/node.go\<close>. Every
  handler runs under the server's mutex, so a handler is a function on the server state; \<open>WaitUntilStopped\<close>, which does
  not, is in \<open>ServerStop\<close>. The listen function of the operating system is an argument.
\<close>

section \<open>Types\<close>

datatype 'a reply = Reply 'a | Fail srv_error | Panics string

record srv_config =
  MinVerifyKeyLife :: u32
  MaxVerifyKeyLife :: u32
  BindSeqStart :: u32
  ConfigBindId :: u32

record 'db Server =
  srvConfig :: srv_config
  service :: "'db Service option"
  bindSeq :: u32

type_synonym net_listen = "string \<Rightarrow> string \<Rightarrow> string + nat"

definition nil_deref :: string where
  "nil_deref = ''invalid memory address or nil pointer dereference''"

section \<open>node.go: the configured proxy\<close>

definition StartConfigProxy :: "net_listen \<Rightarrow> 'db Service \<Rightarrow> srv_error option \<times> 'db Service" where
  "StartConfigProxy listen sv =
     (if svBind sv = [] then (Some ErrConfigBindNotSet, sv)
      else case listen ''tcp'' (svBind sv) of
             Inl e \<Rightarrow> (Some (ErrOf e), sv)
           | Inr ln \<Rightarrow> (None, sv\<lparr>svListeners := StartProxy (svConfigBindId sv) ln (svListeners sv)\<rparr>))"

text \<open>The error of closing a listener: closing one twice is an error.\<close>

definition stop_err :: "u32 \<Rightarrow> listeners \<Rightarrow> srv_error option" where
  "stop_err i s = (case group s i of None \<Rightarrow> None
     | Some ln \<Rightarrow> if ln \<in> set (closed s) then Some (ErrOf ''use of closed network connection'') else None)"

definition node_StopListener :: "u32 \<Rightarrow> 'db Service \<Rightarrow> srv_error option \<times> 'db Service" where
  "node_StopListener i sv = (stop_err i (svListeners sv), sv\<lparr>svListeners := StopListener i (svListeners sv)\<rparr>)"

definition StopConfigProxy :: "'db Service \<Rightarrow> srv_error option \<times> 'db Service" where
  "StopConfigProxy sv = node_StopListener (svConfigBindId sv) sv"

section \<open>server.go\<close>

definition NewServer :: "srv_config \<Rightarrow> srv_error + 'db Server" where
  "NewServer c =
     (if MaxVerifyKeyLife c < MinVerifyKeyLife c then Inl ErrKeyLife
      else if ConfigBindId c > BindSeqStart c then Inl ErrConfigBindId
      else Inr \<lparr>srvConfig = c, service = None, bindSeq = BindSeqStart c\<rparr>)"

definition reply_of :: "srv_error option \<Rightarrow> unit reply" where
  "reply_of e = (case e of None \<Rightarrow> Reply () | Some e \<Rightarrow> Fail e)"

text \<open>What \<open>Start\<close> of the server does with the outcome of starting a service.\<close>

definition finish_start :: "net_listen \<Rightarrow> 'db Service svc_out \<Rightarrow> 'db Server \<Rightarrow> unit reply \<times> 'db Server" where
  "finish_start listen out s =
     (case out of
        SPanic \<Rightarrow> (Panics nil_deref, s)
      | SErr x \<Rightarrow> (Fail x, s\<lparr>service := None\<rparr>)
      | SOk sv \<Rightarrow>
          if svBind sv \<noteq> []
          then (case StartConfigProxy listen sv of (x, sv) \<Rightarrow> (reply_of x, s\<lparr>service := Some sv\<rparr>))
          else (Reply (), s\<lparr>service := Some sv\<rparr>))"

definition Start ::
  "net_listen \<Rightarrow> ('m, 'rule, 'peer, 'ver, 'conf, 'opt, 'db) svc_env \<Rightarrow> string \<Rightarrow> 'db Server \<Rightarrow> unit reply \<times> 'db Server" where
  "Start listen Z root s =
     (if service s \<noteq> None then (Fail ErrServiceAlreadyStarted, s)
      else finish_start listen (map_svc_out stService (fst (Service_Start Z root (ConfigBindId (srvConfig s))))) s)"

text \<open>\<open>GetVersion\<close> of \<open>src/grpc/version.go\<close>; the version constants of the libraries and of the run time are the argument.\<close>

record version_consts =
  CurrentVersionNumber :: string
  CurrentCommit :: string
  fsrepo_RepoVersion :: int
  LibP2PVersion :: string
  ClientVersion :: string
  runtime_Version :: string
  GOARCH :: string
  GOOS :: string

record version_info =
  vHybridStreamProtocol :: string
  vIpfs :: string
  vIpfsRepo :: "32 word"
  vLibP2PProtocol :: string
  vGoLibP2P :: string
  vGolang :: string
  vSystem :: string

definition GetVersion :: "version_consts \<Rightarrow> version_info" where
  "GetVersion c =
     \<lparr>vHybridStreamProtocol = HybridIpfsProtocol,
      vIpfs = CurrentVersionNumber c @ ''-'' @ CurrentCommit c,
      vIpfsRepo = word_of_int (fsrepo_RepoVersion c),
      vLibP2PProtocol = LibP2PVersion c,
      vGoLibP2P = ClientVersion c,
      vGolang = runtime_Version c,
      vSystem = GOARCH c @ ''/'' @ GOOS c\<rparr>"

definition GetConfigTree :: "(string \<Rightarrow> string) \<Rightarrow> string + string \<Rightarrow> string \<Rightarrow> ConfigTree reply" where
  "GetConfigTree getenv cwd root = (case NewTree getenv cwd root of Inl e \<Rightarrow> Fail (ErrOf e) | Inr t \<Rightarrow> Reply t)"

definition Stop :: "'db Server \<Rightarrow> unit reply \<times> 'db Server" where
  "Stop s = (Reply (), case service s of None \<Rightarrow> s | Some sv \<Rightarrow> s\<lparr>service := Some (sv\<lparr>cancelled := True\<rparr>)\<rparr>)"

text \<open>A handler that needs a service and may change it.\<close>

definition with_service :: "srv_error \<Rightarrow> 'db Server \<Rightarrow> ('db Service \<Rightarrow> 'a reply \<times> 'db Service) \<Rightarrow> 'a reply \<times> 'db Server" where
  "with_service no s f =
     (case service s of None \<Rightarrow> (Fail no, s) | Some sv \<Rightarrow> (case f sv of (r, sv) \<Rightarrow> (r, s\<lparr>service := Some sv\<rparr>)))"

definition BindConfigProxy :: "net_listen \<Rightarrow> 'db Server \<Rightarrow> unit reply \<times> 'db Server" where
  "BindConfigProxy listen s = with_service ErrNoService s (\<lambda>sv. map_prod reply_of id (StartConfigProxy listen sv))"

definition UnbindConfigProxy :: "'db Server \<Rightarrow> unit reply \<times> 'db Server" where
  "UnbindConfigProxy s =
     (case service s of None \<Rightarrow> (Reply (), s)
      | Some sv \<Rightarrow> (case StopConfigProxy sv of (e, sv) \<Rightarrow> (reply_of e, s\<lparr>service := Some sv\<rparr>)))"

definition doBind :: "net_listen \<Rightarrow> string \<Rightarrow> string \<Rightarrow> 'db Server \<Rightarrow> u32 reply \<times> 'db Server" where
  "doBind listen network address s =
     (case service s of None \<Rightarrow> (Fail ErrNoService, s)
      | Some sv \<Rightarrow>
          (case listen network address of
             Inl e \<Rightarrow> (Fail (ErrOf e), s)
           | Inr ln \<Rightarrow>
               let seq = bindSeq s + 1
               in (Reply seq, s\<lparr>bindSeq := seq, service := Some (sv\<lparr>svListeners := StartProxy seq ln (svListeners sv)\<rparr>)\<rparr>)))"

text \<open>
  \<open>BindProxy\<close>, \<open>BindIpfsApi\<close> and \<open>BindIpfsGateway\<close> take the method of \<open>s.service.node\<close> before \<open>doBind\<close> looks
  whether there is a service.
\<close>

definition BindProxy :: "net_listen \<Rightarrow> string \<Rightarrow> string \<Rightarrow> 'db Server \<Rightarrow> u32 reply \<times> 'db Server" where
  "BindProxy listen network address s =
     (if service s = None then (Panics nil_deref, s) else doBind listen network address s)"

definition Unbind :: "u32 \<Rightarrow> 'db Server \<Rightarrow> unit reply \<times> 'db Server" where
  "Unbind i s = with_service ErrNoService s (\<lambda>sv. map_prod reply_of id (node_StopListener i sv))"

text \<open>\<open>abs\<close> is \<open>filepath.Abs(os.ExpandEnv(root))\<close>; the configuration tree of a running service is there.\<close>

definition IpfsRepoFsck ::
  "(string \<Rightarrow> string + string) \<Rightarrow> (string \<Rightarrow> string option) \<Rightarrow> string \<Rightarrow> 'db Server \<Rightarrow> unit reply \<times> 'db Server" where
  "IpfsRepoFsck abspath fsck root s =
     (case abspath root of Inl e \<Rightarrow> (Fail (ErrOf e), s)
      | Inr rootPath \<Rightarrow>
          (case service s of
             None \<Rightarrow> (Panics nil_deref, s)
           | Some sv \<Rightarrow>
               if rootPath = svConfigPath sv then (Fail ErrIpfsRepoLocked, s)
               else (case fsck rootPath of None \<Rightarrow> (Reply (), s) | Some e \<Rightarrow> (Fail (ErrOf e), s))))"

definition Backup :: "'db Server \<Rightarrow> unit reply \<times> 'db Server" where
  "Backup s = (Fail ErrNotImplememted, s)"

definition Restore :: "'db Server \<Rightarrow> unit reply \<times> 'db Server" where
  "Restore s = (Fail ErrNotImplememted, s)"

record AddVerifyKeyRequest =
  rqKey :: bytes
  rqTags :: "string list"
  rqDesc :: string
  LifeSeconds :: u32

record AddVerifyKeyReply =
  rpId :: u64
  rpCreatedAt :: "64 word"
  rpExpiresAt :: "64 word"

definition key_life :: "srv_config \<Rightarrow> u32 \<Rightarrow> u32" where
  "key_life c life =
     (let life = (if life > MaxVerifyKeyLife c then MaxVerifyKeyLife c else life)
      in if life < MinVerifyKeyLife c then MinVerifyKeyLife c else life)"

definition AddVerifyKey ::
  "('db, 'seq) ks_env \<Rightarrow> 64 word \<Rightarrow> AddVerifyKeyRequest \<Rightarrow> 'db Server \<Rightarrow> AddVerifyKeyReply reply \<times> 'db Server" where
  "AddVerifyKey E now req s =
     (let life = key_life (srvConfig s) (LifeSeconds req);
          ak = \<lparr>Id = 0, Key = rqKey req, Tags = rqTags req, Desc = rqDesc req, CreatedAt = now, ExpiresAt = now + ucast life\<rparr>
      in with_service ErrNoService s (\<lambda>sv.
           case Save E (verifyKeystore sv) ak of
             (Some e, ak, ks) \<Rightarrow> (Fail (ErrKeys e), sv\<lparr>verifyKeystore := ks\<rparr>)
           | (None, ak, ks) \<Rightarrow>
               (Reply \<lparr>rpId = Id ak, rpCreatedAt = CreatedAt ak, rpExpiresAt = ExpiresAt ak\<rparr>, sv\<lparr>verifyKeystore := ks\<rparr>)))"

text \<open>The reply carries the keys and the text of the error, empty for none.\<close>

definition GetVerifyKeys ::
  "('db, 'seq) ks_env \<Rightarrow> (ks_error \<Rightarrow> string) \<Rightarrow> u64 \<Rightarrow> u32 \<Rightarrow> bool \<Rightarrow> 'db Server \<Rightarrow> (AuthKey list \<times> string) reply \<times> 'db Server" where
  "GetVerifyKeys E text start sz reverse s =
     with_service ErrNoService s (\<lambda>sv.
       case Slice E (verifyKeystore sv) start (uint sz) reverse of
         (None, ks) \<Rightarrow> (Panics ''index out of range'', sv\<lparr>verifyKeystore := ks\<rparr>)
       | (Some (aks, e), ks) \<Rightarrow> (Reply (aks, case e of None \<Rightarrow> [] | Some e \<Rightarrow> text e), sv\<lparr>verifyKeystore := ks\<rparr>))"

definition FindVerifyKey :: "('db, 'seq) ks_env \<Rightarrow> u64 \<Rightarrow> 'db Server \<Rightarrow> AuthKey reply \<times> 'db Server" where
  "FindVerifyKey E i s =
     with_service ErrNoService s (\<lambda>sv.
       case Find E (verifyKeystore sv) i of
         (Inl e, ks) \<Rightarrow> (Fail (ErrKeys e), sv\<lparr>verifyKeystore := ks\<rparr>)
       | (Inr ak, ks) \<Rightarrow> (Reply ak, sv\<lparr>verifyKeystore := ks\<rparr>))"

definition DeleteVerifyKey :: "('db, 'seq) ks_env \<Rightarrow> u64 \<Rightarrow> 'db Server \<Rightarrow> unit reply \<times> 'db Server" where
  "DeleteVerifyKey E i s =
     with_service ErrNoService s (\<lambda>sv.
       case Delete E (verifyKeystore sv) i of
         (Some e, ks) \<Rightarrow> (Fail (ErrKeys e), sv\<lparr>verifyKeystore := ks\<rparr>)
       | (None, ks) \<Rightarrow> (Reply (), sv\<lparr>verifyKeystore := ks\<rparr>))"

section \<open>Without a service\<close>

text \<open>The repository version is reported without truncation when it is the one the migrations lead to.\<close>

lemma GetVersion_repo: "fsrepo_RepoVersion c = RepoVersion \<Longrightarrow> sint (vIpfsRepo (GetVersion c)) = RepoVersion"
  by (simp add: GetVersion_def RepoVersion_def migrations_len_def)

text \<open>
  Without a service the handlers of keys and of \<open>Unbind\<close> answer \<open>ErrNoService\<close> and change nothing, but those that bind
  a proxy and the repository check dereference the missing service and panic, before the test that would have answered
  \<open>ErrNoService\<close>.
\<close>

theorem handlers_without_service:
  assumes "service s = None"
  shows "AddVerifyKey E now req s = (Fail ErrNoService, s) \<and> FindVerifyKey E i s = (Fail ErrNoService, s) \<and>
    DeleteVerifyKey E i s = (Fail ErrNoService, s) \<and> GetVerifyKeys E text start sz reverse s = (Fail ErrNoService, s) \<and>
    Unbind b s = (Fail ErrNoService, s) \<and> BindConfigProxy listen s = (Fail ErrNoService, s) \<and> UnbindConfigProxy s = (Reply (), s) \<and>
    BindProxy listen network address s = (Panics nil_deref, s) \<and>
    (\<forall>p. abspath root = Inr p \<longrightarrow> IpfsRepoFsck abspath fsck root s = (Panics nil_deref, s))"
  using assms
  by (simp add: AddVerifyKey_def FindVerifyKey_def DeleteVerifyKey_def GetVerifyKeys_def Unbind_def BindConfigProxy_def
      UnbindConfigProxy_def BindProxy_def IpfsRepoFsck_def with_service_def Let_def)

definition example_server_config :: srv_config where
  "example_server_config = \<lparr>MinVerifyKeyLife = 10, MaxVerifyKeyLife = 100, BindSeqStart = 5, ConfigBindId = 5\<rparr>"

definition idle_server :: "mem_db Server" where
  "idle_server = \<lparr>srvConfig = example_server_config, service = None, bindSeq = 5\<rparr>"

theorem handlers_without_service_witness: "BindProxy (\<lambda>_ _. Inr 0) ''tcp'' '':0'' idle_server = (Panics nil_deref, idle_server)"
  using handlers_without_service[of idle_server "mem_env" 0 "undefined" 0 "\<lambda>_. []" 0 0 False 0 "\<lambda>_ _. Inr 0" "''tcp''" "'':0''"]
  by (simp add: idle_server_def)

section \<open>Lives of verification keys\<close>

lemma key_life_bounds:
  "MinVerifyKeyLife c \<le> MaxVerifyKeyLife c \<Longrightarrow>
    MinVerifyKeyLife c \<le> key_life c life \<and> key_life c life \<le> MaxVerifyKeyLife c \<and>
    (MinVerifyKeyLife c \<le> life \<and> life \<le> MaxVerifyKeyLife c \<longrightarrow> key_life c life = life)"
  by (auto simp: key_life_def Let_def)

text \<open>A successful \<open>AddVerifyKey\<close>, seen from the key store.\<close>

lemma AddVerifyKey_ok:
  assumes "AddVerifyKey E now req s = (Reply rp, s')"
  obtains sv ak ks where "service s = Some sv" "s' = s\<lparr>service := Some (sv\<lparr>verifyKeystore := ks\<rparr>)\<rparr>"
    "Save E (verifyKeystore sv) \<lparr>Id = 0, Key = rqKey req, Tags = rqTags req, Desc = rqDesc req, CreatedAt = now,
       ExpiresAt = now + ucast (key_life (srvConfig s) (LifeSeconds req))\<rparr> = (None, ak, ks)"
    "rp = \<lparr>rpId = Id ak, rpCreatedAt = CreatedAt ak, rpExpiresAt = ExpiresAt ak\<rparr>"
  using assms by (auto simp: AddVerifyKey_def with_service_def Let_def split: option.splits prod.splits)

definition srv_inv :: "('db, 'seq) ks_env \<Rightarrow> ('db, 'seq) ks_view \<Rightarrow> 'db Server \<Rightarrow> bool" where
  "srv_inv E V s \<longleftrightarrow> (\<forall>sv. service s = Some sv \<longrightarrow> ks_inv E V (verifyKeystore sv))"

text \<open>\<open>now + int64(life)\<close> does not overflow for a clock before the year 146 billion.\<close>

lemma expiry_no_overflow:
  fixes now :: "64 word" and life :: u32
  assumes "0 \<le> sint now" "sint now < 2 ^ 62"
  shows "sint (now + ucast life) = sint now + uint life"
proof -
  have l: "uint life < 2 ^ 32" using uint_bounded[of life] by simp
  have "- (2 ^ 63) \<le> uint life" using uint_nonnegative[of life] by (rule order_trans[rotated]) simp
  then have "signed_take_bit 63 (uint life) = uint life" using l by (intro signed_take_bit_int_eq_self) simp_all
  then have u: "sint (ucast life :: 64 word) = uint life" by (simp add: signed_ucast_eq)
  have "0 \<le> sint now + uint life" using assms(1) uint_nonnegative[of life] by simp
  then have "- (2 ^ 63) \<le> sint now + uint life" by (rule order_trans[rotated]) simp
  moreover have "sint now + uint life < 2 ^ 63" using assms l by simp
  ultimately have "signed_take_bit 63 (sint now + uint life) = sint now + uint life" by (rule signed_take_bit_int_eq_self)
  then show ?thesis by (simp add: sint_word_add u)
qed

text \<open>
  C28: when the configuration sets the bounds, the reply of \<open>AddVerifyKey\<close> gives the key a life between them: the one asked for when
  it lies between them, else the nearer bound; without overflow for any realistic clock. (Bounds of 0, for which the
  callers expect default values that nothing applies, are not covered; see \<open>main_key_life\<close> of theory \<open>Commands\<close>.)
\<close>

theorem AddVerifyKey_life:
  assumes ns: "NewServer c = Inr s0" and set: "0 < MinVerifyKeyLife c" and c: "srvConfig s = c"
    and add: "AddVerifyKey E now req s = (Reply rp, s')" and E: "env_ok E V" and inv: "srv_inv E V s"
    and now: "0 \<le> sint now" "sint now < 2 ^ 62"
  shows "rpCreatedAt rp = now \<and>
    sint (rpExpiresAt rp) - sint now = uint (max (MinVerifyKeyLife c) (min (MaxVerifyKeyLife c) (LifeSeconds req))) \<and>
    uint (MinVerifyKeyLife c) \<le> sint (rpExpiresAt rp) - sint now \<and> sint (rpExpiresAt rp) - sint now \<le> uint (MaxVerifyKeyLife c)"
proof -
  obtain sv ak ks where sv: "service s = Some sv"
    "Save E (verifyKeystore sv) \<lparr>Id = 0, Key = rqKey req, Tags = rqTags req, Desc = rqDesc req, CreatedAt = now,
       ExpiresAt = now + ucast (key_life (srvConfig s) (LifeSeconds req))\<rparr> = (None, ak, ks)"
    "rp = \<lparr>rpId = Id ak, rpCreatedAt = CreatedAt ak, rpExpiresAt = ExpiresAt ak\<rparr>"
    by (rule AddVerifyKey_ok[OF add])
  have ks: "ks_inv E V (verifyKeystore sv)" using inv sv(1) by (simp add: srv_inv_def)
  have ak: "CreatedAt ak = now" "ExpiresAt ak = now + ucast (key_life c (LifeSeconds req))"
    using Save_ok(3)[OF E ks sv(2)] c by (simp_all add: AuthKey.defs) (metis AuthKey.select_convs AuthKey.update_convs(1))+
  have mm: "MinVerifyKeyLife c \<le> MaxVerifyKeyLife c" using ns by (auto simp: NewServer_def split: if_splits)
  then have kl: "key_life c (LifeSeconds req) = max (MinVerifyKeyLife c) (min (MaxVerifyKeyLife c) (LifeSeconds req))"
    by (auto simp: key_life_def Let_def max_def min_def)
  have "sint (rpExpiresAt rp) = sint now + uint (key_life c (LifeSeconds req))"
    using expiry_no_overflow[OF now] sv(3) ak(2) by simp
  with kl key_life_bounds[OF mm, of "LifeSeconds req"] sv(3) ak(1) show ?thesis by (simp add: word_le_def)
qed

definition example_server :: "mem_db Server" where
  "example_server = \<lparr>srvConfig = example_server_config, service = Some \<lparr>svBind = [], svConfigPath = ''/r/hybrid.json'',
     svListeners = no_listeners, svConfigBindId = 5, verifyKeystore = setSecure nonCrypto example_store, cancelled = False\<rparr>, bindSeq = 5\<rparr>"

definition example_request :: AddVerifyKeyRequest where
  "example_request = \<lparr>rqKey = [7], rqTags = [], rqDesc = [], LifeSeconds = 1000\<rparr>"

lemma example_server_inv: "srv_inv mem_env mem_view example_server"
  by (simp add: srv_inv_def example_server_def example_inv)

lemma example_Add: "fst (AddVerifyKey mem_env 0 example_request example_server) = Reply \<lparr>rpId = 1, rpCreatedAt = 0, rpExpiresAt = 100\<rparr>"
  by code_simp

theorem AddVerifyKey_life_witness:
  "fst (AddVerifyKey mem_env 0 example_request example_server) = Reply \<lparr>rpId = 1, rpCreatedAt = 0, rpExpiresAt = 100\<rparr> \<and>
   uint (MinVerifyKeyLife example_server_config) \<le> 100 \<and> (100::int) \<le> uint (MaxVerifyKeyLife example_server_config)"
proof -
  have ns: "NewServer example_server_config = Inr (idle_server :: mem_db Server)"
    by (simp add: NewServer_def example_server_config_def idle_server_def)
  have a: "AddVerifyKey mem_env 0 example_request example_server =
      (Reply \<lparr>rpId = 1, rpCreatedAt = 0, rpExpiresAt = 100\<rparr>, snd (AddVerifyKey mem_env 0 example_request example_server))"
    using example_Add by (metis prod.collapse)
  show ?thesis
    using AddVerifyKey_life[OF ns _ _ a mem_env_ok example_server_inv] example_Add by (simp add: example_server_def example_server_config_def)
qed

text \<open>
  C27: a key that was added is found under the id of the reply, with the data of the request; after it was
  deleted it is not found any more, and no other key has changed.
\<close>

theorem verify_key_lifecycle:
  assumes E: "env_ok E V" and inv: "srv_inv E V s" and add: "AddVerifyKey E now req s = (Reply rp, s1)"
    and del: "DeleteVerifyKey E (rpId rp) s1 = (Reply (), s2)"
  shows "(\<exists>ak. fst (FindVerifyKey E (rpId rp) s1) = Reply ak \<and> Id ak = rpId rp \<and> Key ak = rqKey req \<and> Tags ak = rqTags req \<and>
      Desc ak = rqDesc req \<and> CreatedAt ak = rpCreatedAt rp \<and> ExpiresAt ak = rpExpiresAt rp) \<and>
    fst (FindVerifyKey E (rpId rp) s2) = Fail (ErrKeys ErrKeyNotFound) \<and>
    (\<forall>j. j \<noteq> rpId rp \<longrightarrow> fst (FindVerifyKey E j s2) = fst (FindVerifyKey E j s1) \<and>
      fst (FindVerifyKey E j s1) = fst (FindVerifyKey E j s)) \<and> srv_inv E V s2"
proof -
  obtain sv ak ks where sv: "service s = Some sv" "s1 = s\<lparr>service := Some (sv\<lparr>verifyKeystore := ks\<rparr>)\<rparr>"
    "Save E (verifyKeystore sv) \<lparr>Id = 0, Key = rqKey req, Tags = rqTags req, Desc = rqDesc req, CreatedAt = now,
       ExpiresAt = now + ucast (key_life (srvConfig s) (LifeSeconds req))\<rparr> = (None, ak, ks)"
    "rp = \<lparr>rpId = Id ak, rpCreatedAt = CreatedAt ak, rpExpiresAt = ExpiresAt ak\<rparr>"
    by (rule AddVerifyKey_ok[OF add])
  have k0: "ks_inv E V (verifyKeystore sv)" using inv sv(1) by (simp add: srv_inv_def)
  note k = Save_ok[OF E k0 sv(3)]
  have ak: "Key ak = rqKey req" "Tags ak = rqTags req" "Desc ak = rqDesc req"
    using k(3) by (metis AuthKey.select_convs AuthKey.update_convs(1))+
  obtain ks2 where d: "Delete E ks (Id ak) = (None, ks2)" "s2 = s1\<lparr>service := Some (sv\<lparr>verifyKeystore := ks2\<rparr>)\<rparr>"
    using del sv(2,4) by (auto simp: DeleteVerifyKey_def with_service_def split: option.splits prod.splits)
  have "refines E V ks (OpDelete (Id ak)) ODone ks2" using Delete_refines[OF E k(1) d(1)] by (simp add: err_out_def)
  then have k2: "ks_inv E V ks2" "vault_step (ks_abs E V ks) (OpDelete (Id ak)) ODone (ks_abs E V ks2)" by (simp_all add: refines_def)
  from k2(2) have a2: "abs_keys E V ks2 = (abs_keys E V ks)(Id ak := None)" by cases (simp add: abs_keys_conv[symmetric])
  have fnd: "fst (FindVerifyKey E j t) = (case fst (Find E x j) of Inl e \<Rightarrow> Fail (ErrKeys e) | Inr ak \<Rightarrow> Reply ak)"
    if "service t = Some y" "verifyKeystore y = x" for j t x y
    using that by (auto simp: FindVerifyKey_def with_service_def split: prod.splits sum.splits)
  show ?thesis
    using k(2,4) a2 ak sv(1,2,4) d(2) k2(1)
    by (auto simp: fnd Find_value[OF E k(1)] Find_value[OF E k2(1)] Find_value[OF E k0] srv_inv_def)
qed

theorem verify_key_lifecycle_witness:
  "fst (FindVerifyKey mem_env 1 (snd (DeleteVerifyKey mem_env 1 (snd (AddVerifyKey mem_env 0 example_request example_server)))))
     = Fail (ErrKeys ErrKeyNotFound)"
proof -
  let ?s1 = "snd (AddVerifyKey mem_env 0 example_request example_server)"
  have a: "AddVerifyKey mem_env 0 example_request example_server = (Reply \<lparr>rpId = 1, rpCreatedAt = 0, rpExpiresAt = 100\<rparr>, ?s1)"
    using example_Add by (metis prod.collapse)
  have "fst (DeleteVerifyKey mem_env 1 ?s1) = Reply ()" by code_simp
  then have d: "DeleteVerifyKey mem_env (rpId \<lparr>rpId = 1, rpCreatedAt = 0, rpExpiresAt = 100\<rparr>) ?s1 =
      (Reply (), snd (DeleteVerifyKey mem_env 1 ?s1))" by (metis prod.collapse AddVerifyKeyReply.select_convs(1))
  show ?thesis using verify_key_lifecycle[OF mem_env_ok example_server_inv a d] by simp
qed

section \<open>Ids of bound listeners\<close>

text \<open>
  Runs of the server, with the ids its bind calls returned, in order. A start may have any outcome.
\<close>

inductive srv_run :: "('db, 'seq) ks_env \<Rightarrow> 'db Server \<Rightarrow> u32 list \<Rightarrow> 'db Server \<Rightarrow> bool" for E s0 where
  init: "srv_run E s0 [] s0"
| bind: "srv_run E s0 ids s \<Longrightarrow> BindProxy listen network address s = (Reply i, s') \<Longrightarrow> srv_run E s0 (ids @ [i]) s'"
| bind_failed: "srv_run E s0 ids s \<Longrightarrow> BindProxy listen network address s = (Fail e, s') \<Longrightarrow> srv_run E s0 ids s'"
| start: "srv_run E s0 ids s \<Longrightarrow> service s = None \<Longrightarrow> srv_run E s0 ids (snd (finish_start listen out s))"
| stop: "srv_run E s0 ids s \<Longrightarrow> srv_run E s0 ids (snd (Stop s))"
| stopped: "srv_run E s0 ids s \<Longrightarrow> srv_run E s0 ids (s\<lparr>service := None\<rparr>)"
| bind_config: "srv_run E s0 ids s \<Longrightarrow> srv_run E s0 ids (snd (BindConfigProxy listen s))"
| unbind_config: "srv_run E s0 ids s \<Longrightarrow> srv_run E s0 ids (snd (UnbindConfigProxy s))"
| unbind: "srv_run E s0 ids s \<Longrightarrow> srv_run E s0 ids (snd (Unbind b s))"
| add_key: "srv_run E s0 ids s \<Longrightarrow> srv_run E s0 ids (snd (AddVerifyKey E now req s))"
| get_keys: "srv_run E s0 ids s \<Longrightarrow> srv_run E s0 ids (snd (GetVerifyKeys E text start sz reverse s))"
| find_key: "srv_run E s0 ids s \<Longrightarrow> srv_run E s0 ids (snd (FindVerifyKey E k s))"
| delete_key: "srv_run E s0 ids s \<Longrightarrow> srv_run E s0 ids (snd (DeleteVerifyKey E k s))"

lemma with_service_keeps: "bindSeq (snd (with_service no s f)) = bindSeq s" "srvConfig (snd (with_service no s f)) = srvConfig s"
  by (auto simp: with_service_def split: option.splits prod.splits)

lemma handlers_keep_bindSeq:
  "bindSeq (snd (finish_start listen out s)) = bindSeq s" "bindSeq (snd (Stop s)) = bindSeq s"
  "bindSeq (snd (BindConfigProxy listen s)) = bindSeq s" "bindSeq (snd (UnbindConfigProxy s)) = bindSeq s"
  "bindSeq (snd (Unbind b s)) = bindSeq s" "bindSeq (snd (AddVerifyKey E now req s)) = bindSeq s"
  "bindSeq (snd (GetVerifyKeys E text start sz reverse s)) = bindSeq s" "bindSeq (snd (FindVerifyKey E k s)) = bindSeq s"
  "bindSeq (snd (DeleteVerifyKey E k s)) = bindSeq s"
  by (simp_all add: BindConfigProxy_def Unbind_def AddVerifyKey_def GetVerifyKeys_def FindVerifyKey_def DeleteVerifyKey_def
      with_service_keeps Let_def)
    (auto simp: finish_start_def Stop_def UnbindConfigProxy_def split: option.splits svc_out.splits prod.splits)

lemma BindProxy_ids:
  "BindProxy listen network address s = (Reply i, s') \<Longrightarrow> i = bindSeq s + 1 \<and> bindSeq s' = bindSeq s + 1"
  "BindProxy listen network address s = (Fail e, s') \<Longrightarrow> bindSeq s' = bindSeq s"
  by (auto simp: BindProxy_def doBind_def Let_def split: option.splits sum.splits if_splits)

lemma srv_run_ids:
  "srv_run E s0 ids s \<Longrightarrow> ids = map (\<lambda>k. bindSeq s0 + of_nat (Suc k)) [0..<length ids] \<and> bindSeq s = bindSeq s0 + of_nat (length ids)"
proof (induction rule: srv_run.induct)
  case (bind ids s listen network address i s')
  note b = BindProxy_ids(1)[OF bind.hyps(2)]
  have "ids @ [i] = map (\<lambda>k. bindSeq s0 + of_nat (Suc k)) [0..<length ids] @ [bindSeq s0 + of_nat (Suc (length ids))]"
    using bind.IH b by (simp add: add.commute add.left_commute)
  with bind.IH b show ?case by (simp add: add.commute add.left_commute)
qed (simp_all add: handlers_keep_bindSeq BindProxy_ids)

text \<open>
  C29: the ids returned for bound listeners count up from \<open>BindSeqStart\<close>, wrapping at 32 bits; until they wrap they are all
  different and none is the id of the configured proxy, so that bound listeners never share an id.
\<close>

theorem bind_ids_unique:
  assumes ns: "NewServer c = Inr s0" and run: "srv_run E s0 ids s"
  shows "(\<forall>k < length ids. ids ! k = BindSeqStart c + of_nat (Suc k)) \<and>
    (unat (BindSeqStart c) + length ids < 2 ^ 32 \<longrightarrow> distinct ids \<and> ConfigBindId c \<notin> set ids)"
proof -
  have c: "bindSeq s0 = BindSeqStart c" "ConfigBindId c \<le> BindSeqStart c" using ns by (auto simp: NewServer_def split: if_splits)
  note ids = conjunct1[OF srv_run_ids[OF run], unfolded c(1)]
  have nth: "ids ! k = BindSeqStart c + of_nat (Suc k)" if "k < length ids" for k
    by (subst ids) (use that in simp)
  have v: "unat (ids ! k) = unat (BindSeqStart c) + Suc k" if "k < length ids" "unat (BindSeqStart c) + length ids < 2 ^ 32" for k
  proof -
    have "unat (of_nat (Suc k) :: u32) = Suc k" using that by (simp add: unat_of_nat del: of_nat_Suc)
    then show ?thesis using that nth[OF that(1)] by (simp add: unat_word_ariths)
  qed
  have "distinct ids" if "unat (BindSeqStart c) + length ids < 2 ^ 32"
    unfolding distinct_conv_nth using v[OF _ that] by (metis add_left_cancel nat.inject)
  moreover have "ConfigBindId c \<notin> set ids" if "unat (BindSeqStart c) + length ids < 2 ^ 32"
  proof
    assume "ConfigBindId c \<in> set ids"
    then obtain k where k: "k < length ids" "ids ! k = ConfigBindId c" by (auto simp: in_set_conv_nth)
    with v[OF k(1) that] c(2) show False by (simp add: word_le_nat_alt)
  qed
  ultimately show ?thesis using nth by blast
qed

theorem bind_ids_unique_witness:
  "\<exists>s. srv_run mem_env idle_server [6] s \<and> distinct [6 :: u32] \<and> ConfigBindId example_server_config \<notin> set [6]"
proof -
  have ns: "NewServer example_server_config = Inr idle_server" by (simp add: NewServer_def example_server_config_def idle_server_def)
  obtain st evs where st: "Service_Start example_service [] 5 = (SOk st, evs)" using example_service_starts by blast
  let ?s = "snd (Start (\<lambda>_ _. Inr 0) example_service [] idle_server)"
  have r0: "srv_run mem_env idle_server [] ?s"
    by (simp add: Start_def idle_server_def) (rule srv_run.start[OF srv_run.init], simp)
  have s: "service ?s \<noteq> None" "bindSeq ?s = 5"
    using st by (auto simp: Start_def finish_start_def idle_server_def example_server_config_def split: prod.splits)
  then obtain s' where "BindProxy (\<lambda>_ _. Inr 0) [] [] ?s = (Reply 6, s')"
    by (auto simp: BindProxy_def doBind_def Let_def split: option.splits)
  then have r: "srv_run mem_env idle_server ([] @ [6]) s'" by (rule srv_run.bind[OF r0])
  with bind_ids_unique[OF ns r] show ?thesis by (auto simp: example_server_config_def)
qed

end
