(* ===== verification/Auth.thy ===== *)
theory Auth
  imports KeystoreSpec
begin

text \<open>
  Tokens that let a peer in: \<open>src/pkg/auth/issue.go\<close> and \<open>src/pkg/auth/verify.go\<close>, the verifier of
  \<open>src/grpc/verify.go\<close> on top of the key store, and the base64 and hexadecimal encodings they use.

  The JOSE library (signing, parsing and validating tokens) is third-party code, a parameter (\<open>jose\<close>); \<open>jose_ok\<close>
  says that parsing gives back what was signed. The current time is an argument.
\<close>

section \<open>Encodings\<close>

text \<open>\<open>base64.RawURLEncoding\<close>: three bytes give four characters, a rest of one or two bytes two or three, no padding.\<close>

definition b64_alphabet :: string where
  "b64_alphabet = ''ABCDEFGHIJKLMNOPQRSTUVWXYZabcdefghijklmnopqrstuvwxyz0123456789-_''"

definition b64_char :: "nat \<Rightarrow> char" where
  "b64_char n = b64_alphabet ! n"

fun b64_encode :: "nat list \<Rightarrow> string" where
  "b64_encode [] = []"
| "b64_encode [a] = [b64_char (a div 4), b64_char (a mod 4 * 16)]"
| "b64_encode [a, b] = [b64_char (a div 4), b64_char (a mod 4 * 16 + b div 16), b64_char (b mod 16 * 4)]"
| "b64_encode (a # b # c # r) =
     [b64_char (a div 4), b64_char (a mod 4 * 16 + b div 16), b64_char (b mod 16 * 4 + c div 64), b64_char (c mod 64)]
     @ b64_encode r"

definition RawURL_EncodeToString :: "bytes \<Rightarrow> string" where
  "RawURL_EncodeToString b = b64_encode (map unat b)"

text \<open>
  Decoding skips line ends, fails on any other character outside the alphabet and on a rest of one
  character, and ignores the unused bits of the last character.
\<close>

fun b64_decode :: "nat list \<Rightarrow> nat list option" where
  "b64_decode [] = Some []"
| "b64_decode [x] = None"
| "b64_decode [x, y] = Some [x * 4 + y div 16]"
| "b64_decode [x, y, z] = Some [x * 4 + y div 16, y mod 16 * 16 + z div 4]"
| "b64_decode (x # y # z # w # r) =
     map_option (\<lambda>l. (x * 4 + y div 16) # (y mod 16 * 16 + z div 4) # (z mod 4 * 64 + w) # l) (b64_decode r)"

definition RawURL_DecodeString :: "string \<Rightarrow> bytes option" where
  "RawURL_DecodeString s =
     (let digits = map (IndexByte b64_alphabet) (filter (\<lambda>c. c \<noteq> CHR 0x0A \<and> c \<noteq> CHR 0x0D) s)
      in if None \<in> set digits then None else map_option (map of_nat) (b64_decode (map the digits)))"

text \<open>\<open>hex.EncodeToString\<close>.\<close>

definition hex_char :: "nat \<Rightarrow> char" where
  "hex_char n = ''0123456789abcdef'' ! n"

definition hex_EncodeToString :: "bytes \<Rightarrow> string" where
  "hex_EncodeToString b = concat (map (\<lambda>x. [hex_char (unat x div 16), hex_char (unat x mod 16)]) b)"

text \<open>The conversion \<open>string(b)\<close> of a byte slice.\<close>

definition bytes_string :: "bytes \<Rightarrow> string" where
  "bytes_string b = map (\<lambda>x. char_of (unat x)) b"

section \<open>Issuing\<close>

datatype auth_error =
    ErrKeyAlgo | ErrBase64 | ErrStore ks_error | ErrRead | ErrJose string

text \<open>
  \<open>NonceSource\<close>: the reader \<open>Rand\<close> is the bytes it will still give. \<open>Nonce\<close> returns None when \<open>make\<close> panics on a
  negative length, else the nonce (or the error of \<open>io.ReadFull\<close> on a short read) and the reader afterwards.
\<close>

record NonceSource =
  Len :: int
  Rand :: bytes

definition Nonce :: "NonceSource \<Rightarrow> ((auth_error + string) \<times> NonceSource) option" where
  "Nonce ns =
     (if Len ns < 0 then None
      else if length (Rand ns) < nat (Len ns) then Some (Inl ErrRead, ns\<lparr>Rand := []\<rparr>)
      else Some (Inr (hex_EncodeToString (take (nat (Len ns)) (Rand ns))), ns\<lparr>Rand := drop (nat (Len ns)) (Rand ns)\<rparr>))"

record Claims =
  cIssuer :: string
  cSubject :: string
  cAudience :: "string list"
  cExpiry :: "64 word"
  cNotBefore :: "64 word"
  cIssuedAt :: "64 word"
  cID :: string

record Signer =
  KeyID :: bytes
  sKey :: bytes
  sNonceSource :: NonceSource
  sSubject :: string
  sIssuer :: string
  sExpires :: "64 word"

record 'signer Issuer =
  iSigner :: 'signer
  iExpires :: "64 word"
  iSubject :: string
  iIssuer :: string

record jose_header =
  hAlgorithm :: string
  hKeyID :: string

text \<open>
  The JOSE library as the program calls it: \<open>NewSigner\<close> with algorithm, key id, private key, nonce source and the
  type header; \<open>Sign\<close> for \<open>jwt.Signed(signer).Claims(c).CompactSerialize()\<close>; \<open>ParseSigned\<close>; the headers of a
  token; its claims once the signature is checked with a public key; and \<open>Validate\<close> against an audience and a time.
\<close>

record ('signer, 'tok) jose =
  NewSigner :: "string \<Rightarrow> string \<Rightarrow> bytes \<Rightarrow> NonceSource \<Rightarrow> string \<Rightarrow> auth_error + 'signer"
  Sign :: "'signer \<Rightarrow> Claims \<Rightarrow> auth_error + string"
  ParseSigned :: "string \<Rightarrow> auth_error + 'tok"
  Headers :: "'tok \<Rightarrow> jose_header list"
  TokClaims :: "'tok \<Rightarrow> bytes \<Rightarrow> auth_error + Claims"
  Validate :: "Claims \<Rightarrow> string list \<Rightarrow> 64 word \<Rightarrow> auth_error option"

definition EdDSA :: string where
  "EdDSA = ''EdDSA''"

text \<open>\<open>s.Expires / time.Second\<close>: Go's division of signed integers truncates towards zero.\<close>

definition seconds :: "64 word \<Rightarrow> 64 word" where
  "seconds d = word_of_int (sgn (sint d) * (\<bar>sint d\<bar> div 1000000000))"

definition NewIssuer :: "('signer, 'tok) jose \<Rightarrow> Signer \<Rightarrow> auth_error + 'signer Issuer" where
  "NewIssuer J s =
     rbind (NewSigner J EdDSA (RawURL_EncodeToString (KeyID s)) (sKey s) (sNonceSource s) ''JWT'')
       (\<lambda>signer. Inr \<lparr>iSigner = signer, iExpires = seconds (sExpires s), iSubject = sSubject s, iIssuer = sIssuer s\<rparr>)"

text \<open>\<open>Issue\<close> fills in the caller's claims, so it returns them with the token; the sum of two dates wraps.\<close>

definition issue_claims :: "'signer Issuer \<Rightarrow> 64 word \<Rightarrow> Claims \<Rightarrow> Claims" where
  "issue_claims i now c =
     c\<lparr>cSubject := iSubject i, cIssuer := iIssuer i, cIssuedAt := now, cExpiry := now + iExpires i\<rparr>"

definition Issue :: "('signer, 'tok) jose \<Rightarrow> 64 word \<Rightarrow> 'signer Issuer \<Rightarrow> Claims \<Rightarrow> (auth_error + string) \<times> Claims" where
  "Issue J now i c = (Sign J (iSigner i) (issue_claims i now c), issue_claims i now c)"

definition KeyIDFromUint64 :: "u64 \<Rightarrow> bytes" where
  "KeyIDFromUint64 i = PutUint64 i"

section \<open>Verifying\<close>

text \<open>
  \<open>GetKeyFunc.Verify\<close>: the claims (if it got as far as reading them), the error, and the state of the key
  function; \<open>None\<close> is the panic of \<open>tok.Headers[0]\<close> on a token without headers.
\<close>

type_synonym verdict = "Claims option \<times> auth_error option"

definition Verify ::
  "('signer, 'tok) jose \<Rightarrow> ('s \<Rightarrow> bytes \<Rightarrow> (auth_error + bytes) \<times> 's) \<Rightarrow> 64 word \<Rightarrow> 's \<Rightarrow> bytes \<Rightarrow> bytes \<Rightarrow> verdict option \<times> 's" where
  "Verify J getKey now s peer raw =
     (case ParseSigned J (bytes_string raw) of
        Inl e \<Rightarrow> (Some (None, Some e), s)
      | Inr tok \<Rightarrow>
          (case Headers J tok of
             [] \<Rightarrow> (None, s)
           | header # _ \<Rightarrow>
               if hAlgorithm header \<noteq> EdDSA then (Some (None, Some ErrKeyAlgo), s)
               else (case RawURL_DecodeString (hKeyID header) of
                       None \<Rightarrow> (Some (None, Some ErrBase64), s)
                     | Some keyid \<Rightarrow>
                         (case getKey s keyid of
                            (Inl e, s) \<Rightarrow> (Some (None, Some e), s)
                          | (Inr key, s) \<Rightarrow>
                              (case TokClaims J tok key of
                                 Inl e \<Rightarrow> (Some (None, Some e), s)
                               | Inr claims \<Rightarrow> (Some (Some claims, Validate J claims [bytes_string peer] now), s))))))"

text \<open>\<open>NewVerifier\<close> takes the store's \<open>GetKey\<close> as the key function; \<open>HybridVerify\<close> keeps only success.\<close>

definition NewVerifier :: "('db, 'seq) ks_env \<Rightarrow> 64 word \<Rightarrow> 'db KeyStore \<Rightarrow> bytes \<Rightarrow> (auth_error + bytes) \<times> 'db KeyStore" where
  "NewVerifier E now s keyid = (case GetKey E now s keyid of (Inl e, s) \<Rightarrow> (Inl (ErrStore e), s) | (Inr k, s) \<Rightarrow> (Inr k, s))"

definition HybridVerify ::
  "('signer, 'tok) jose \<Rightarrow> ('db, 'seq) ks_env \<Rightarrow> 64 word \<Rightarrow> 'db KeyStore \<Rightarrow> bytes \<Rightarrow> bytes \<Rightarrow> bool option \<times> 'db KeyStore" where
  "HybridVerify J E now s peerID token =
     map_prod (map_option (\<lambda>v. snd v = None)) id (Verify J (NewVerifier E now) now s peerID token)"

section \<open>Round trips of the encodings\<close>

lemma b64_index: "n < 64 \<Longrightarrow> IndexByte b64_alphabet (b64_char n) = Some n"
proof -
  have "\<forall>n \<in> set [0..<64]. IndexByte b64_alphabet (b64_char n) = Some n" by code_simp
  then show "n < 64 \<Longrightarrow> IndexByte b64_alphabet (b64_char n) = Some n" by simp
qed

lemma b64_char_printable: "n < 64 \<Longrightarrow> b64_char n \<noteq> CHR 0x0A \<and> b64_char n \<noteq> CHR 0x0D"
proof -
  have "\<forall>n \<in> set [0..<64]. b64_char n \<noteq> CHR 0x0A \<and> b64_char n \<noteq> CHR 0x0D" by code_simp
  then show "n < 64 \<Longrightarrow> b64_char n \<noteq> CHR 0x0A \<and> b64_char n \<noteq> CHR 0x0D" by simp
qed

text \<open>The six-bit digits of an encoding; decoding them gives the bytes back.\<close>

fun b64_digits :: "nat list \<Rightarrow> nat list" where
  "b64_digits [] = []"
| "b64_digits [a] = [a div 4, a mod 4 * 16]"
| "b64_digits [a, b] = [a div 4, a mod 4 * 16 + b div 16, b mod 16 * 4]"
| "b64_digits (a # b # c # r) =
     [a div 4, a mod 4 * 16 + b div 16, b mod 16 * 4 + c div 64, c mod 64] @ b64_digits r"

lemma b64_encode_digits: "b64_encode l = map b64_char (b64_digits l)"
  by (induction l rule: b64_encode.induct) simp_all

lemma b64_parts:
  fixes a b c :: nat
  assumes "b < 256" "c < 256"
  shows "a mod 4 * 16 + b div 16 < 64" "b mod 16 * 4 + c div 64 < 64"
    "a div 4 * 4 + (a mod 4 * 16 + b div 16) div 16 = a"
    "(a mod 4 * 16 + b div 16) mod 16 * 16 + (b mod 16 * 4 + c div 64) div 4 = b"
    "(b mod 16 * 4 + c div 64) mod 4 * 64 + c mod 64 = c"
proof -
  have d: "b div 16 < 16" "c div 64 < 4" "a mod 4 \<le> 3" "b mod 16 \<le> 15" using assms by (simp_all add: less_mult_imp_div_less)
  then show "a mod 4 * 16 + b div 16 < 64" "b mod 16 * 4 + c div 64 < 64" by linarith+
  have "(a mod 4 * 16 + b div 16) div 16 = a mod 4" "(a mod 4 * 16 + b div 16) mod 16 = b div 16"
    "(b mod 16 * 4 + c div 64) div 4 = b mod 16" "(b mod 16 * 4 + c div 64) mod 4 = c div 64"
    using d by simp_all
  then show "a div 4 * 4 + (a mod 4 * 16 + b div 16) div 16 = a"
    "(a mod 4 * 16 + b div 16) mod 16 * 16 + (b mod 16 * 4 + c div 64) div 4 = b"
    "(b mod 16 * 4 + c div 64) mod 4 * 64 + c mod 64 = c"
    by (simp_all add: div_mult_mod_eq)
qed

lemma b64_digits_bound: "\<forall>x \<in> set l. x < 256 \<Longrightarrow> \<forall>d \<in> set (b64_digits l). d < 64"
proof (induction l rule: b64_digits.induct)
  case (4 a b c r)
  then show ?case using b64_parts(1,3,4)[of b c a] b64_parts(2,5)[of b c] by (simp add: less_mult_imp_div_less)
next
  case (3 a b)
  then show ?case using b64_parts(1,3,4)[of b 0 a] b64_parts(2,5)[of b 0] by (simp add: less_mult_imp_div_less)
next
  case (2 a)
  then show ?case using b64_parts(1,3,4)[of 0 0 a] b64_parts(2,5)[of 0 0] by (simp add: less_mult_imp_div_less)
qed simp

lemma b64_decode_digits: "\<forall>x \<in> set l. x < 256 \<Longrightarrow> b64_decode (b64_digits l) = Some l"
proof (induction l rule: b64_digits.induct)
  case (4 a b c r)
  then show ?case using b64_parts(1,3,4)[of b c a] b64_parts(2,5)[of b c] by simp
next
  case (3 a b)
  then show ?case using b64_parts(1,3,4)[of b 0 a] b64_parts(2,5)[of b 0] by simp
next
  case (2 a)
  then show ?case using b64_parts(1,3,4)[of 0 0 a] b64_parts(2,5)[of 0 0] by simp
qed simp

lemma RawURL_roundtrip [simp]: "RawURL_DecodeString (RawURL_EncodeToString b) = Some b"
proof -
  let ?l = "map unat b"
  have l: "\<forall>x \<in> set ?l. x < 256" using unsigned_less[of "x :: byte" for x] by fastforce
  note bound = b64_digits_bound[OF l]
  have "filter (\<lambda>c. c \<noteq> CHR 0x0A \<and> c \<noteq> CHR 0x0D) (b64_encode ?l) = b64_encode ?l"
    using bound b64_char_printable by (auto simp: b64_encode_digits intro!: filter_True)
  moreover have "map (IndexByte b64_alphabet) (b64_encode ?l) = map Some (b64_digits ?l)"
    using bound b64_index by (simp add: b64_encode_digits)
  ultimately show ?thesis
    using b64_decode_digits[OF l] by (simp add: RawURL_DecodeString_def RawURL_EncodeToString_def Let_def comp_def image_iff)
qed

section \<open>Properties\<close>

text \<open>Parsing gives back what was signed, for the holder of the public key.\<close>

definition jose_ok :: "('signer, 'tok) jose \<Rightarrow> (bytes \<Rightarrow> bytes) \<Rightarrow> bool" where
  "jose_ok J pub \<longleftrightarrow>
     (\<forall>kid key ns sg cl raw. NewSigner J EdDSA kid key ns ''JWT'' = Inr sg \<longrightarrow> Sign J sg cl = Inr raw \<longrightarrow>
        (\<exists>tok h hs. ParseSigned J raw = Inr tok \<and> Headers J tok = h # hs \<and> hAlgorithm h = EdDSA \<and> hKeyID h = kid \<and>
           TokClaims J tok (pub key) = Inr cl))"

lemma GetKey_value:
  assumes "env_ok E V" "ks_inv E V s"
  shows "fst (GetKey E now s keyid) = (if length keyid \<noteq> 8 \<or> Uint64 keyid = 0 then Inl ErrInvalidKeyID
    else case abs_keys E V s (Uint64 keyid) of None \<Rightarrow> Inl ErrKeyNotFound
      | Some ak \<Rightarrow> if sint now < sint (ExpiresAt ak) then Inl ErrKeyExpired else Inr (Key ak))"
  using Find_value[OF assms, of "Uint64 keyid"]
  by (cases "Find E s (Uint64 keyid)") (auto simp: GetKey_def split: option.splits)

lemma NewVerifier_value:
  "fst (NewVerifier E now s keyid) = (case fst (GetKey E now s keyid) of Inl e \<Rightarrow> Inl (ErrStore e) | Inr k \<Rightarrow> Inr k)"
  by (auto simp: NewVerifier_def split: prod.splits sum.splits)

text \<open>The verdict of \<open>Verify\<close> on a token that parses, with the key function's answer.\<close>

lemma Verify_value:
  assumes "ParseSigned J (bytes_string raw) = Inr tok" "Headers J tok = h # hs" "hAlgorithm h = EdDSA"
    "RawURL_DecodeString (hKeyID h) = Some keyid"
  shows "fst (Verify J getKey now s peer raw) =
    Some (case fst (getKey s keyid) of Inl e \<Rightarrow> (None, Some e)
      | Inr key \<Rightarrow> (case TokClaims J tok key of Inl e \<Rightarrow> (None, Some e)
         | Inr claims \<Rightarrow> (Some claims, Validate J claims [bytes_string peer] now)))"
  using assms by (auto simp: Verify_def split: prod.splits sum.splits)

lemma Verify_accepts:
  assumes "fst (Verify J getKey now s peer raw) = Some (c, None)"
  obtains tok h hs keyid key claims where "ParseSigned J (bytes_string raw) = Inr tok" "Headers J tok = h # hs"
    "hAlgorithm h = EdDSA" "RawURL_DecodeString (hKeyID h) = Some keyid" "fst (getKey s keyid) = Inr key"
    "TokClaims J tok key = Inr claims" "c = Some claims" "Validate J claims [bytes_string peer] now = None"
  using assms unfolding Verify_def
  by (auto split: sum.splits list.splits if_splits option.splits prod.splits)

lemma HybridVerify_accepts:
  assumes E: "env_ok E V" and s: "ks_inv E V s" and ok: "fst (HybridVerify J E now s peerID token) = Some True"
  shows "\<exists>tok h hs keyid ak claims. ParseSigned J (bytes_string token) = Inr tok \<and> Headers J tok = h # hs \<and>
    hAlgorithm h = EdDSA \<and> RawURL_DecodeString (hKeyID h) = Some keyid \<and> length keyid = 8 \<and>
    abs_keys E V s (Uint64 keyid) = Some ak \<and> Id ak = Uint64 keyid \<and> TokClaims J tok (Key ak) = Inr claims \<and>
    Validate J claims [bytes_string peerID] now = None \<and> sint (ExpiresAt ak) \<le> sint now"
proof -
  from ok obtain c where c: "fst (Verify J (NewVerifier E now) now s peerID token) = Some (c, None)"
    by (auto simp: HybridVerify_def)
  obtain tok h hs keyid key claims where v: "ParseSigned J (bytes_string token) = Inr tok" "Headers J tok = h # hs"
    "hAlgorithm h = EdDSA" "RawURL_DecodeString (hKeyID h) = Some keyid" "fst (NewVerifier E now s keyid) = Inr key"
    "TokClaims J tok key = Inr claims" "c = Some claims" "Validate J claims [bytes_string peerID] now = None"
    by (rule Verify_accepts[OF c])
  from v(5) have "fst (GetKey E now s keyid) = Inr key" by (simp add: NewVerifier_value split: sum.splits)
  then obtain ak where "length keyid = 8" "abs_keys E V s (Uint64 keyid) = Some ak" "key = Key ak"
    "sint (ExpiresAt ak) \<le> sint now"
    by (auto simp: GetKey_value[OF E s] split: if_splits option.splits)
  with v abs_keys_SomeD(2)[OF s] show ?thesis by blast
qed

text \<open>
  \<open>HybridVerify\<close> accepts a token only if it parses, is signed with EdDSA, names the id of a key in the store, its
  signature is good for that stored key, and its claims are valid for this peer at this time; and then the stored
  key's \<open>ExpiresAt\<close> is not in the future.
\<close>

theorem HybridVerify_sound:
  assumes E: "env_ok E V" and s: "ks_inv E V s" and ok: "fst (HybridVerify J E now s peerID token) = Some True"
  shows "\<exists>tok h hs keyid ak claims. ParseSigned J (bytes_string token) = Inr tok \<and> Headers J tok = h # hs \<and>
    hAlgorithm h = EdDSA \<and> RawURL_DecodeString (hKeyID h) = Some keyid \<and> length keyid = 8 \<and>
    abs_keys E V s (Uint64 keyid) = Some ak \<and> Id ak = Uint64 keyid \<and> TokClaims J tok (Key ak) = Inr claims \<and>
    Validate J claims [bytes_string peerID] now = None \<and> sint (ExpiresAt ak) \<le> sint now"
  using assms by (rule HybridVerify_accepts)

definition example_claims :: Claims where
  "example_claims = \<lparr>cIssuer = ''hybrid'', cSubject = ''op'', cAudience = [''A''], cExpiry = 250, cNotBefore = 0, cIssuedAt = 50, cID = []\<rparr>"

text \<open>A JOSE library with one token, \<open>t\<close>, good for the peer \<open>A\<close> until its expiry.\<close>

definition example_jose :: "(string \<times> bytes, unit) jose" where
  "example_jose = \<lparr>
     NewSigner = (\<lambda>alg kid key ns typ. Inr (kid, key)),
     Sign = (\<lambda>sg c. if c = example_claims \<and> sg = (RawURL_EncodeToString (PutUint64 1), [9]) then Inr ''t'' else Inl (ErrJose ''other'')),
     ParseSigned = (\<lambda>raw. if raw = ''t'' then Inr () else Inl (ErrJose ''parse'')),
     Headers = (\<lambda>_. [\<lparr>hAlgorithm = EdDSA, hKeyID = RawURL_EncodeToString (PutUint64 1)\<rparr>]),
     TokClaims = (\<lambda>_ key. if key = [7] then Inr example_claims else Inl (ErrJose ''signature'')),
     Validate = (\<lambda>c aud now. if set aud \<subseteq> set (cAudience c) \<and> sint (cNotBefore c) \<le> sint now \<and> sint now < sint (cExpiry c) then None else Some (ErrJose ''claims''))\<rparr>"

theorem HybridVerify_sound_witness:
  "\<exists>ak. abs_keys mem_env mem_view (snd example_saved) 1 = Some ak \<and>
     fst (HybridVerify example_jose mem_env 150 (snd example_saved) [65] [116]) = Some True \<and> sint (ExpiresAt ak) \<le> 150"
proof -
  have v: "fst (HybridVerify example_jose mem_env 150 (snd example_saved) [65] [116]) = Some True" by code_simp
  from HybridVerify_sound[OF mem_env_ok example_saved_inv v] v show ?thesis
    by (auto simp: example_jose_def)
qed

text \<open>
  C13: a token issued with the private key of a saved verification key is accepted for a peer exactly when its claims
  are valid for that peer and the saved key's \<open>ExpiresAt\<close> has passed. Everything between the issuer's key id and the
  stored key (base64, big-endian ids, the key pool) fits; only the expiry test is the wrong way round.
\<close>

theorem HybridVerify_issued:
  assumes E: "env_ok E V" and s: "ks_inv E V s" and J: "jose_ok J pub"
    and sv: "Save E s ak = (None, ak', s')" and key: "Key ak = pub (sKey sg)" "KeyID sg = KeyIDFromUint64 (Id ak')"
    and iss: "NewIssuer J sg = Inr i" "Issue J t i c = (Inr raw, c')" "bytes_string token = raw"
  shows "fst (HybridVerify J E now s' peerID token) =
    Some (sint (ExpiresAt ak) \<le> sint now \<and> Validate J c' [bytes_string peerID] now = None)"
proof -
  note k = Save_ok[OF E s sv]
  have kk: "Key ak' = Key ak" "ExpiresAt ak' = ExpiresAt ak"
    using k(3) by (metis AuthKey.select_convs AuthKey.update_convs(1) AuthKey.surjective)+
  from iss(1) have sgn: "NewSigner J EdDSA (RawURL_EncodeToString (PutUint64 (Id ak'))) (sKey sg) (sNonceSource sg) ''JWT'' = Inr (iSigner i)"
    using key(2) by (auto simp: NewIssuer_def rbind_Inr_iff KeyIDFromUint64_def)
  from iss(2) have "Sign J (iSigner i) c' = Inr raw" by (auto simp: Issue_def)
  with J sgn obtain tok h hs where tok: "ParseSigned J (bytes_string token) = Inr tok" "Headers J tok = h # hs" "hAlgorithm h = EdDSA"
    "hKeyID h = RawURL_EncodeToString (PutUint64 (Id ak'))" "TokClaims J tok (pub (sKey sg)) = Inr c'"
    unfolding jose_ok_def iss(3) by blast
  have dec: "RawURL_DecodeString (hKeyID h) = Some (PutUint64 (Id ak'))" using tok(4) by simp
  have "fst (GetKey E now s' (PutUint64 (Id ak'))) =
      (if sint now < sint (ExpiresAt ak) then Inl ErrKeyExpired else Inr (Key ak))"
    using k(2) kk by (simp add: GetKey_value[OF E k(1)] k(4))
  then show ?thesis
    using Verify_value[OF tok(1-3) dec, of "NewVerifier E now" now s' peerID] tok(5) key(1)
    by (auto simp: HybridVerify_def NewVerifier_value)
qed

lemma example_jose_ok: "jose_ok example_jose (\<lambda>k. if k = [9] then [7] else [])"
  by (auto simp: jose_ok_def example_jose_def)

definition example_signer :: Signer where
  "example_signer = \<lparr>KeyID = PutUint64 1, sKey = [9], sNonceSource = \<lparr>Len = 32, Rand = []\<rparr>, sSubject = ''op'', sIssuer = ''hybrid'',
     sExpires = 200999999999\<rparr>"

theorem HybridVerify_issued_witness:
  "fst (HybridVerify example_jose mem_env 99 (snd example_saved) [65] [116]) = Some False \<and>
   fst (HybridVerify example_jose mem_env 150 (snd example_saved) [65] [116]) = Some True"
proof -
  have i: "NewIssuer example_jose example_signer = Inr \<lparr>iSigner = (RawURL_EncodeToString (PutUint64 1), [9]), iExpires = 200,
      iSubject = ''op'', iIssuer = ''hybrid''\<rparr>"
    by (simp add: NewIssuer_def example_jose_def example_signer_def) code_simp
  have iss: "Issue example_jose 50 \<lparr>iSigner = (RawURL_EncodeToString (PutUint64 1), [9]), iExpires = 200,
      iSubject = ''op'', iIssuer = ''hybrid''\<rparr> (example_claims\<lparr>cExpiry := 0\<rparr>) = (Inr ''t'', example_claims)"
    by (simp add: Issue_def issue_claims_def example_jose_def example_claims_def)
  have key: "Key example_key = (\<lambda>k. if k = [9] then [7] else []) (sKey example_signer)"
    "KeyID example_signer = KeyIDFromUint64 (Id (example_key\<lparr>Id := 1\<rparr>))"
    by (simp_all add: example_key_def example_signer_def KeyIDFromUint64_def)
  have tok: "bytes_string [116] = ''t''" by code_simp
  have r: "fst (HybridVerify example_jose mem_env now (snd example_saved) [65] [116]) =
      Some (sint (ExpiresAt example_key) \<le> sint now \<and> Validate example_jose example_claims [bytes_string [65]] now = None)" for now
    by (rule HybridVerify_issued[OF mem_env_ok example_inv example_jose_ok example_Save key i iss tok])
  have "Validate example_jose example_claims [bytes_string [65]] 150 = None" by code_simp
  with r[of 99] r[of 150] show ?thesis by (simp add: example_key_def)
qed

text \<open>A nonce has two hexadecimal digits for each byte asked for, and takes exactly those bytes from the reader.\<close>

lemma hex_length: "length (hex_EncodeToString b) = 2 * length b"
  by (induction b) (simp_all add: hex_EncodeToString_def)

lemma Nonce_length:
  "Nonce ns = Some (Inr s, ns') \<Longrightarrow> int (length s) = 2 * Len ns \<and> length (Rand ns') + nat (Len ns) = length (Rand ns)"
  by (auto simp: Nonce_def hex_length split: if_splits)

end
