(* ===== verification/Commands.thy ===== *)
theory Commands
  imports GrpcServer Auth
begin

text \<open>
  The entry points of the program and what they are made of: \<open>src/cmd/hybrid\<close> (its interrupt handler is in \<open>Interrupts\<close>), \<open>src/gomobile\<close>, the
  tools that make keys and tokens (\<open>src/cmd/hybrid-issuer\<close>, \<open>src/cmd/hybrid-ed25519\<close>), that make and serve
  archives (\<open>src/cmd/hybrid-zip\<close>, \<open>src/cmd/hybrid-zipfile-server\<close>), and the decoding of keys
  (\<open>src/pkg/utils/crypto.go\<close>).
\<close>

section \<open>Hexadecimal (utils/crypto.go)\<close>

definition fromHexChar :: "char \<Rightarrow> nat option" where
  "fromHexChar c = (let n = (of_char c :: nat) in
     if 48 \<le> n \<and> n \<le> 57 then Some (n - 48)
     else if 97 \<le> n \<and> n \<le> 102 then Some (n - 97 + 10)
     else if 65 \<le> n \<and> n \<le> 70 then Some (n - 65 + 10) else None)"

datatype hex_error = InvalidByte char | ErrLength | ErrKeyLen nat

datatype 'a hex_out = HexOk 'a | HexErr hex_error | HexPanic

text \<open>
  \<open>hex.Decode\<close> into \<open>room\<close> bytes: a byte beyond them is an index out of range. The bytes written so far come first.
\<close>

fun hex_decode :: "nat \<Rightarrow> string \<Rightarrow> bytes hex_out" where
  "hex_decode room [] = HexOk []"
| "hex_decode room [a] = (if fromHexChar a = None then HexErr (InvalidByte a) else HexErr ErrLength)"
| "hex_decode room (a # b # r) =
     (case fromHexChar a of None \<Rightarrow> HexErr (InvalidByte a) | Some x \<Rightarrow>
     (case fromHexChar b of None \<Rightarrow> HexErr (InvalidByte b) | Some y \<Rightarrow>
      if room = 0 then HexPanic
      else case hex_decode (room - 1) r of
             HexOk bs \<Rightarrow> HexOk (of_nat (16 * x + y) # bs) | HexErr e \<Rightarrow> HexErr e | HexPanic \<Rightarrow> HexPanic))"

definition DecodeKey32 :: "string \<Rightarrow> bytes hex_out" where
  "DecodeKey32 fromHex =
     (case hex_decode 32 (map ToLowerByte fromHex) of
        HexOk bs \<Rightarrow> if length bs \<noteq> 32 then HexErr (ErrKeyLen (length bs)) else HexOk bs
      | r \<Rightarrow> r)"

section \<open>Keys and tokens (hybrid-issuer, hybrid-ed25519)\<close>

definition SeedSize :: nat where "SeedSize = 32"

datatype tool_out = PrintKey bytes | PrintToken string | Fatal string | FatalHex hex_error | FatalAuth auth_error | ToolPanic

text \<open>\<open>hex.DecodeString\<close> has room for all of its bytes; \<open>keyFromSeed\<close> makes the private key of a seed.\<close>

definition seed_key :: "(bytes \<Rightarrow> bytes) \<Rightarrow> string \<Rightarrow> tool_out + bytes" where
  "seed_key keyFromSeed seedHex =
     (case hex_decode (length seedHex) seedHex of
        HexPanic \<Rightarrow> Inl ToolPanic
      | HexErr e \<Rightarrow> Inl (FatalHex e)
      | HexOk seed \<Rightarrow> if length seed \<noteq> SeedSize then Inl (Fatal (''seed should be a 64 size hex, but got '' @ Itoa (int (length seed))))
          else Inr (keyFromSeed seed))"

text \<open>\<open>gen\<close> is a newly generated private key.\<close>

definition ed25519_main :: "string + bytes \<Rightarrow> (bytes \<Rightarrow> bytes) \<Rightarrow> string \<Rightarrow> tool_out" where
  "ed25519_main gen keyFromSeed seedHex =
     (if seedHex = [] then (case gen of Inl e \<Rightarrow> Fatal e | Inr k \<Rightarrow> PrintKey k)
      else case seed_key keyFromSeed seedHex of Inl r \<Rightarrow> r | Inr k \<Rightarrow> PrintKey k)"

text \<open>\<open>time.Duration(expires) * time.Hour * 24\<close>, in nanoseconds of 64 bits.\<close>

definition days :: "u64 \<Rightarrow> 64 word" where
  "days expires = expires * 3600000000000 * 24"

definition issuer_main ::
  "('signer, 'tok) jose \<Rightarrow> 64 word \<Rightarrow> bytes \<Rightarrow> string + bytes \<Rightarrow> (bytes \<Rightarrow> bytes) \<Rightarrow>
    string \<Rightarrow> u64 \<Rightarrow> string \<Rightarrow> u64 \<Rightarrow> string \<Rightarrow> string \<Rightarrow> tool_out" where
  "issuer_main J now rand gen keyFromSeed seedHex kid target expires subject issuer =
     (if seedHex = [] then (case gen of Inl e \<Rightarrow> Fatal e | Inr k \<Rightarrow> PrintKey k)
      else if target = [] then Fatal ''target should be set''
      else case seed_key keyFromSeed seedHex of Inl r \<Rightarrow> r
        | Inr k \<Rightarrow>
            (case NewIssuer J \<lparr>KeyID = KeyIDFromUint64 kid, sKey = k, sNonceSource = \<lparr>Len = 24, Rand = rand\<rparr>, sSubject = subject,
                 sIssuer = issuer, sExpires = days expires\<rparr> of Inl e \<Rightarrow> FatalAuth e
             | Inr i \<Rightarrow> (case fst (Issue J now i \<lparr>cIssuer = [], cSubject = [], cAudience = [target], cExpiry = 0, cNotBefore = 0, cIssuedAt = 0, cID = []\<rparr>) of
                  Inl e \<Rightarrow> FatalAuth e | Inr jwt \<Rightarrow> PrintToken jwt)))"

section \<open>Archives (hybrid-zip, hybrid-zipfile-server)\<close>

datatype zip_main_out = ZipDone string zip_state | ZipFatal string | ZipPanic

definition hybrid_zip_main ::
  "(string \<Rightarrow> string option) \<Rightarrow> zip_env \<Rightarrow> (ContentInfo \<Rightarrow> string + bytes) \<Rightarrow> (string \<Rightarrow> walk_entry list) \<Rightarrow> string \<Rightarrow> string \<Rightarrow> zip_main_out" where
  "hybrid_zip_main create env toml dirs root out =
     (if root = [] then ZipFatal ''root should be set''
      else let out = (if out = [] then path_Join [path_Dir root, path_Base root @ ''.zip''] else out) in
        case GzipThenZip create env toml dirs root out of ZOk z \<Rightarrow> ZipDone out z | ZErr e \<Rightarrow> ZipFatal e | ZPanic \<Rightarrow> ZipPanic)"

datatype zip_server_event = OpenArchive string | ServeOn string | CloseArchive | ZipServerFatal

text \<open>\<open>log.Fatal\<close> ends the process without running deferred functions.\<close>

definition zipfile_server_main ::
  "(string \<Rightarrow> vfs_error + vfs) \<Rightarrow> (bytes \<Rightarrow> vfs_error + ContentInfo) \<Rightarrow> bool \<Rightarrow> string list \<Rightarrow> zip_server_event list" where
  "zipfile_server_main openReader toml serveFails args =
     (let name = (case args of _ # a # _ \<Rightarrow> a | _ \<Rightarrow> ''public.zip'') in
      case fst (zipfs_New openReader toml name) of
        Inl e \<Rightarrow> [OpenArchive name, ZipServerFatal]
      | Inr hfs \<Rightarrow> [OpenArchive name, ServeOn '':9999''] @ (if serveFails then [ZipServerFatal] else [CloseArchive]))"

section \<open>Serving (cmd/hybrid, gomobile)\<close>

text \<open>The configuration both entry points give the control server.\<close>

definition main_config :: srv_config where
  "main_config = \<lparr>MinVerifyKeyLife = 0, MaxVerifyKeyLife = 0, BindSeqStart = 0, ConfigBindId = 0\<rparr>"

text \<open>\<open>main\<close> up to the point where it waits for the end of its context: the events, and the server.\<close>

datatype main_event = EvRegister | EvServer | EvListenGrpc string | EvServeGrpc | EvStart | EvLog string | EvFatal string | EvStarted

definition hybrid_main ::
  "string option \<Rightarrow> string \<Rightarrow> net_listen \<Rightarrow> ('m, 'rule, 'peer, 'ver, 'conf, 'opt, 'db) svc_env \<Rightarrow> main_event list \<times> 'db Server option" where
  "hybrid_main register grpcBind listen e =
     (case register of Some x \<Rightarrow> ([EvRegister, EvFatal x], None) | None \<Rightarrow>
     (case NewServer main_config of Inl x \<Rightarrow> ([EvRegister, EvServer, EvFatal ''grpc.NewServer''], None) | Inr s \<Rightarrow>
     (let bind = (if grpcBind = [] then Inr [] else (case listen ''tcp'' grpcBind of Inl x \<Rightarrow> Inl x | Inr _ \<Rightarrow> Inr [EvListenGrpc grpcBind, EvServeGrpc])) in
     (case bind of Inl x \<Rightarrow> ([EvRegister, EvServer, EvListenGrpc grpcBind, EvFatal x], Some s) | Inr evs \<Rightarrow>
     (case Start listen e [] s of
        (Reply _, s) \<Rightarrow> ([EvRegister, EvServer] @ evs @ [EvStart, EvStarted], Some s)
      | (Fail x, s) \<Rightarrow>
          if grpcBind \<noteq> [] then ([EvRegister, EvServer] @ evs @ [EvStart, EvLog ''check the config, then start from grpc client.'', EvStarted], Some s)
          else ([EvRegister, EvServer] @ evs @ [EvStart, EvFatal ''grpc.Server.Start''], Some s)
      | (Panics x, s) \<Rightarrow> ([EvRegister, EvServer] @ evs @ [EvStart, EvFatal x], Some s))))))"

text \<open>The listeners of the mobile library: \<open>fdg\<close> addresses are port numbers, everything else is package \<open>net\<close>'s.\<close>

definition mobile_Listen ::
  "(string \<Rightarrow> string + nat) \<Rightarrow> (u16 \<Rightarrow> string + nat) \<Rightarrow> net_listen \<Rightarrow> net_listen" where
  "mobile_Listen parseUint32 forgo netListen network address =
     (if network = ''fdg'' then
        (case parseUint32 address of Inl e \<Rightarrow> Inl e
         | Inr port \<Rightarrow> if port = 0 \<or> port > 65535 then Inl ''invalid port'' else forgo (of_nat port))
      else netListen network address)"

datatype mobile_event = MListen | MContext | MServer | MServe | MStop | MCancel | MClose | MWait

datatype mobile_error = MText string | MSrv srv_error

text \<open>The object the mobile library gives out: its server and whether its \<open>cancel\<close> is set.\<close>

record 'db fromGo =
  mServer :: "'db Server option"
  mCancel :: bool

definition NewFromGo :: "'db fromGo" where
  "NewFromGo = \<lparr>mServer = None, mCancel = False\<rparr>"

text \<open>
  \<open>DoInitOnce\<close>: what it does, with the deferred clean-up when it ends without a server; \<open>register\<close> and \<open>listen\<close> are the errors of
  the libraries. \<open>DoDestroyOnce\<close> calls \<open>cancel\<close>, which panics when it is nil, and returns what waiting for the server gives.
\<close>

definition DoInitOnce ::
  "string option \<Rightarrow> string option \<Rightarrow> 'db fromGo \<Rightarrow> mobile_event list \<times> mobile_error option \<times> 'db fromGo" where
  "DoInitOnce register listen m =
     (case register of Some e \<Rightarrow> ([], Some (MText e), m) | None \<Rightarrow>
     (case listen of Some e \<Rightarrow> ([MListen], Some (MText e), m) | None \<Rightarrow>
     (case NewServer main_config of Inl e \<Rightarrow> ([MListen, MContext, MServer, MCancel, MClose], Some (MSrv e), m)
      | Inr s \<Rightarrow> ([MListen, MContext, MServer, MServe], None, m\<lparr>mServer := Some s, mCancel := True\<rparr>))))"

datatype destroy_out = DestroyRet "string option" | DestroyPanic

definition DoDestroyOnce :: "string option \<Rightarrow> 'db fromGo \<Rightarrow> mobile_event list \<times> destroy_out" where
  "DoDestroyOnce stopped m = (if mCancel m then ([MCancel, MWait], DestroyRet stopped) else ([], DestroyPanic))"

section \<open>Keys survive the encodings\<close>

lemma hex_char_back: "n < 16 \<Longrightarrow> fromHexChar (hex_char n) = Some n \<and> ToLowerByte (hex_char n) = hex_char n"
proof -
  have "\<forall>n \<in> set [0..<16]. fromHexChar (hex_char n) = Some n \<and> ToLowerByte (hex_char n) = hex_char n" by code_simp
  then show "n < 16 \<Longrightarrow> fromHexChar (hex_char n) = Some n \<and> ToLowerByte (hex_char n) = hex_char n" by simp
qed

lemma hex_byte: "fromHexChar (hex_char (unat (x :: byte) div 16)) = Some (unat x div 16)" "fromHexChar (hex_char (unat x mod 16)) = Some (unat x mod 16)"
proof -
  have "unat x < 256" using unsigned_less[of x] by simp
  then show "fromHexChar (hex_char (unat x div 16)) = Some (unat x div 16)" "fromHexChar (hex_char (unat x mod 16)) = Some (unat x mod 16)"
    by (simp_all add: hex_char_back)
qed

text \<open>Decoding what was encoded gives it back when there is room, and panics when there is not.\<close>

lemma hex_roundtrip: "hex_decode room (hex_EncodeToString b) = (if length b \<le> room then HexOk b else HexPanic)"
proof (induction b arbitrary: room)
  case (Cons x b)
  have e: "hex_EncodeToString (x # b) = hex_char (unat x div 16) # hex_char (unat x mod 16) # hex_EncodeToString b"
    by (simp add: hex_EncodeToString_def)
  have "16 * (unat x div 16) + unat x mod 16 = unat x" by simp
  then have "(of_nat (16 * (unat x div 16) + unat x mod 16) :: byte) = x" by simp
  with Cons.IH[of "room - 1"] show ?case unfolding e by (cases room) (auto simp: hex_byte simp del: of_nat_add of_nat_mult)
qed (simp add: hex_EncodeToString_def)

lemma hex_lower: "map ToLowerByte (hex_EncodeToString b) = hex_EncodeToString b"
proof (induction b)
  case (Cons x b)
  have "unat x < 256" using unsigned_less[of x] by simp
  with Cons show ?case by (simp add: hex_EncodeToString_def hex_char_back)
qed (simp add: hex_EncodeToString_def)

lemma DecodeKey32_roundtrip:
  "DecodeKey32 (hex_EncodeToString b) =
    (if length b = 32 then HexOk b else if length b < 32 then HexErr (ErrKeyLen (length b)) else HexPanic)"
  by (simp add: DecodeKey32_def hex_lower hex_roundtrip)

text \<open>A seed printed by one of the tools is accepted by both.\<close>

lemma seed_roundtrip: "length seed = SeedSize \<Longrightarrow> seed_key keyFromSeed (hex_EncodeToString seed) = Inr (keyFromSeed seed)"
  by (simp add: seed_key_def hex_roundtrip hex_length SeedSize_def)

section \<open>Where an archive goes\<close>

text \<open>Without a name, the archive of a directory is put beside it and not into it, so that it is not packed into itself.\<close>

lemma hybrid_zip_out:
  assumes "list_all plain_elem r" "plain_elem n" "hybrid_zip_main create env toml dirs (abs_path (r @ [n])) [] = ZipDone out z"
  shows "out = abs_path (r @ [n @ ''.zip'']) \<and> (\<forall>p. list_all plain_elem p \<longrightarrow> out \<noteq> abs_path (r @ n # p))"
proof -
  have p: "plain_elem (n @ ''.zip'')" using assms(2) by (auto simp: plain_elem_def Separator_def append_eq_Cons_conv)
  have "path_Join [abs_path r, n @ ''.zip''] = abs_path (r @ [n @ ''.zip''])"
    using Join_plain[of r "[n @ ''.zip'']"] assms(1) p by simp
  moreover have "abs_path (r @ [n]) \<noteq> []" by (simp add: abs_path_def)
  ultimately have o: "out = abs_path (r @ [n @ ''.zip''])"
    using assms Dir_abs_path[OF assms(1,2)] Base_abs_path[OF assms(1,2)]
    by (auto simp: hybrid_zip_main_def Let_def split: zip_out.splits)
  have "out \<noteq> abs_path (r @ n # q)" if "list_all plain_elem q" for q
    using abs_path_inject[of "r @ [n @ ''.zip'']" "r @ n # q"] assms(1,2) p that by (simp add: o)
  with o show ?thesis by blast
qed

section \<open>Settings\<close>

text \<open>
  The comments of both entry points say that a life of 0 means the default; but the control server they make gives every
  verification key the life 0.
\<close>

lemma main_server: "NewServer main_config = Inr \<lparr>srvConfig = main_config, service = None, bindSeq = 0\<rparr>"
  by (simp add: NewServer_def main_config_def)

lemma main_key_life: "key_life main_config life = 0"
  by (simp add: key_life_def main_config_def Let_def word_gt_0)

lemma sint_small:
  assumes "0 \<le> k" "k < 2 ^ 63" shows "sint (word_of_int k :: 64 word) = k"
proof -
  have "- (2 ^ 63) \<le> k" using assms(1) by (rule order_trans[rotated]) simp
  then have "signed_take_bit 63 k = k" using assms(2) by (rule signed_take_bit_int_eq_self)
  then show ?thesis by (simp add: signed_of_int)
qed

text \<open>A number of days is not cut off by the 64 bits of a duration up to 106751 days, about 292 years.\<close>

lemma days_seconds:
  assumes "unat expires \<le> 106751" shows "seconds (days expires) = expires * 86400"
proof -
  let ?e = "int (unat expires)"
  have e: "expires = word_of_int ?e" by simp
  have "days expires = word_of_int (?e * 86400000000000)" unfolding days_def by (subst e) (simp add: mult.assoc)
  moreover have "sint (word_of_int (?e * 86400000000000) :: 64 word) = ?e * 86400000000000"
  proof (rule sint_small)
    have "?e \<le> 106751" using assms by linarith
    then have "?e * 86400000000000 \<le> 106751 * 86400000000000" by (rule mult_right_mono) simp
    then show "?e * 86400000000000 < 2 ^ 63" by (rule order_le_less_trans) simp
  qed simp
  ultimately have "seconds (days expires) = word_of_int (sgn (?e * 86400000000000) * (?e * 86400000000000 div 1000000000))"
    by (simp add: seconds_def)
  also have "sgn (?e * 86400000000000) * (?e * 86400000000000 div 1000000000) = ?e * 86400" by (cases "expires = 0") (simp_all add: sgn_mult)
  finally show ?thesis by (subst (2) e) simp
qed

text \<open>The port given to the mobile listener is the one that was asked for.\<close>

lemma mobile_port:
  assumes "parse address = Inr port" "mobile_Listen parse forgo netListen ''fdg'' address = Inr ln"
  shows "\<exists>p :: u16. unat p = port \<and> p \<noteq> 0 \<and> forgo p = Inr ln"
proof -
  from assms have p: "port \<noteq> 0" "port \<le> 65535" "forgo (of_nat port) = Inr ln" by (auto simp: mobile_Listen_def split: if_splits)
  then have "unat (of_nat port :: u16) = port" by (simp add: unat_of_nat)
  with p show ?thesis by (metis unat_0)
qed

text \<open>
  Initialising succeeds when the libraries do, and then the library can be destroyed; after it has failed, destroying it panics.
\<close>

lemma mobile_init_destroy:
  assumes "DoInitOnce register listen NewFromGo = (evs, r, m)"
  shows "(r = None \<longleftrightarrow> register = None \<and> listen = None) \<and>
    snd (DoDestroyOnce stopped m) = (if r = None then DestroyRet stopped else DestroyPanic) \<and>
    (\<forall>s. mServer m = Some s \<longrightarrow> s = \<lparr>srvConfig = main_config, service = None, bindSeq = 0\<rparr>)"
  using assms by (auto simp: DoInitOnce_def DoDestroyOnce_def NewFromGo_def main_server split: option.splits)

end
