(* ===== verification/ServerStop.thy ===== *)
theory ServerStop
  imports GoLib
begin

text \<open>
  Stopping a service: \<open>WaitUntilStopped\<close> of \<open>src/grpc/server.go\<close> with the goroutine it starts, and \<open>Stop\<close>,
  \<open>WaitUntilStopped\<close> and \<open>waitUntilStopped\<close> of \<open>src/grpc/service.go\<close>, as a transition system over the server's mutex.

  Each call of \<open>WaitUntilStopped\<close> is a waiter: the handler, which waits for the result or for the end of its context, and
  the goroutine, which waits for the service, takes the mutex, clears the service, sends the result on an unbuffered channel
  and only then gives the mutex back.
\<close>

section \<open>The end of a service\<close>

text \<open>
  \<open>waitUntilStopped\<close> after the context is done: it closes the node and the database, then collects the errors of the node's
  goroutines and of the IPFS process, leaving out nil and \<open>context.Canceled\<close>.
\<close>

datatype stop_event = NodeClose | DBClose | LogSync | CloseStopped

datatype run_error = Canceled | RunError string

definition collect_err :: "run_error option \<Rightarrow> string list" where
  "collect_err e = (case e of Some (RunError x) \<Rightarrow> [x] | _ \<Rightarrow> [])"

definition waitUntilStopped :: "run_error option \<Rightarrow> run_error option \<Rightarrow> stop_event list \<times> string list" where
  "waitUntilStopped nodeErr ipfsErr =
     ([NodeClose, DBClose, LogSync, CloseStopped], collect_err nodeErr @ collect_err ipfsErr)"

section \<open>State and steps\<close>

datatype rpc_pc = RWait | RReturn
datatype go_pc = GWait | GSend | GExit

record stop_state =
  mu :: "nat option"
  svc :: bool
  cancelled :: bool
  stopped :: bool
  waiters :: "(rpc_pc \<times> go_pc) list"

definition running :: stop_state where
  "running = \<lparr>mu = None, svc = True, cancelled = False, stopped = False, waiters = []\<rparr>"

text \<open>
  The steps; \<open>cancels\<close> says whether callers may give up. A handler takes and releases the mutex in one step, so it needs it
  free; \<open>other\<close> is any other handler.
\<close>

inductive stop_step :: "bool \<Rightarrow> stop_state \<Rightarrow> stop_state \<Rightarrow> bool" for cancels where
  call: "mu s = None \<Longrightarrow> svc s \<Longrightarrow> stop_step cancels s (s\<lparr>waiters := waiters s @ [(RWait, GWait)]\<rparr>)"
| stop: "mu s = None \<Longrightarrow> svc s \<Longrightarrow> stop_step cancels s (s\<lparr>cancelled := True\<rparr>)"
| other: "mu s = None \<Longrightarrow> stop_step cancels s s"
| ended: "cancelled s \<Longrightarrow> stop_step cancels s (s\<lparr>stopped := True\<rparr>)"
| lock: "i < length (waiters s) \<Longrightarrow> waiters s ! i = (r, GWait) \<Longrightarrow> stopped s \<Longrightarrow> mu s = None \<Longrightarrow>
    stop_step cancels s (s\<lparr>mu := Some i, svc := False, waiters := (waiters s)[i := (r, GSend)]\<rparr>)"
| send: "i < length (waiters s) \<Longrightarrow> waiters s ! i = (RWait, GSend) \<Longrightarrow>
    stop_step cancels s (s\<lparr>mu := None, waiters := (waiters s)[i := (RReturn, GExit)]\<rparr>)"
| give_up: "cancels \<Longrightarrow> i < length (waiters s) \<Longrightarrow> waiters s ! i = (RWait, g) \<Longrightarrow>
    stop_step cancels s (s\<lparr>waiters := (waiters s)[i := (RReturn, g)]\<rparr>)"

section \<open>Invariant\<close>

text \<open>
  The mutex is held between steps only by a goroutine about to send; without give-ups its handler is still waiting.
\<close>

definition waiter_ok :: "bool \<Rightarrow> nat option \<Rightarrow> nat \<Rightarrow> rpc_pc \<times> go_pc \<Rightarrow> bool" where
  "waiter_ok cancels m i w \<longleftrightarrow> (snd w = GSend \<longleftrightarrow> m = Some i) \<and> (snd w = GExit \<longrightarrow> fst w = RReturn) \<and>
     (\<not> cancels \<longrightarrow> fst w = RReturn \<longrightarrow> snd w = GExit)"

definition stop_inv :: "bool \<Rightarrow> stop_state \<Rightarrow> bool" where
  "stop_inv cancels s \<longleftrightarrow> (\<forall>i < length (waiters s). waiter_ok cancels (mu s) i (waiters s ! i)) \<and>
     (\<forall>i. mu s = Some i \<longrightarrow> i < length (waiters s))"

interpretation stopping: invariant_system "stop_step cancels" "\<lambda>s. s = running" "stop_inv cancels" for cancels
proof
  show "stop_inv cancels s" if "s = running" for s using that by (simp add: stop_inv_def running_def)
  show "stop_inv cancels t" if "stop_inv cancels s" "stop_step cancels s t" for s t
    using that(2)
  proof cases
    case call
    have old: "waiter_ok cancels None i (waiters s ! i)" if "i < length (waiters s)" for i
      using \<open>stop_inv cancels s\<close> \<open>mu s = None\<close> that unfolding stop_inv_def by metis
    have new: "waiter_ok cancels None i (RWait, GWait)" for i by (simp add: waiter_ok_def)
    have "waiter_ok cancels None i ((waiters s @ [(RWait, GWait)]) ! i)" if i: "i < Suc (length (waiters s))" for i
    proof (cases "i = length (waiters s)")
      case True
      then show ?thesis using new by simp
    next
      case False
      with i have "i < length (waiters s)" by simp
      then show ?thesis using old by (simp add: nth_append)
    qed
    with call show ?thesis by (simp add: stop_inv_def)
  next
    case (lock i r)
    with that(1) show ?thesis by (auto simp: stop_inv_def nth_list_update waiter_ok_def)
  next
    case (send i)
    then have "mu s = Some i" using that(1) by (auto simp: stop_inv_def waiter_ok_def)
    with send that(1) show ?thesis by (auto simp: stop_inv_def nth_list_update waiter_ok_def)
  next
    case (give_up i g)
    then have "waiter_ok cancels (mu s) i (RWait, g)" using that(1) by (auto simp: stop_inv_def)
    with give_up that(1) show ?thesis by (auto simp: stop_inv_def nth_list_update waiter_ok_def)
  qed (use that(1) in \<open>simp_all add: stop_inv_def\<close>)
qed

section \<open>Properties\<close>

definition pending :: "stop_state \<Rightarrow> nat" where
  "pending s = length (filter (\<lambda>w. w \<noteq> (RReturn, GExit)) (waiters s))"

lemma length_filter_update:
  "i < length xs \<Longrightarrow> P (xs ! i) \<Longrightarrow> \<not> P x \<Longrightarrow> length (filter P (xs[i := x])) < length (filter P xs)"
proof (induction xs arbitrary: i)
  case (Cons y ys)
  then show ?case by (cases i) auto
qed simp

lemma length_filter_update_same:
  "i < length xs \<Longrightarrow> P (xs ! i) \<Longrightarrow> P x \<Longrightarrow> length (filter P (xs[i := x])) = length (filter P xs)"
proof (induction xs arbitrary: i)
  case (Cons y ys)
  then show ?case by (cases i) auto
qed simp

text \<open>A goroutine that holds the mutex hands over its result and frees it.\<close>

lemma holder_sends:
  assumes "stop_inv False s" "mu s = Some i"
  shows "\<exists>t. stop_step False s t \<and> mu t = None \<and> stopped t = stopped s \<and> pending t < pending s"
proof -
  have i: "i < length (waiters s)" "waiter_ok False (Some i) i (waiters s ! i)" using assms by (auto simp: stop_inv_def)
  then have w: "i < length (waiters s)" "waiters s ! i = (RWait, GSend)"
    by (cases "waiters s ! i"; cases "fst (waiters s ! i)"; simp add: waiter_ok_def)+
  have "pending (s\<lparr>mu := None, waiters := (waiters s)[i := (RReturn, GExit)]\<rparr>) < pending s"
    unfolding pending_def using w by (simp add: length_filter_update)
  with stop_step.send[OF w] show ?thesis by force
qed

lemma drain:
  assumes "stop_inv False s" "stopped s" "pending s \<noteq> 0"
  shows "\<exists>t. reach (stop_step False) s t \<and> stopped t \<and> pending t < pending s"
proof (cases "mu s")
  case (Some i)
  with holder_sends[OF assms(1) Some] assms(2) show ?thesis by (blast intro: reach_step reach_refl)
next
  case None
  from assms(3) obtain w where "w \<in> set (waiters s)" "w \<noteq> (RReturn, GExit)" by (auto simp: pending_def filter_empty_conv)
  then obtain i where i: "i < length (waiters s)" "waiters s ! i \<noteq> (RReturn, GExit)" by (auto simp: in_set_conv_nth)
  have "snd (waiters s ! i) \<noteq> GSend" "snd (waiters s ! i) = GExit \<longrightarrow> fst (waiters s ! i) = RReturn"
    using assms(1) None i(1) by (auto simp: stop_inv_def waiter_ok_def)
  then have "snd (waiters s ! i) = GWait" using i(2) by (cases "snd (waiters s ! i)"; cases "waiters s ! i") auto
  then obtain r where r: "waiters s ! i = (r, GWait)" by (metis prod.collapse)
  let ?t = "s\<lparr>mu := Some i, svc := False, waiters := (waiters s)[i := (r, GSend)]\<rparr>"
  have st: "stop_step False s ?t" using i r None assms(2) by (intro stop_step.lock) auto
  have "pending ?t = pending s" using i r by (simp add: pending_def length_filter_update_same)
  moreover obtain u where "stop_step False ?t u" "stopped u" "pending u < pending ?t"
    using holder_sends[OF stopping.inv_step[OF assms(1) st]] assms(2) by auto
  moreover have "reach (stop_step False) s ?t" by (rule reach_step[of _ _ s]) (rule reach_refl, rule st)
  ultimately show ?thesis by (metis reach_step)
qed

lemma drain_all: "stop_inv False s \<Longrightarrow> stopped s \<Longrightarrow> \<exists>t. reach (stop_step False) s t \<and> pending t = 0"
proof (induction "pending s" arbitrary: s rule: less_induct)
  case less
  show ?case
  proof (cases "pending s = 0")
    case True
    then show ?thesis by (blast intro: reach_refl)
  next
    case False
    from drain[OF less.prems False] obtain t where t: "reach (stop_step False) s t" "stopped t" "pending t < pending s" by blast
    with less.hyps[OF t(3) stopping.inv_reach[OF t(1) less.prems(1)] t(2)] show ?thesis by (blast intro: reach_trans)
  qed
qed

text \<open>
  C21: as long as no caller of \<open>WaitUntilStopped\<close> gives up, the mutex can always be freed, and once the service has stopped
  every waiting call can return.
\<close>

theorem WaitUntilStopped_returns:
  assumes "reach (stop_step False) running s"
  shows "(\<exists>t. reach (stop_step False) s t \<and> mu t = None) \<and>
    (stopped s \<longrightarrow> (\<exists>t. reach (stop_step False) s t \<and> (\<forall>w \<in> set (waiters t). w = (RReturn, GExit))))"
proof -
  have inv: "stop_inv False s" using stopping.inv_reachable[OF refl assms] .
  have "\<exists>t. reach (stop_step False) s t \<and> mu t = None"
    using holder_sends[OF inv] by (cases "mu s") (blast intro: reach_refl reach_step)+
  moreover have "\<exists>t. reach (stop_step False) s t \<and> (\<forall>w \<in> set (waiters t). w = (RReturn, GExit))" if "stopped s"
    using drain_all[OF inv that] by (fastforce simp: pending_def filter_empty_conv)
  ultimately show ?thesis by blast
qed

theorem WaitUntilStopped_returns_witness:
  "\<exists>t. reach (stop_step False) (running\<lparr>waiters := [(RWait, GWait)], cancelled := True, stopped := True\<rparr>) t \<and>
     (\<forall>w \<in> set (waiters t). w = (RReturn, GExit))"
proof -
  let ?a = "running\<lparr>waiters := [(RWait, GWait)]\<rparr>"
  have st: "stop_step False running ?a" "stop_step False ?a (?a\<lparr>cancelled := True\<rparr>)"
    "stop_step False (?a\<lparr>cancelled := True\<rparr>) (?a\<lparr>cancelled := True, stopped := True\<rparr>)"
    using stop_step.call[of running False] stop_step.stop[of ?a False] stop_step.ended[of "?a\<lparr>cancelled := True\<rparr>" False]
    by (simp_all add: running_def)
  have "reach (stop_step False) running (?a\<lparr>cancelled := True, stopped := True\<rparr>)"
    by (rule reach_step, rule reach_step, rule reach_step, rule reach_refl) (rule st)+
  from WaitUntilStopped_returns[OF this] show ?thesis by simp
qed

text \<open>
  C22: a caller of \<open>WaitUntilStopped\<close> whose context ends before the service has stopped leaves a goroutine that will take the
  mutex and then wait for ever for someone to receive its result: from then on it holds the mutex in every state that can be
  reached, and every handler of the server blocks.
\<close>

theorem WaitUntilStopped_deadlock:
  assumes s: "reach (stop_step True) running s" and i: "i < length (waiters s)" "waiters s ! i = (RReturn, GSend)"
    and t: "reach (stop_step True) s t"
  shows "mu t = Some i"
proof -
  have "mu t = Some i \<and> i < length (waiters t) \<and> waiters t ! i = (RReturn, GSend) \<and> stop_inv True t"
    using t
  proof (induction rule: reach.induct)
    case reach_refl
    have "stop_inv True s" using stopping.inv_reachable[OF refl s] .
    with i show ?case by (auto simp: stop_inv_def waiter_ok_def)
  next
    case (reach_step t u)
    then have "stop_inv True u" by (blast intro: stopping.inv_step)
    moreover have "mu u = Some i \<and> i < length (waiters u) \<and> waiters u ! i = (RReturn, GSend)"
      using reach_step.hyps(2)
    proof cases
      case (send j)
      with reach_step.IH have "j = i" by (auto simp: stop_inv_def waiter_ok_def)
      with send reach_step.IH show ?thesis by simp
    qed (use reach_step.IH in \<open>auto simp: nth_list_update\<close>)
    ultimately show ?case by blast
  qed
  then show ?thesis ..
qed

theorem WaitUntilStopped_deadlock_witness:
  "\<exists>s. reach (stop_step True) running s \<and> mu s = Some 0 \<and> waiters s = [(RReturn, GSend)]"
proof -
  let ?a = "running\<lparr>waiters := [(RWait, GWait)]\<rparr>"
  let ?b = "running\<lparr>waiters := [(RReturn, GWait)]\<rparr>"
  let ?c = "?b\<lparr>cancelled := True\<rparr>"
  let ?d = "?b\<lparr>cancelled := True, stopped := True\<rparr>"
  let ?s = "?d\<lparr>mu := Some 0, svc := False, waiters := [(RReturn, GSend)]\<rparr>"
  have st: "stop_step True running ?a" "stop_step True ?a ?b" "stop_step True ?b ?c" "stop_step True ?c ?d" "stop_step True ?d ?s"
    using stop_step.call[of running True] stop_step.give_up[of True 0 ?a GWait] stop_step.stop[of ?b True]
      stop_step.ended[of ?c True] stop_step.lock[of 0 ?d RReturn True]
    by (simp_all add: running_def)
  have r: "reach (stop_step True) running ?s"
    by (rule reach_step, rule reach_step, rule reach_step, rule reach_step, rule reach_step, rule reach_refl) (rule st)+
  have "mu ?s = Some 0" by (rule WaitUntilStopped_deadlock[OF r _ _ reach_refl]) simp_all
  with r show ?thesis by (intro exI[of _ ?s]) simp
qed

end
