(* ===== verification/Tgz.thy ===== *)
theory Tgz
  imports GoPath
begin

text \<open>
  Packing a directory into a compressed archive and unpacking it again, \<open>src/pkg/backup/tgz.go\<close>.

  A file system is a map from clean absolute paths (as lists of names, without symbolic links) to nodes. The archive
  is the list of its tar entries: compression and the tar format carry them unchanged. Errors of the operating system, the
  archive writer and the reader can occur at every call: the environments say where they do.
\<close>

section \<open>Files\<close>

datatype fnode = FDir | FFile nat bytes

type_synonym fs = "string list \<Rightarrow> fnode option"

datatype tgz_error =
  ErrDirNotExist | Eisdir | Enoent | Enotdir | Eother string | ErrWriteTooLong | ErrMissed | BadType char string

definition is_dir :: "fs \<Rightarrow> string list \<Rightarrow> bool" where
  "is_dir fs p \<longleftrightarrow> p = [] \<or> fs p = Some FDir"

definition abs_elems :: "string \<Rightarrow> string list" where
  "abs_elems p = rev (clean_stack True [] (Split Separator p))"

text \<open>\<open>os.Create\<close> truncates a file or makes one in an existing directory.\<close>

definition os_Create :: "fs \<Rightarrow> string list \<Rightarrow> tgz_error + fs" where
  "os_Create fs p =
     (if is_dir fs p then Inl Eisdir
      else if \<not> is_dir fs (butlast p) then Inl (if fs (butlast p) = None then Enoent else Enotdir)
      else Inr (fs(p \<mapsto> FFile (case fs p of Some (FFile m _) \<Rightarrow> m | _ \<Rightarrow> 438) [])))"

definition os_Chmod :: "nat \<Rightarrow> string list \<Rightarrow> fs \<Rightarrow> fs" where
  "os_Chmod m p fs = (case fs p of Some (FFile _ d) \<Rightarrow> fs(p \<mapsto> FFile m d) | _ \<Rightarrow> fs)"

definition file_write :: "bytes \<Rightarrow> string list \<Rightarrow> fs \<Rightarrow> fs" where
  "file_write b p fs = (case fs p of Some (FFile m d) \<Rightarrow> fs(p \<mapsto> FFile m (d @ b)) | _ \<Rightarrow> fs)"

definition os_MkdirAll :: "fs \<Rightarrow> string list \<Rightarrow> tgz_error + fs" where
  "os_MkdirAll fs p =
     (let qs = map (\<lambda>k. take k p) [1..<Suc (length p)] in
      if list_all (\<lambda>q. case fs q of Some (FFile _ _) \<Rightarrow> False | _ \<Rightarrow> True) qs
      then Inr (fold (\<lambda>q fs. if fs q = None then fs(q \<mapsto> FDir) else fs) qs fs) else Inl Enotdir)"

section \<open>Archives\<close>

definition TypeReg :: char where "TypeReg = CHR ''0''"
definition TypeDir :: char where "TypeDir = CHR ''5''"

record tar_entry =
  tName :: string
  tMode :: nat
  tSize :: nat
  tType :: char
  tData :: bytes

text \<open>
  \<open>tar.Writer\<close>: the entries, and how many bytes the last one still lacks. A header is refused before that, as is more data than the
  header announced.
\<close>

record tar_writer =
  twEntries :: "tar_entry list"
  twLeft :: nat

definition NewWriter :: tar_writer where "NewWriter = \<lparr>twEntries = [], twLeft = 0\<rparr>"

definition tw_WriteHeader :: "tar_entry \<Rightarrow> tar_writer \<Rightarrow> tgz_error + tar_writer" where
  "tw_WriteHeader h w =
     (if twLeft w > 0 then Inl ErrMissed else Inr \<lparr>twEntries = twEntries w @ [h], twLeft = tSize h\<rparr>)"

definition tw_append :: "bytes \<Rightarrow> tar_writer \<Rightarrow> tar_writer" where
  "tw_append b w = (case rev (twEntries w) of [] \<Rightarrow> w
     | h # hs \<Rightarrow> \<lparr>twEntries = rev hs @ [h\<lparr>tData := tData h @ b\<rparr>], twLeft = twLeft w - length b\<rparr>)"

definition tw_Write :: "bytes \<Rightarrow> tar_writer \<Rightarrow> tgz_error option \<times> tar_writer" where
  "tw_Write b w =
     (if length b \<le> twLeft w then (None, tw_append b w) else (Some ErrWriteTooLong, tw_append (take (twLeft w) b) w))"

definition tw_Close :: "tar_writer \<Rightarrow> tgz_error option" where
  "tw_Close w = (if twLeft w > 0 then Some ErrMissed else None)"

section \<open>TgzBuffer\<close>

datatype stat_result = StatErr | StatFile | StatDir

text \<open>What \<open>filepath.Walk\<close> reports of one path.\<close>

record walk_info =
  wiPath :: string
  wiErr :: "string option"
  wiRegular :: bool
  wiSize :: nat

record tgz_env =
  teStat :: "string \<Rightarrow> stat_result"
  teWalk :: "string \<Rightarrow> walk_info list"
  teHeader :: "string \<Rightarrow> string option"
  teOpen :: "string \<Rightarrow> string + bytes"
  teCopy :: "string \<Rightarrow> string option"
  teClose :: "string option"

text \<open>\<open>None\<close> in the place of an error stands for nil; the outcome has a case for the panic of slicing a path out of range.\<close>

datatype tgz_out = TgzRet "tgz_error option" | TgzPanic

definition tgz_file :: "tgz_env \<Rightarrow> nat \<Rightarrow> walk_info \<Rightarrow> tar_writer \<Rightarrow> tgz_out \<times> tar_writer" where
  "tgz_file E rootLen i w =
     (case wiErr i of Some e \<Rightarrow> (TgzRet (Some (Eother e)), w) | None \<Rightarrow>
      if \<not> wiRegular i then (TgzRet None, w)
      else if rootLen > length (wiPath i) then (TgzPanic, w)
      else let h = \<lparr>tName = drop rootLen (wiPath i), tMode = 384, tSize = wiSize i, tType = TypeReg, tData = []\<rparr> in
     (case teHeader E (wiPath i) of Some e \<Rightarrow> (TgzRet (Some (Eother e)), w) | None \<Rightarrow>
     (case tw_WriteHeader h w of Inl e \<Rightarrow> (TgzRet (Some e), w) | Inr w \<Rightarrow>
     (case teOpen E (wiPath i) of Inl e \<Rightarrow> (TgzRet (Some (Eother e)), w) | Inr b \<Rightarrow>
     (case teCopy E (wiPath i) of Some e \<Rightarrow> (TgzRet (Some (Eother e)), w)
      | None \<Rightarrow> (case tw_Write b w of (e, w) \<Rightarrow> (TgzRet e, w)))))))"

fun tgz_walk :: "tgz_env \<Rightarrow> nat \<Rightarrow> walk_info list \<Rightarrow> tar_writer \<Rightarrow> tgz_out \<times> tar_writer" where
  "tgz_walk E rootLen [] w = (TgzRet None, w)"
| "tgz_walk E rootLen (i # is) w =
     (case tgz_file E rootLen i w of
        (TgzRet None, w) \<Rightarrow> tgz_walk E rootLen is w
      | (r, w) \<Rightarrow> (r, w))"

text \<open>The outcome, and the archive written, if writing it was begun.\<close>

definition TgzBuffer :: "tgz_env \<Rightarrow> string \<Rightarrow> tgz_out \<times> tar_writer option" where
  "TgzBuffer E root =
     (let root = path_Clean root in
      case teStat E root of
        StatErr \<Rightarrow> (TgzRet None, None)
      | StatFile \<Rightarrow> (TgzRet (Some ErrDirNotExist), None)
      | StatDir \<Rightarrow>
          let rootLen = root_len root in
          (case tgz_walk E rootLen (teWalk E root) NewWriter of
             (TgzRet None, w) \<Rightarrow>
               (TgzRet (case tw_Close w of Some e \<Rightarrow> Some e | None \<Rightarrow> map_option Eother (teClose E)), Some w)
           | (r, w) \<Rightarrow> (r, Some w)))"

section \<open>UnTgzBuffer\<close>

datatype fs_call = CallCreate | CallChmod | CallCopy | CallClose | CallMkdirAll

record untgz_env =
  ueReader :: "string option"
  ueFail :: "fs_call \<Rightarrow> string \<Rightarrow> string option"
  ueClose :: "string option"

definition untar :: "untgz_env \<Rightarrow> string \<Rightarrow> tar_entry \<Rightarrow> fs \<Rightarrow> tgz_error option \<times> fs" where
  "untar U fsPath h fs =
     (let p = abs_elems fsPath; call = (\<lambda>c. map_option Eother (ueFail U c fsPath)) in
      case call CallCreate of Some e \<Rightarrow> (Some e, fs) | None \<Rightarrow>
     (case os_Create fs p of Inl e \<Rightarrow> (Some e, fs) | Inr fs \<Rightarrow>
     (case call CallChmod of Some e \<Rightarrow> (Some e, fs) | None \<Rightarrow>
      let fs = os_Chmod (tMode h) p fs in
     (case call CallCopy of Some e \<Rightarrow> (Some e, fs)
      | None \<Rightarrow> (call CallClose, file_write (tData h) p fs)))))"

fun untar_loop :: "untgz_env \<Rightarrow> string \<Rightarrow> tar_entry list \<Rightarrow> string option \<Rightarrow> fs \<Rightarrow> tgz_error option \<times> fs" where
  "untar_loop U dst [] eof fs = (map_option Eother eof, fs)"
| "untar_loop U dst (h # hs) eof fs =
     (let fsPath = path_Join [dst, tName h] in
      case (if tType h = TypeDir
            then (case ueFail U CallMkdirAll fsPath of Some e \<Rightarrow> (Some (Eother e), fs)
              | None \<Rightarrow> (case os_MkdirAll fs (abs_elems fsPath) of Inl e \<Rightarrow> (Some e, fs) | Inr fs \<Rightarrow> (None, fs)))
            else if tType h = TypeReg then untar U fsPath h fs
            else (Some (BadType (tType h) fsPath), fs)) of
        (None, fs) \<Rightarrow> untar_loop U dst hs eof fs
      | (Some e, fs) \<Rightarrow> (Some e, fs))"

text \<open>The archive is what the reader gives: its entries, and the error after them, if any.\<close>

definition UnTgzBuffer :: "untgz_env \<Rightarrow> string \<Rightarrow> tar_entry list \<times> string option \<Rightarrow> fs \<Rightarrow> tgz_error option \<times> fs" where
  "UnTgzBuffer U dst archive fs =
     (case ueReader U of Some e \<Rightarrow> (Some (Eother e), fs)
      | None \<Rightarrow> (case untar_loop U (path_Clean dst) (fst archive) (snd archive) fs of
           (Some e, fs) \<Rightarrow> (Some e, fs)
         | (None, fs) \<Rightarrow> (map_option Eother (ueClose U), fs)))"

section \<open>Unpacking regular files\<close>

lemma abs_elems_abs_path: "list_all plain_elem es \<Longrightarrow> abs_elems (abs_path es) = es"
  by (cases "es = []") (simp_all add: abs_elems_def Split_abs_path clean_stack_plain, simp add: abs_path_def)

text \<open>An entry for a file below the archive's root, and the environment without errors of its own.\<close>

definition file_entry :: "string list \<times> bytes \<Rightarrow> tar_entry" where
  "file_entry f = \<lparr>tName = Join [Separator] (fst f), tMode = 384, tSize = length (snd f), tType = TypeReg, tData = snd f\<rparr>"

definition no_fail :: untgz_env where
  "no_fail = \<lparr>ueReader = None, ueFail = (\<lambda>_ _. None), ueClose = None\<rparr>"

text \<open>Where a file can be created: in an existing directory, and not in the place of one.\<close>

definition creatable :: "fs \<Rightarrow> string list \<Rightarrow> bool" where
  "creatable fs p \<longleftrightarrow> \<not> is_dir fs p \<and> is_dir fs (butlast p)"

definition rel_path :: "string list \<Rightarrow> bool" where
  "rel_path es \<longleftrightarrow> es \<noteq> [] \<and> list_all plain_elem es"

lemma untar_file:
  assumes "list_all plain_elem d" "rel_path (fst f)"
  shows "untar no_fail (path_Join [abs_path d, tName (file_entry f)]) (file_entry f) fs =
    (if creatable fs (d @ fst f) then (None, fs(d @ fst f \<mapsto> FFile 384 (snd f)))
     else (Some (if is_dir fs (d @ fst f) then Eisdir else if fs (butlast (d @ fst f)) = None then Enoent else Enotdir), fs))"
proof -
  have "abs_elems (path_Join [abs_path d, tName (file_entry f)]) = d @ fst f"
    using assms by (simp add: file_entry_def rel_path_def Join_plain abs_elems_abs_path)
  then show ?thesis
    by (simp add: untar_def no_fail_def os_Create_def os_Chmod_def file_write_def creatable_def file_entry_def)
qed

lemma is_dir_file: "\<not> is_dir fs p \<Longrightarrow> is_dir (fs(p \<mapsto> FFile m b)) q = is_dir fs q"
  by (auto simp: is_dir_def)

lemma creatable_file: "creatable fs p \<Longrightarrow> creatable (fs(p \<mapsto> FFile m b)) q = creatable fs q"
  by (auto simp: creatable_def is_dir_file)

definition put_files :: "string list \<Rightarrow> (string list \<times> bytes) list \<Rightarrow> fs \<Rightarrow> fs" where
  "put_files d files fs = fold (\<lambda>f fs. fs(d @ fst f \<mapsto> FFile 384 (snd f))) files fs"

text \<open>Unpacking regular files succeeds exactly when each can be created in what was there before.\<close>

lemma untar_files:
  assumes d: "list_all plain_elem d" and "\<forall>f \<in> set files. rel_path (fst f)"
  shows "(if \<forall>f \<in> set files. creatable fs (d @ fst f)
    then untar_loop no_fail (abs_path d) (map file_entry files) None fs = (None, put_files d files fs)
    else \<exists>e. fst (untar_loop no_fail (abs_path d) (map file_entry files) None fs) = Some e)"
  using assms(2)
proof (induction files arbitrary: fs)
  case (Cons f files)
  have t: "tType (file_entry f) = TypeReg" "TypeReg \<noteq> TypeDir" by (simp_all add: file_entry_def TypeReg_def TypeDir_def)
  show ?case
  proof (cases "creatable fs (d @ fst f)")
    case True
    let ?fs = "fs(d @ fst f \<mapsto> FFile 384 (snd f))"
    have "untar_loop no_fail (abs_path d) (map file_entry (f # files)) None fs =
        untar_loop no_fail (abs_path d) (map file_entry files) None ?fs"
      using Cons.prems True t by (simp add: untar_file[OF d] Let_def)
    moreover have c: "creatable ?fs = creatable fs" using creatable_file[OF True] by blast
    moreover have "(\<forall>g \<in> set (f # files). creatable fs (d @ fst g)) \<longleftrightarrow> (\<forall>g \<in> set files. creatable fs (d @ fst g))" using True by simp
    moreover have "\<forall>g \<in> set files. rel_path (fst g)" using Cons.prems by simp
    moreover have "put_files d (f # files) fs = put_files d files ?fs" by (simp add: put_files_def)
    ultimately show ?thesis using Cons.IH[of ?fs] by (simp only: c)
  next
    case False
    with Cons.prems t show ?thesis by (simp add: untar_file[OF d] Let_def)
  qed
qed (simp add: put_files_def)

lemma put_files_lookup:
  "distinct (map fst files) \<Longrightarrow> put_files d files fs p =
    (if \<exists>f \<in> set files. p = d @ fst f then Some (FFile 384 (the (map_of files (drop (length d) p)))) else fs p)"
proof (induction files arbitrary: fs)
  case (Cons f files)
  have out: "\<not> (\<exists>g \<in> set files. fst g = fst f)" using Cons.prems by (auto simp: image_iff)
  have "put_files d (f # files) fs p = put_files d files (fs(d @ fst f \<mapsto> FFile 384 (snd f))) p" by (simp add: put_files_def)
  also have "\<dots> = (if \<exists>g \<in> set files. p = d @ fst g then Some (FFile 384 (the (map_of files (drop (length d) p))))
      else (fs(d @ fst f \<mapsto> FFile 384 (snd f))) p)"
    using Cons.IH Cons.prems by simp
  finally show ?case using out by (cases f) auto
qed (simp add: put_files_def)

section \<open>Packing a directory\<close>

text \<open>
  What \<open>Stat\<close>, \<open>Walk\<close> and \<open>Open\<close> report of an unchanging directory \<open>r\<close>: the walk visits every regular file below it
  once (beside directories and other nodes), without errors.
\<close>

definition reads_dir :: "tgz_env \<Rightarrow> fs \<Rightarrow> string list \<Rightarrow> (string list \<times> bytes) list \<Rightarrow> bool" where
  "reads_dir E fs r files \<longleftrightarrow>
     teStat E (abs_path r) = StatDir \<and> teClose E = None \<and> (\<forall>p. teHeader E p = None \<and> teCopy E p = None) \<and>
     (\<forall>i \<in> set (teWalk E (abs_path r)). wiErr i = None) \<and>
     map wiPath (filter wiRegular (teWalk E (abs_path r))) = map (\<lambda>f. abs_path (r @ fst f)) files \<and>
     map wiSize (filter wiRegular (teWalk E (abs_path r))) = map (\<lambda>f. length (snd f)) files \<and>
     (\<forall>f \<in> set files. rel_path (fst f) \<and> teOpen E (abs_path (r @ fst f)) = Inr (snd f)) \<and>
     distinct (map fst files) \<and>
     (\<forall>es b. (\<exists>m. fs (r @ es) = Some (FFile m b)) \<longleftrightarrow> (es, b) \<in> set files)"

lemma tgz_walk_files:
  assumes "\<forall>i \<in> set is. wiErr i = None" "\<forall>p. teHeader E p = None \<and> teCopy E p = None"
    "map wiPath (filter wiRegular is) = map (\<lambda>f. path f) files" "map wiSize (filter wiRegular is) = map (\<lambda>f. length (snd f)) files"
    "\<forall>f \<in> set files. n \<le> length (path f) \<and> drop n (path f) = Join [Separator] (fst f) \<and> teOpen E (path f) = Inr (snd f)"
    "twLeft w = 0"
  shows "tgz_walk E n is w = (TgzRet None, \<lparr>twEntries = twEntries w @ map file_entry files, twLeft = 0\<rparr>)"
  using assms
proof (induction "is" arbitrary: files w)
  case (Cons i "is")
  show ?case
  proof (cases "wiRegular i")
    case False
    with Cons show ?thesis by (simp add: tgz_file_def)
  next
    case True
    with Cons.prems(3) obtain f fs where f: "files = f # fs" by (cases files) auto
    with True Cons.prems have i: "wiPath i = path f" "wiSize i = length (snd f)" by auto
    let ?w = "\<lparr>twEntries = twEntries w @ [file_entry f], twLeft = 0\<rparr>"
    have "tgz_file E n i w = (TgzRet None, ?w)"
      using Cons.prems True i f
      by (simp add: tgz_file_def tw_WriteHeader_def tw_Write_def tw_append_def file_entry_def Let_def)
    with Cons.IH[of fs ?w] Cons.prems True f show ?thesis by simp
  qed
qed simp

lemma TgzBuffer_files:
  assumes r: "list_all plain_elem r" and E: "reads_dir E fs r files"
  shows "TgzBuffer E (abs_path r) = (TgzRet None, Some \<lparr>twEntries = map file_entry files, twLeft = 0\<rparr>)"
proof -
  let ?n = "root_len (abs_path r)"
  have "tgz_walk E ?n (teWalk E (abs_path r)) NewWriter = (TgzRet None, \<lparr>twEntries = map file_entry files, twLeft = 0\<rparr>)"
    using tgz_walk_files[of "teWalk E (abs_path r)" E "\<lambda>f. abs_path (r @ fst f)" files ?n NewWriter] E root_len_drop[OF _ r]
    unfolding reads_dir_def by (simp add: NewWriter_def rel_path_def)
  with E r show ?thesis
    unfolding reads_dir_def TgzBuffer_def by (simp add: Clean_abs_path tw_Close_def Let_def)
qed

lemma UnTgzBuffer_files:
  assumes "list_all plain_elem d" "reads_dir E fs r files"
  shows "if \<forall>es b. (\<exists>m. fs (r @ es) = Some (FFile m b)) \<longrightarrow> creatable fs' (d @ es)
     then \<exists>fs2. UnTgzBuffer no_fail (abs_path d) (map file_entry files, None) fs' = (None, fs2) \<and>
       (\<forall>es m b. fs (r @ es) = Some (FFile m b) \<longrightarrow> fs2 (d @ es) = Some (FFile 384 b)) \<and>
       (\<forall>p. (\<forall>es m b. fs (r @ es) = Some (FFile m b) \<longrightarrow> p \<noteq> d @ es) \<longrightarrow> fs2 p = fs' p)
     else \<exists>e. fst (UnTgzBuffer no_fail (abs_path d) (map file_entry files, None) fs') = Some e"
proof -
  have f: "(\<exists>m. fs (r @ es) = Some (FFile m b)) \<longleftrightarrow> (es, b) \<in> set files" for es b
    using assms(2) unfolding reads_dir_def by blast
  have rel: "\<forall>f \<in> set files. rel_path (fst f)" and dist: "distinct (map fst files)"
    using assms(2) unfolding reads_dir_def by blast+
  have all: "(\<forall>es b. (\<exists>m. fs (r @ es) = Some (FFile m b)) \<longrightarrow> creatable fs' (d @ es)) \<longleftrightarrow> (\<forall>f \<in> set files. creatable fs' (d @ fst f))"
    unfolding f by auto
  have un: "UnTgzBuffer no_fail (abs_path d) (map file_entry files, None) fs' =
      untar_loop no_fail (abs_path d) (map file_entry files) None fs'"
    using assms(1) by (auto simp: UnTgzBuffer_def no_fail_def Clean_abs_path split: prod.splits option.splits)
  have look: "put_files d files fs' (d @ es) = Some (FFile 384 b)" if "fs (r @ es) = Some (FFile m b)" for es m b
  proof -
    have "(es, b) \<in> set files" using that f by blast
    then show ?thesis using put_files_lookup[OF dist, of d fs' "d @ es"] map_of_is_SomeI[OF dist] by force
  qed
  have other: "put_files d files fs' p = fs' p" if "\<forall>es m b. fs (r @ es) = Some (FFile m b) \<longrightarrow> p \<noteq> d @ es" for p
  proof -
    have "\<not> (\<exists>g \<in> set files. p = d @ fst g)" using that f by (metis prod.collapse)
    then show ?thesis using put_files_lookup[OF dist, of d fs' p] by simp
  qed
  show "if \<forall>es b. (\<exists>m. fs (r @ es) = Some (FFile m b)) \<longrightarrow> creatable fs' (d @ es)
     then \<exists>fs2. UnTgzBuffer no_fail (abs_path d) (map file_entry files, None) fs' = (None, fs2) \<and>
       (\<forall>es m b. fs (r @ es) = Some (FFile m b) \<longrightarrow> fs2 (d @ es) = Some (FFile 384 b)) \<and>
       (\<forall>p. (\<forall>es m b. fs (r @ es) = Some (FFile m b) \<longrightarrow> p \<noteq> d @ es) \<longrightarrow> fs2 p = fs' p)
     else \<exists>e. fst (UnTgzBuffer no_fail (abs_path d) (map file_entry files, None) fs') = Some e"
  proof (cases "\<forall>f \<in> set files. creatable fs' (d @ fst f)")
    case True
    with untar_files[OF assms(1) rel, of fs'] have
      "UnTgzBuffer no_fail (abs_path d) (map file_entry files, None) fs' = (None, put_files d files fs')" by (simp add: un)
    with True look other show ?thesis unfolding all by (metis (no_types, lifting))
  next
    case False
    with untar_files[OF assms(1) rel, of fs'] show ?thesis unfolding all un by (simp only: if_False)
  qed
qed


text \<open>
  C8: the archive of a directory, unpacked into another, gives each file its content again, readable by its owner only, and
  changes nothing else; this works exactly when the directory of every file is already there (and no directory stands in the
  place of a file), because the archive has no entries for directories. Otherwise unpacking ends in an error.
\<close>

theorem tgz_restore:
  assumes "list_all plain_elem r" "list_all plain_elem d" "reads_dir E fs r files"
  shows "TgzBuffer E (abs_path r) = (TgzRet None, Some \<lparr>twEntries = map file_entry files, twLeft = 0\<rparr>) \<and>
    (if \<forall>es b. (\<exists>m. fs (r @ es) = Some (FFile m b)) \<longrightarrow> creatable fs' (d @ es)
     then \<exists>fs2. UnTgzBuffer no_fail (abs_path d) (map file_entry files, None) fs' = (None, fs2) \<and>
       (\<forall>es m b. fs (r @ es) = Some (FFile m b) \<longrightarrow> fs2 (d @ es) = Some (FFile 384 b)) \<and>
       (\<forall>p. (\<forall>es m b. fs (r @ es) = Some (FFile m b) \<longrightarrow> p \<noteq> d @ es) \<longrightarrow> fs2 p = fs' p)
     else \<exists>e. fst (UnTgzBuffer no_fail (abs_path d) (map file_entry files, None) fs') = Some e)"
  using TgzBuffer_files[OF assms(1,3)] UnTgzBuffer_files[OF assms(2,3)] by (rule conjI)

text \<open>The directory \<open>/h\<close> with a file and a file in a subdirectory, and two places to restore it to.\<close>

definition example_files :: "(string list \<times> bytes) list" where
  "example_files = [([''a''], [1]), ([''s'', ''b''], [2, 3])]"

definition example_fs :: fs where
  "example_fs p = (if p = [''h''] \<or> p = [''h'', ''s''] then Some FDir
     else if p = [''h'', ''a''] then Some (FFile 420 [1]) else if p = [''h'', ''s'', ''b''] then Some (FFile 420 [2, 3]) else None)"

definition example_tgz_env :: tgz_env where
  "example_tgz_env = \<lparr>teStat = (\<lambda>_. StatDir),
     teWalk = (\<lambda>_. [\<lparr>wiPath = ''/h'', wiErr = None, wiRegular = False, wiSize = 0\<rparr>,
       \<lparr>wiPath = ''/h/a'', wiErr = None, wiRegular = True, wiSize = 1\<rparr>,
       \<lparr>wiPath = ''/h/s'', wiErr = None, wiRegular = False, wiSize = 0\<rparr>,
       \<lparr>wiPath = ''/h/s/b'', wiErr = None, wiRegular = True, wiSize = 2\<rparr>]),
     teHeader = (\<lambda>_. None), teOpen = (\<lambda>p. if p = ''/h/a'' then Inr [1] else Inr [2, 3]), teCopy = (\<lambda>_. None), teClose = None\<rparr>"

lemma example_reads_dir: "reads_dir example_tgz_env example_fs [''h''] example_files"
  by (auto simp: reads_dir_def example_tgz_env_def example_fs_def example_files_def abs_path_def rel_path_def plain_elem_def Separator_def)

definition empty_dir :: fs where "empty_dir p = (if p = [''d''] then Some FDir else None)"
definition with_sub :: fs where "with_sub p = (if p = [''d''] \<or> p = [''d'', ''s''] then Some FDir else None)"

theorem tgz_restore_witness:
  "(\<exists>fs2. UnTgzBuffer no_fail ''/d'' (map file_entry example_files, None) with_sub = (None, fs2) \<and>
      fs2 [''d'', ''s'', ''b''] = Some (FFile 384 [2, 3])) \<and>
   (\<exists>e. fst (UnTgzBuffer no_fail ''/d'' (map file_entry example_files, None) empty_dir) = Some e)"
proof
  have p: "list_all plain_elem [''h'']" "list_all plain_elem [''d'']" "abs_path [''d''] = ''/d''"
    by (simp_all add: plain_elem_def Separator_def abs_path_def)
  have "\<forall>es b. (\<exists>m. example_fs ([''h''] @ es) = Some (FFile m b)) \<longrightarrow> creatable with_sub ([''d''] @ es)"
    by (auto simp: example_fs_def creatable_def is_dir_def with_sub_def split: if_splits)
  moreover have b: "example_fs ([''h''] @ [''s'', ''b'']) = Some (FFile 420 [2, 3])" by (simp add: example_fs_def)
  ultimately show "\<exists>fs2. UnTgzBuffer no_fail ''/d'' (map file_entry example_files, None) with_sub = (None, fs2) \<and>
      fs2 [''d'', ''s'', ''b''] = Some (FFile 384 [2, 3])"
    using tgz_restore[OF p(1,2) example_reads_dir, where fs' = with_sub] unfolding p(3) by fastforce
  have "\<not> creatable empty_dir ([''d''] @ [''s'', ''b''])" by (simp add: creatable_def is_dir_def empty_dir_def)
  with b show "\<exists>e. fst (UnTgzBuffer no_fail ''/d'' (map file_entry example_files, None) empty_dir) = Some e"
    using tgz_restore[OF p(1,2) example_reads_dir, where fs' = empty_dir] unfolding p(3) by (metis (no_types, lifting))
qed

section \<open>What goes wrong\<close>

text \<open>A directory that cannot be examined is packed as nothing at all, without an error.\<close>

lemma TgzBuffer_hides_stat_error: "teStat E (path_Clean root) = StatErr \<Longrightarrow> TgzBuffer E root = (TgzRet None, None)"
  by (simp add: TgzBuffer_def Let_def)

text \<open>The name of an entry can lead out of the directory it is unpacked to.\<close>

lemma UnTgzBuffer_escapes:
  "\<exists>fs2. UnTgzBuffer no_fail ''/d'' ([\<lparr>tName = ''../x'', tMode = 384, tSize = 1, tType = TypeReg, tData = [7]\<rparr>], None) empty_dir = (None, fs2) \<and>
     fs2 [''x''] = Some (FFile 384 [7])"
proof -
  have c: "path_Clean ''/d'' = ''/d''" "path_Join [''/d'', ''../x''] = ''/x''" "abs_elems ''/x'' = [''x'']" by code_simp+
  then show ?thesis
    by (simp add: UnTgzBuffer_def untar_def no_fail_def os_Create_def os_Chmod_def file_write_def is_dir_def empty_dir_def
        TypeReg_def TypeDir_def)
qed

end
