(* ===== verification/CryptoPipeline.thy ===== *)
theory CryptoPipeline
  imports Netutil
begin

text \<open>
  \<open>src/pkg/cryptofile/writerto.go\<close>: the three goroutines of \<open>WriteTo\<close> as a transition system.

  The caller reads blocks and sends them on \<open>cryptCh\<close>; \<open>cryptLoop\<close> encrypts or decrypts each and
  passes it on to \<open>writeCh\<close>; \<open>writeLoop\<close> writes it out. Both channels are bounded and first in,
  first out. \<open>cryptErrCh\<close> and \<open>doneCh\<close> are unbuffered: a send and its receive are one step.
  \<open>cancelCh\<close> is only ever closed. A \<open>select\<close> is one rule per ready case, so the scheduler and the
  choice of the \<open>select\<close> are the nondeterminism of the relation.

  The machine is generic in what a block is; \<open>Cryptofile\<close> instantiates it. The lemmas show that
  every run of \<open>WriteTo\<close> ends, that only a prefix of the right output is ever written, and that
  an end without error means that all of it was.
\<close>

section \<open>The machine\<close>

text \<open>The result of reading one block: a full one, the last short one, or none and the error.\<close>

datatype 'b next_res = Full 'b | Last 'b | NoMore io_error

text \<open>
  What the machine is given: reading (with the buffer pool), encrypting or decrypting a block,
  the bytes to write for it, what a write of \<open>n\<close> bytes adds to \<open>nn\<close>, and the capacity of the
  channels.
\<close>

record ('s, 'b) pipe_ops =
  p_next :: "'s \<Rightarrow> 'b next_res \<times> 's"
  p_crypt :: "'b \<Rightarrow> io_error + 'b"
  p_result :: "'b \<Rightarrow> bytes"
  p_delta :: "nat \<Rightarrow> int"
  p_cap :: nat

text \<open>Where each goroutine is. \<open>MRet\<close> holds the error \<open>WriteTo\<close> returns, \<open>WDone\<close> the one being sent.\<close>

datatype 'b main_pc = MRead | MSend 'b | MSendLast 'b | MWaitDone "io_error option" | MRet "io_error option"
datatype 'b crypt_pc = CRecv | CSend 'b | CErr io_error | CExit
datatype writer_pc = WRecv | WDone "io_error option" | WExit

record ('s, 'b) pipe =
  pmain :: "'b main_pc"
  pcrypt :: "'b crypt_pc"
  pwriter :: writer_pc
  psrc :: 's
  pcryptCh :: "'b list"
  pcryptClosed :: bool
  pwriteCh :: "'b list"
  pwriteClosed :: bool
  pcancelled :: bool
  pdeferred :: bool
  pout :: bytes
  pnn :: int
  ppanic :: bool

text \<open>
  \<open>pdeferred\<close>: the deferred \<open>close(cryptErrCh)\<close> and \<open>close(doneCh)\<close> of \<open>WriteTo\<close> have run.
  \<open>fails\<close> says whether the destination may return write errors.
\<close>

inductive pipe_step :: "('s, 'b) pipe_ops \<Rightarrow> bool \<Rightarrow> ('s, 'b) pipe \<Rightarrow> ('s, 'b) pipe \<Rightarrow> bool"
  for ops fails where
  m_read_full: "pmain st = MRead \<Longrightarrow> p_next ops (psrc st) = (Full b, s') \<Longrightarrow>
     pipe_step ops fails st (st\<lparr>pmain := MSend b, psrc := s'\<rparr>)"
| m_read_last: "pmain st = MRead \<Longrightarrow> p_next ops (psrc st) = (Last b, s') \<Longrightarrow>
     pipe_step ops fails st (st\<lparr>pmain := MSendLast b, psrc := s'\<rparr>)"
| m_read_eof: "pmain st = MRead \<Longrightarrow> p_next ops (psrc st) = (NoMore EOF, s') \<Longrightarrow>
     pipe_step ops fails st (st\<lparr>pmain := MWaitDone None, psrc := s', pcryptClosed := True\<rparr>)"
| m_read_err: "pmain st = MRead \<Longrightarrow> p_next ops (psrc st) = (NoMore e, s') \<Longrightarrow> e \<noteq> EOF \<Longrightarrow>
     pipe_step ops fails st (st\<lparr>pmain := MWaitDone (Some e), psrc := s', pcancelled := True\<rparr>)"
| m_send: "pmain st = MSend b \<Longrightarrow> length (pcryptCh st) < p_cap ops \<Longrightarrow>
     pipe_step ops fails st (st\<lparr>pmain := MRead, pcryptCh := pcryptCh st @ [b]\<rparr>)"
| m_send_done: "pmain st = MSend b \<Longrightarrow> pwriter st = WDone d \<Longrightarrow>
     pipe_step ops fails st (st\<lparr>pmain := MRet d, pwriter := WExit, pcancelled := True, pdeferred := True\<rparr>)"
| m_sendlast: "pmain st = MSendLast b \<Longrightarrow> length (pcryptCh st) < p_cap ops \<Longrightarrow>
     pipe_step ops fails st
       (st\<lparr>pmain := MWaitDone None, pcryptCh := pcryptCh st @ [b], pcryptClosed := True\<rparr>)"
| m_sendlast_done: "pmain st = MSendLast b \<Longrightarrow> pwriter st = WDone d \<Longrightarrow>
     pipe_step ops fails st (st\<lparr>pmain := MRet d, pwriter := WExit, pcancelled := True, pdeferred := True\<rparr>)"
| m_done: "pmain st = MWaitDone e \<Longrightarrow> pwriter st = WDone d \<Longrightarrow>
     pipe_step ops fails st
       (st\<lparr>pmain := MRet (if d \<noteq> None then d else e), pwriter := WExit, pdeferred := True\<rparr>)"
| c_recv_ok: "pcrypt st = CRecv \<Longrightarrow> pcryptCh st = b # bs \<Longrightarrow> p_crypt ops b = Inr b' \<Longrightarrow>
     pipe_step ops fails st (st\<lparr>pcrypt := CSend b', pcryptCh := bs\<rparr>)"
| c_recv_err: "pcrypt st = CRecv \<Longrightarrow> pcryptCh st = b # bs \<Longrightarrow> p_crypt ops b = Inl e \<Longrightarrow>
     pipe_step ops fails st (st\<lparr>pcrypt := CErr e, pcryptCh := bs\<rparr>)"
| c_closed: "pcrypt st = CRecv \<Longrightarrow> pcryptCh st = [] \<Longrightarrow> pcryptClosed st \<Longrightarrow>
     pipe_step ops fails st (st\<lparr>pcrypt := CExit, pwriteClosed := True\<rparr>)"
| c_cancel: "pcrypt st = CRecv \<Longrightarrow> pcancelled st \<Longrightarrow>
     pipe_step ops fails st (st\<lparr>pcrypt := CExit, pwriteClosed := True\<rparr>)"
| c_send: "pcrypt st = CSend b \<Longrightarrow> length (pwriteCh st) < p_cap ops \<Longrightarrow>
     pipe_step ops fails st (st\<lparr>pcrypt := CRecv, pwriteCh := pwriteCh st @ [b]\<rparr>)"
| c_send_cancel: "pcrypt st = CSend b \<Longrightarrow> pcancelled st \<Longrightarrow>
     pipe_step ops fails st (st\<lparr>pcrypt := CExit, pwriteClosed := True\<rparr>)"
| c_err: "pcrypt st = CErr e \<Longrightarrow> pwriter st = WRecv \<Longrightarrow>
     pipe_step ops fails st (st\<lparr>pcrypt := CExit, pwriteClosed := True, pwriter := WDone (Some e)\<rparr>)"
| c_err_cancel: "pcrypt st = CErr e \<Longrightarrow> pcancelled st \<Longrightarrow>
     pipe_step ops fails st (st\<lparr>pcrypt := CExit, pwriteClosed := True\<rparr>)"
| c_err_panic: "pcrypt st = CErr e \<Longrightarrow> pdeferred st \<Longrightarrow>
     pipe_step ops fails st (st\<lparr>pcrypt := CExit, ppanic := True\<rparr>)"
| w_recv: "pwriter st = WRecv \<Longrightarrow> pwriteCh st = b # bs \<Longrightarrow>
     pipe_step ops fails st (st\<lparr>pwriteCh := bs, pout := pout st @ p_result ops b,
       pnn := pnn st + p_delta ops (length (p_result ops b))\<rparr>)"
| w_recv_err: "fails \<Longrightarrow> pwriter st = WRecv \<Longrightarrow> pwriteCh st = b # bs \<Longrightarrow> n \<le> length (p_result ops b) \<Longrightarrow>
     pipe_step ops fails st (st\<lparr>pwriteCh := bs, pout := pout st @ take n (p_result ops b),
       pnn := pnn st + p_delta ops n, pwriter := WDone (Some e)\<rparr>)"
| w_closed: "pwriter st = WRecv \<Longrightarrow> pwriteCh st = [] \<Longrightarrow> pwriteClosed st \<Longrightarrow>
     pipe_step ops fails st (st\<lparr>pwriter := WDone None\<rparr>)"
| w_cancel: "pwriter st = WRecv \<Longrightarrow> pcancelled st \<Longrightarrow>
     pipe_step ops fails st (st\<lparr>pwriter := WDone None\<rparr>)"

text \<open>The state after \<open>WriteTo\<close> has written the header and started its goroutines.\<close>

definition pipe_start :: "'s \<Rightarrow> bytes \<Rightarrow> int \<Rightarrow> ('s, 'b) pipe" where
  "pipe_start s hdr nn0 = \<lparr>pmain = MRead, pcrypt = CRecv, pwriter = WRecv, psrc = s,
     pcryptCh = [], pcryptClosed = False, pwriteCh = [], pwriteClosed = False, pcancelled = False,
     pdeferred = False, pout = hdr, pnn = nn0, ppanic = False\<rparr>"

section \<open>What there is to read and to write\<close>

inductive reads :: "('s, 'b) pipe_ops \<Rightarrow> 's \<Rightarrow> 'b list \<Rightarrow> io_error \<Rightarrow> bool" for ops where
  reads_stop: "p_next ops s = (NoMore e, s') \<Longrightarrow> reads ops s [] e"
| reads_last: "p_next ops s = (Last b, s') \<Longrightarrow> reads ops s [b] EOF"
| reads_more: "p_next ops s = (Full b, s') \<Longrightarrow> reads ops s' bs e \<Longrightarrow> reads ops s (b # bs) e"

lemma reads_next:
  assumes "reads ops s bs e"
  shows "p_next ops s = (Full b, s') \<Longrightarrow> \<exists>bs'. bs = b # bs' \<and> reads ops s' bs' e"
    and "p_next ops s = (Last b, s') \<Longrightarrow> bs = [b] \<and> e = EOF"
    and "p_next ops s = (NoMore x, s') \<Longrightarrow> bs = [] \<and> e = x"
  using assms by (cases; simp)+

text \<open>The blocks that come out of \<open>cryptLoop\<close>: up to the first failure.\<close>

fun crypted :: "('s, 'b) pipe_ops \<Rightarrow> 'b list \<Rightarrow> 'b list" where
  "crypted ops [] = []"
| "crypted ops (b # bs) = (case p_crypt ops b of Inl e \<Rightarrow> [] | Inr b' \<Rightarrow> b' # crypted ops bs)"

definition all_crypted :: "('s, 'b) pipe_ops \<Rightarrow> 'b list \<Rightarrow> bool" where
  "all_crypted ops bs \<longleftrightarrow> list_all (\<lambda>b. is_ok (p_crypt ops b)) bs"

definition outbytes :: "('s, 'b) pipe_ops \<Rightarrow> 'b list \<Rightarrow> bytes" where
  "outbytes ops bs = concat (map (p_result ops) (crypted ops bs))"

definition counted :: "('s, 'b) pipe_ops \<Rightarrow> 'b list \<Rightarrow> int" where
  "counted ops bs = sum_list (map (\<lambda>b. p_delta ops (length (p_result ops b))) (crypted ops bs))"

lemma crypted_prefix:
  "map (p_crypt ops) c = map Inr d \<Longrightarrow> crypted ops (c @ r) = d @ crypted ops r"
  by (induction c arbitrary: d) auto

lemma crypted_all: "map (p_crypt ops) c = map Inr d \<Longrightarrow> all_crypted ops c"
  by (induction c arbitrary: d) (auto simp: all_crypted_def)

section \<open>Invariants\<close>

definition main_hand :: "('s, 'b) pipe \<Rightarrow> 'b list" where
  "main_hand st = (case pmain st of MSend b \<Rightarrow> [b] | MSendLast b \<Rightarrow> [b] | _ \<Rightarrow> [])"

definition crypt_hand :: "('s, 'b) pipe \<Rightarrow> (io_error + 'b) list" where
  "crypt_hand st = (case pcrypt st of CSend b \<Rightarrow> [Inr b] | CErr e \<Rightarrow> [Inl e] | _ \<Rightarrow> [])"

text \<open>What the caller still has to read, and the error it will meet at the end.\<close>

definition main_rest :: "('s, 'b) pipe_ops \<Rightarrow> io_error \<Rightarrow> ('s, 'b) pipe \<Rightarrow> 'b list \<Rightarrow> bool" where
  "main_rest ops e st rs =
     (case pmain st of
        MRead \<Rightarrow> reads ops (psrc st) rs e
      | MSend b \<Rightarrow> reads ops (psrc st) rs e
      | MSendLast b \<Rightarrow> rs = [] \<and> e = EOF
      | MWaitDone er \<Rightarrow> rs = [] \<and> e = (case er of None \<Rightarrow> EOF | Some x \<Rightarrow> x)
      | MRet er \<Rightarrow> True)"

text \<open>Which combinations of program counters, closed channels and cancellation occur.\<close>

definition control_inv :: "('s, 'b) pipe \<Rightarrow> bool" where
  "control_inv st \<longleftrightarrow>
     (pdeferred st \<longleftrightarrow> (\<exists>d. pmain st = MRet d)) \<and>
     (pwriter st = WExit \<longleftrightarrow> (\<exists>d. pmain st = MRet d)) \<and>
     (pwriteClosed st \<longrightarrow> pcrypt st = CExit) \<and>
     (pcrypt st = CExit \<longrightarrow> pwriteClosed st \<or> ppanic st) \<and>
     (ppanic st \<longrightarrow> pdeferred st) \<and>
     (case pmain st of
        MRead \<Rightarrow> \<not> pcryptClosed st \<and> \<not> pcancelled st
      | MSend b \<Rightarrow> \<not> pcryptClosed st \<and> \<not> pcancelled st
      | MSendLast b \<Rightarrow> \<not> pcryptClosed st \<and> \<not> pcancelled st
      | MWaitDone None \<Rightarrow> pcryptClosed st \<and> \<not> pcancelled st
      | MWaitDone (Some x) \<Rightarrow> pcancelled st \<and> x \<noteq> EOF
      | MRet d \<Rightarrow> True) \<and>
     (pcrypt st = CExit \<longrightarrow> pcancelled st \<or> (pcryptClosed st \<and> pcryptCh st = []) \<or>
        (\<exists>x. pwriter st = WDone (Some x)) \<or> (\<exists>d. pmain st = MRet d))"

text \<open>
  How what was written relates to the blocks \<open>bs\<close> of the input. While the writer runs, the blocks
  taken by \<open>cryptLoop\<close> are a prefix \<open>c\<close> of the input; those that came through are \<open>d\<close>, already
  written, followed by what is in \<open>writeCh\<close> and in its hand.
\<close>

definition complete :: "('s, 'b) pipe_ops \<Rightarrow> bytes \<Rightarrow> int \<Rightarrow> 'b list \<Rightarrow> io_error \<Rightarrow> ('s, 'b) pipe \<Rightarrow> bool" where
  "complete ops hdr nn0 bs e st \<longleftrightarrow> e = EOF \<and> all_crypted ops bs \<and>
     pout st = hdr @ outbytes ops bs \<and> pnn st = nn0 + counted ops bs"

definition stream_at ::
  "('s, 'b) pipe_ops \<Rightarrow> bytes \<Rightarrow> int \<Rightarrow> 'b list \<Rightarrow> ('s, 'b) pipe \<Rightarrow> 'b list \<Rightarrow> 'b list \<Rightarrow> 'b list \<Rightarrow> bool" where
  "stream_at ops hdr nn0 bs st rs c d \<longleftrightarrow> prefix c bs \<and>
     map (p_crypt ops) c = map Inr (d @ pwriteCh st) @ crypt_hand st \<and>
     pout st = hdr @ concat (map (p_result ops) d) \<and>
     pnn st = nn0 + sum_list (map (\<lambda>b. p_delta ops (length (p_result ops b))) d) \<and>
     (\<not> pcancelled st \<or> pcrypt st \<noteq> CExit \<longrightarrow> bs = c @ pcryptCh st @ main_hand st @ rs)"

definition error_ok :: "('s, 'b) pipe_ops \<Rightarrow> bool \<Rightarrow> 'b list \<Rightarrow> io_error \<Rightarrow> io_error \<Rightarrow> bool" where
  "error_ok ops fails bs e x \<longleftrightarrow>
     fails \<or> (x = e \<and> e \<noteq> EOF) \<or> (\<exists>b\<in>set bs. p_crypt ops b = Inl x)"

definition rest_inv :: "('s, 'b) pipe_ops \<Rightarrow> bytes \<Rightarrow> int \<Rightarrow> 'b list \<Rightarrow> io_error \<Rightarrow> ('s, 'b) pipe \<Rightarrow> bool" where
  "rest_inv ops hdr nn0 bs e st \<longleftrightarrow>
     (\<exists>rs. main_rest ops e st rs \<and> (pwriter st = WRecv \<longrightarrow> (\<exists>c d. stream_at ops hdr nn0 bs st rs c d)))"

definition result_inv ::
  "('s, 'b) pipe_ops \<Rightarrow> bool \<Rightarrow> bytes \<Rightarrow> int \<Rightarrow> 'b list \<Rightarrow> io_error \<Rightarrow> ('s, 'b) pipe \<Rightarrow> bool" where
  "result_inv ops fails hdr nn0 bs e st \<longleftrightarrow>
     prefix (pout st) (hdr @ outbytes ops bs) \<and>
     (pwriter st = WDone None \<longrightarrow> pcancelled st \<or> complete ops hdr nn0 bs e st) \<and>
     (pmain st = MRet None \<longrightarrow> complete ops hdr nn0 bs e st) \<and>
     (\<forall>x. pwriter st = WDone (Some x) \<or> pmain st = MRet (Some x) \<longrightarrow> error_ok ops fails bs e x)"

lemmas pipe_hands = main_hand_def crypt_hand_def

lemma control_inv_start: "control_inv (pipe_start s hdr nn0)"
  by (simp add: control_inv_def pipe_start_def)

lemma control_inv_step:
  assumes "pipe_step ops fails st st'" "control_inv st"
  shows "control_inv st'"
  using assms
  by cases (auto simp: control_inv_def split: main_pc.splits option.splits)

lemma rest_inv_start:
  assumes "reads ops s bs e"
  shows "rest_inv ops hdr nn0 bs e (pipe_start s hdr nn0)"
proof -
  have "stream_at ops hdr nn0 bs (pipe_start s hdr nn0) bs [] []"
    by (simp add: stream_at_def pipe_start_def pipe_hands)
  then show ?thesis using assms by (force simp: rest_inv_def main_rest_def pipe_start_def)
qed

lemma result_inv_start: "result_inv ops fails hdr nn0 bs e (pipe_start s hdr nn0)"
  by (simp add: result_inv_def pipe_start_def)

text \<open>What the caller has left to read, step by step.\<close>

lemma main_rest_same:
  "pmain st' = pmain st \<Longrightarrow> psrc st' = psrc st \<Longrightarrow> main_rest ops e st' rs = main_rest ops e st rs"
  by (simp add: main_rest_def split: main_pc.splits)

lemma main_rest_ret: "pmain st = MRet d \<Longrightarrow> main_rest ops e st rs"
  by (simp add: main_rest_def)

lemma main_hand_same: "pmain st' = pmain st \<Longrightarrow> main_hand st' = main_hand st"
  by (simp add: main_hand_def)

lemma rest_invI:
  assumes "main_rest ops e st rs"
    and "pwriter st = WRecv \<Longrightarrow> \<exists>c d. stream_at ops hdr nn0 bs st rs c d"
  shows "rest_inv ops hdr nn0 bs e st"
  using assms by (auto simp: rest_inv_def)

lemma main_rest_step:
  assumes step: "pipe_step ops fails st st'" and rest: "main_rest ops e st rs"
    and moved: "pmain st' \<noteq> pmain st" and run: "\<forall>d. pmain st' \<noteq> MRet d"
  shows "\<exists>rs'. main_rest ops e st' rs' \<and>
    pcryptCh st @ main_hand st @ rs = pcryptCh st' @ main_hand st' @ rs' \<and>
    pwriteCh st' = pwriteCh st \<and> pcrypt st' = pcrypt st \<and> pout st' = pout st \<and> pnn st' = pnn st \<and>
    pwriter st' = pwriter st \<and> (pcancelled st \<longrightarrow> pcancelled st')"
  using step
proof cases
  case (m_read_full b s')
  then obtain rs' where "rs = b # rs'" "reads ops s' rs' e"
    using rest reads_next(1)[of ops "psrc st" rs e b s'] by (auto simp: main_rest_def)
  then show ?thesis using m_read_full by (auto simp: main_rest_def main_hand_def)
next
  case (m_read_last b s')
  then have "rs = [b]" "e = EOF"
    using rest reads_next(2)[of ops "psrc st" rs e b s'] by (auto simp: main_rest_def)
  then show ?thesis using m_read_last by (auto simp: main_rest_def main_hand_def)
next
  case (m_read_eof s')
  then have "rs = []" "e = EOF"
    using rest reads_next(3)[of ops "psrc st" rs e EOF s'] by (auto simp: main_rest_def)
  then show ?thesis using m_read_eof by (auto simp: main_rest_def main_hand_def)
next
  case (m_read_err x s')
  then have "rs = []" "e = x"
    using rest reads_next(3)[of ops "psrc st" rs e x s'] by (auto simp: main_rest_def)
  then show ?thesis using m_read_err by (auto simp: main_rest_def main_hand_def)
qed (use rest moved run in \<open>auto simp: main_rest_def main_hand_def\<close>)

lemma stream_at_main:
  assumes "stream_at ops hdr nn0 bs st rs c d"
    and "pwriteCh st' = pwriteCh st" "pcrypt st' = pcrypt st" "pout st' = pout st" "pnn st' = pnn st"
    and "pcancelled st \<longrightarrow> pcancelled st'"
    and "pcryptCh st @ main_hand st @ rs = pcryptCh st' @ main_hand st' @ rs'"
  shows "stream_at ops hdr nn0 bs st' rs' c d"
  using assms by (auto simp: stream_at_def crypt_hand_def)

text \<open>The steps of \<open>cryptLoop\<close> and \<open>writeLoop\<close>, which leave what is to be read alone.\<close>

lemma map_append_eqD: "map f c = xs @ [y] \<Longrightarrow> \<exists>c' z. c = c' @ [z] \<and> map f c' = xs \<and> f z = y"
  by (auto simp: map_eq_append_conv)

lemma stream_at_take:
  assumes "stream_at ops hdr nn0 bs st rs c d" "pcrypt st = CRecv" "pcryptCh st = b # q"
    and "crypt_hand st' = [p_crypt ops b]" "pcrypt st' \<noteq> CExit"
    and "pcryptCh st' = q" "pwriteCh st' = pwriteCh st" "main_hand st' = main_hand st"
    and "pout st' = pout st" "pnn st' = pnn st"
  shows "stream_at ops hdr nn0 bs st' rs (c @ [b]) d"
  using assms by (auto simp: stream_at_def crypt_hand_def prefix_def)

lemma stream_at_pass:
  assumes "stream_at ops hdr nn0 bs st rs c d" "pcrypt st = CSend b"
  shows "stream_at ops hdr nn0 bs (st\<lparr>pcrypt := CRecv, pwriteCh := pwriteCh st @ [b]\<rparr>) rs c d"
  using assms by (auto simp: stream_at_def pipe_hands)

lemma stream_at_stop:
  assumes "stream_at ops hdr nn0 bs st rs c d"
    and "pcrypt st = CRecv \<or> (pcrypt st = CSend b \<or> pcrypt st = CErr x) \<and> pcancelled st"
  shows "\<exists>c'. stream_at ops hdr nn0 bs (st\<lparr>pcrypt := CExit, pwriteClosed := True\<rparr>) rs c' d"
proof (cases "pcrypt st = CRecv")
  case True
  then have "stream_at ops hdr nn0 bs (st\<lparr>pcrypt := CExit, pwriteClosed := True\<rparr>) rs c d"
    using assms(1) by (auto simp: stream_at_def pipe_hands)
  then show ?thesis by blast
next
  case False
  then obtain h where h: "crypt_hand st = [h]" and cancelled: "pcancelled st"
    using assms(2) by (auto simp: crypt_hand_def)
  obtain c' z where c: "c = c' @ [z]" and m: "map (p_crypt ops) c' = map Inr (d @ pwriteCh st)"
    using map_append_eqD[of "p_crypt ops" c] assms(1) by (fastforce simp: stream_at_def h)
  have "stream_at ops hdr nn0 bs (st\<lparr>pcrypt := CExit, pwriteClosed := True\<rparr>) rs c' d"
    using assms(1) cancelled m c by (auto simp: stream_at_def pipe_hands prefix_def)
  then show ?thesis by blast
qed

lemma stream_at_written:
  assumes "stream_at ops hdr nn0 bs st rs c d" "pwriteCh st = b # q"
  shows "stream_at ops hdr nn0 bs (st\<lparr>pwriteCh := q, pout := pout st @ p_result ops b,
    pnn := pnn st + p_delta ops (length (p_result ops b))\<rparr>) rs c (d @ [b])"
  using assms by (auto simp: stream_at_def pipe_hands)

lemma stream_at_others:
  assumes step: "pipe_step ops fails st st'" and same: "pmain st' = pmain st"
    and control: "control_inv st"
    and stream: "stream_at ops hdr nn0 bs st rs c d" and w: "pwriter st = WRecv" "pwriter st' = WRecv"
  shows "\<exists>c d. stream_at ops hdr nn0 bs st' rs c d"
  using step
proof cases
  case (c_recv_ok b q b')
  then show ?thesis using stream_at_take[OF stream, of b q st'] by (force simp: pipe_hands)
next
  case (c_recv_err b q x)
  then show ?thesis using stream_at_take[OF stream, of b q st'] by (force simp: pipe_hands)
next
  case c_closed
  then show ?thesis using stream_at_stop[OF stream] by blast
next
  case c_cancel
  then show ?thesis using stream_at_stop[OF stream] by blast
next
  case (c_send b)
  then show ?thesis using stream_at_pass[OF stream] by blast
next
  case (c_send_cancel b)
  then show ?thesis using stream_at_stop[OF stream] by blast
next
  case (c_err_cancel x)
  then show ?thesis using stream_at_stop[OF stream] by blast
next
  case (w_recv b q)
  then show ?thesis using stream_at_written[OF stream] by blast
qed (use same w control in \<open>auto simp: control_inv_def\<close>)

lemma step_main_ret:
  "pipe_step ops fails st st' \<Longrightarrow> pmain st' = MRet d \<Longrightarrow> pmain st' \<noteq> pmain st \<Longrightarrow> pwriter st' = WExit"
  by (cases rule: pipe_step.cases, assumption) auto

lemma step_psrc: "pipe_step ops fails st st' \<Longrightarrow> pmain st' = pmain st \<Longrightarrow> psrc st' = psrc st"
  by (cases rule: pipe_step.cases, assumption) auto

lemma step_writer_back: "pipe_step ops fails st st' \<Longrightarrow> pwriter st' = WRecv \<Longrightarrow> pwriter st = WRecv"
  by (cases rule: pipe_step.cases, assumption) auto

lemma rest_inv_step:
  assumes step: "pipe_step ops fails st st'" and inv: "rest_inv ops hdr nn0 bs e st"
    and control: "control_inv st"
  shows "rest_inv ops hdr nn0 bs e st'"
proof -
  obtain rs where rest: "main_rest ops e st rs"
    and stream: "pwriter st = WRecv \<longrightarrow> (\<exists>c d. stream_at ops hdr nn0 bs st rs c d)"
    using inv by (auto simp: rest_inv_def)
  consider (same) "pmain st' = pmain st" | (ret) d where "pmain st' = MRet d" "pmain st' \<noteq> pmain st"
    | (moved) "\<forall>d. pmain st' \<noteq> MRet d" "pmain st' \<noteq> pmain st"
    by blast
  then show ?thesis
  proof cases
    case same
    show ?thesis
    proof (rule rest_invI)
      show "main_rest ops e st' rs"
        using rest main_rest_same[OF same step_psrc[OF step same]] by simp
      show "\<exists>c d. stream_at ops hdr nn0 bs st' rs c d" if "pwriter st' = WRecv"
        using stream stream_at_others[OF step same control] step_writer_back[OF step that] that by blast
    qed
  next
    case ret
    then show ?thesis
      using step_main_ret[OF step ret(1,2)] by (auto intro!: rest_invI[of _ _ _ rs] main_rest_ret)
  next
    case moved
    obtain rs' where rs': "main_rest ops e st' rs'"
      "pcryptCh st @ main_hand st @ rs = pcryptCh st' @ main_hand st' @ rs'"
      and same: "pwriteCh st' = pwriteCh st" "pcrypt st' = pcrypt st" "pout st' = pout st" "pnn st' = pnn st"
        "pwriter st' = pwriter st" "pcancelled st \<longrightarrow> pcancelled st'"
      using main_rest_step[OF step rest moved(2,1)] by blast
    show ?thesis
    proof (rule rest_invI[OF rs'(1)])
      assume "pwriter st' = WRecv"
      then obtain c d where "stream_at ops hdr nn0 bs st rs c d" using stream same(5) by auto
      from stream_at_main[OF this same(1-4,6) rs'(2)]
      show "\<exists>c d. stream_at ops hdr nn0 bs st' rs' c d" by blast
    qed
  qed
qed

section \<open>What was written and what is returned\<close>

lemma crypted_of_stream:
  assumes "stream_at ops hdr nn0 bs st rs c d"
  shows "prefix (d @ pwriteCh st) (crypted ops bs)"
proof -
  let ?out = "d @ pwriteCh st"
  obtain r where bs: "bs = c @ r" using assms by (auto simp: stream_at_def prefix_def)
  have m: "map (p_crypt ops) c = map Inr ?out @ crypt_hand st"
    using assms by (simp add: stream_at_def)
  let ?c = "take (length ?out) c"
  have "map (p_crypt ops) ?c = map Inr ?out"
    using arg_cong[OF m, of "take (length ?out)"] by (simp add: take_map)
  from crypted_prefix[OF this, of "drop (length ?out) c @ r"]
  have "crypted ops bs = ?out @ crypted ops (drop (length ?out) c @ r)"
    unfolding bs append.assoc[symmetric] append_take_drop_id by (metis append.assoc append_take_drop_id)
  then show ?thesis by (simp add: prefix_def)
qed

lemma prefix_concat_map: "prefix xs ys \<Longrightarrow> prefix (concat (map f xs)) (concat (map f ys))"
  by (auto simp: prefix_def)

lemma outbytes_next:
  assumes "stream_at ops hdr nn0 bs st rs c d" "pwriteCh st = b # q"
  shows "prefix (pout st @ take n (p_result ops b)) (hdr @ outbytes ops bs)"
proof -
  have "prefix (concat (map (p_result ops) (d @ pwriteCh st))) (outbytes ops bs)"
    unfolding outbytes_def by (intro prefix_concat_map crypted_of_stream[OF assms(1)])
  then have "prefix (concat (map (p_result ops) d) @ p_result ops b) (outbytes ops bs)"
    using assms(2) append_prefixD[of "concat (map (p_result ops) d) @ p_result ops b" "concat (map (p_result ops) q)"]
    by simp
  moreover have "prefix (concat (map (p_result ops) d) @ take n (p_result ops b))
      (concat (map (p_result ops) d) @ p_result ops b)"
    by (simp add: take_is_prefix)
  ultimately have "prefix (concat (map (p_result ops) d) @ take n (p_result ops b)) (outbytes ops bs)"
    by (rule prefix_order.trans[rotated])
  then show ?thesis using assms(1) by (simp add: stream_at_def)
qed

text \<open>When \<open>writeLoop\<close> finds its channel closed and nothing was cancelled, all blocks are written.\<close>

lemma closed_complete:
  assumes rest: "rest_inv ops hdr nn0 bs e st" and control: "control_inv st"
    and closed: "pwriter st = WRecv" "pwriteCh st = []" "pwriteClosed st" "\<not> pcancelled st"
  shows "complete ops hdr nn0 bs e st"
proof -
  obtain rs c d where main: "main_rest ops e st rs" and stream: "stream_at ops hdr nn0 bs st rs c d"
    using rest closed(1) by (auto simp: rest_inv_def)
  have crypt: "pcrypt st = CExit" and "pcryptClosed st" and q: "pcryptCh st = []"
    using control closed by (auto simp: control_inv_def split: main_pc.splits)
  then have "pmain st = MWaitDone None"
    using control closed by (auto simp: control_inv_def split: main_pc.splits option.splits)
  then have "rs = []" "e = EOF" "main_hand st = []" "bs = c"
    using main stream q closed(4) by (auto simp: main_rest_def main_hand_def stream_at_def)
  moreover have m: "map (p_crypt ops) c = map Inr d"
    using stream crypt closed(2) by (simp add: stream_at_def crypt_hand_def)
  ultimately show ?thesis
    using stream crypted_all[OF m] crypted_prefix[OF m, of "[]"]
    by (simp add: complete_def stream_at_def outbytes_def counted_def)
qed

lemma crypt_error_known:
  assumes "rest_inv ops hdr nn0 bs e st" "pwriter st = WRecv" "pcrypt st = CErr x"
  shows "error_ok ops fails bs e x"
proof -
  obtain rs c d where "stream_at ops hdr nn0 bs st rs c d"
    using assms by (auto simp: rest_inv_def)
  then have "Inl x \<in> p_crypt ops ` set c" "prefix c bs"
    unfolding stream_at_def set_map[symmetric] by (simp_all add: crypt_hand_def assms(3))
  then show ?thesis by (auto simp: error_ok_def prefix_def)
qed

lemma complete_same:
  "pout st' = pout st \<Longrightarrow> pnn st' = pnn st \<Longrightarrow> complete ops hdr nn0 bs e st' = complete ops hdr nn0 bs e st"
  by (simp add: complete_def)

lemma read_error_known:
  assumes "rest_inv ops hdr nn0 bs e st" "control_inv st" "pmain st = MWaitDone (Some x)"
  shows "error_ok ops fails bs e x"
  using assms by (auto simp: rest_inv_def main_rest_def control_inv_def error_ok_def)

lemma result_inv_step:
  assumes step: "pipe_step ops fails st st'" and inv: "result_inv ops fails hdr nn0 bs e st"
    and rest: "rest_inv ops hdr nn0 bs e st" and control: "control_inv st"
  shows "result_inv ops fails hdr nn0 bs e st'"
  using step
proof cases
  case (m_send_done b d)
  then show ?thesis using inv control
    by (auto simp: result_inv_def control_inv_def complete_def)
next
  case (m_sendlast_done b d)
  then show ?thesis using inv control
    by (auto simp: result_inv_def control_inv_def complete_def)
next
  case (m_done er d)
  then show ?thesis using inv control read_error_known[OF rest control]
    by (auto simp: result_inv_def control_inv_def complete_def split: option.splits)
next
  case (c_err x)
  then show ?thesis using inv control crypt_error_known[OF rest]
    by (auto simp: result_inv_def control_inv_def)
next
  case (w_recv b q)
  obtain rs c d where "stream_at ops hdr nn0 bs st rs c d"
    using rest w_recv(2) by (auto simp: rest_inv_def)
  from outbytes_next[OF this w_recv(3), of "length (p_result ops b)"] show ?thesis
    using inv control w_recv by (auto simp: result_inv_def control_inv_def)
next
  case (w_recv_err b q n x)
  obtain rs c d where "stream_at ops hdr nn0 bs st rs c d"
    using rest w_recv_err(3) by (auto simp: rest_inv_def)
  from outbytes_next[OF this w_recv_err(4), of n] show ?thesis
    using inv control w_recv_err by (auto simp: result_inv_def control_inv_def error_ok_def)
next
  case w_closed
  have "pcancelled st \<or> complete ops hdr nn0 bs e st"
    using closed_complete[OF rest control w_closed(2-4)] by blast
  then show ?thesis using inv control w_closed by (auto simp: result_inv_def control_inv_def complete_def)
qed (use inv in \<open>auto simp: result_inv_def complete_def\<close>)

definition pipe_inv ::
  "('s, 'b) pipe_ops \<Rightarrow> bool \<Rightarrow> bytes \<Rightarrow> int \<Rightarrow> 'b list \<Rightarrow> io_error \<Rightarrow> ('s, 'b) pipe \<Rightarrow> bool" where
  "pipe_inv ops fails hdr nn0 bs e st \<longleftrightarrow>
     control_inv st \<and> rest_inv ops hdr nn0 bs e st \<and> result_inv ops fails hdr nn0 bs e st"

interpretation pipe: invariant_system "pipe_step ops fails"
  "\<lambda>st. \<exists>s. reads ops s bs e \<and> st = pipe_start s hdr nn0" "pipe_inv ops fails hdr nn0 bs e"
  for ops :: "('s, 'b) pipe_ops" and fails hdr nn0 bs e
proof
  show "pipe_inv ops fails hdr nn0 bs e st"
    if "\<exists>s. reads ops s bs e \<and> st = pipe_start s hdr nn0" for st
    using that by (auto simp: pipe_inv_def control_inv_start rest_inv_start result_inv_start)
  show "pipe_inv ops fails hdr nn0 bs e st'"
    if "pipe_inv ops fails hdr nn0 bs e st" "pipe_step ops fails st st'" for st st'
    using that by (auto simp: pipe_inv_def intro: control_inv_step rest_inv_step result_inv_step)
qed

lemma pipe_reachable:
  assumes "reads ops s bs e" "reach (pipe_step ops fails) (pipe_start s hdr nn0) st"
  shows "control_inv st" "rest_inv ops hdr nn0 bs e st" "result_inv ops fails hdr nn0 bs e st"
  using pipe.inv_reachable[where s = "pipe_start s hdr nn0" and ops = ops and bs = bs and e = e and hdr = hdr
      and ?nn0.0 = nn0 and fails = fails and t = st] assms
  by (auto simp: pipe_inv_def)

section \<open>Termination and progress\<close>

definition main_weight :: "'b main_pc \<Rightarrow> nat" where
  "main_weight m = (case m of MRead \<Rightarrow> 3 | MSend b \<Rightarrow> 8 | MSendLast b \<Rightarrow> 7 | MWaitDone e \<Rightarrow> 1 | MRet d \<Rightarrow> 0)"

definition crypt_weight :: "'b crypt_pc \<Rightarrow> nat" where
  "crypt_weight c = (case c of CRecv \<Rightarrow> 1 | CSend b \<Rightarrow> 4 | CErr e \<Rightarrow> 4 | CExit \<Rightarrow> 0)"

definition writer_weight :: "writer_pc \<Rightarrow> nat" where
  "writer_weight w = (case w of WRecv \<Rightarrow> 2 | WDone d \<Rightarrow> 1 | WExit \<Rightarrow> 0)"

definition work_left :: "('s, 'b) pipe \<Rightarrow> 'b list \<Rightarrow> nat" where
  "work_left st rs = 6 * length rs + main_weight (pmain st) + 4 * length (pcryptCh st) +
     crypt_weight (pcrypt st) + 2 * length (pwriteCh st) + writer_weight (pwriter st)"

lemmas weights = work_left_def main_weight_def crypt_weight_def writer_weight_def

text \<open>Every step uses up some of the work that is left.\<close>

lemma work_left_step:
  assumes step: "pipe_step ops fails st st'" and rest: "main_rest ops e st rs"
  shows "\<exists>rs'. main_rest ops e st' rs' \<and> work_left st' rs' < work_left st rs"
proof -
  consider (same) "pmain st' = pmain st" | (ret) d where "pmain st' = MRet d" "pmain st' \<noteq> pmain st"
    | (moved) "\<forall>d. pmain st' \<noteq> MRet d" "pmain st' \<noteq> pmain st"
    by blast
  then show ?thesis
  proof cases
    case same
    have "work_left st' rs < work_left st rs" using step same by cases (auto simp: weights)
    then show ?thesis using rest main_rest_same[OF same step_psrc[OF step same]] by blast
  next
    case ret
    have "work_left st' rs < work_left st rs" using step ret by cases (auto simp: weights)
    then show ?thesis using main_rest_ret[OF ret(1)] by blast
  next
    case moved
    obtain rs' where rs': "main_rest ops e st' rs'"
      "length (pcryptCh st @ main_hand st @ rs) = length (pcryptCh st' @ main_hand st' @ rs')"
      using main_rest_step[OF step rest moved(2,1)] by metis
    have "work_left st' rs' < work_left st rs"
      using step moved rs'(2) by cases (auto simp: weights main_hand_def)
    then show ?thesis using rs'(1) by blast
  qed
qed

lemma run_length_bound:
  "((pipe_step ops fails) ^^ n) st st' \<Longrightarrow> main_rest ops e st rs \<Longrightarrow> n \<le> work_left st rs"
proof (induction n arbitrary: st rs)
  case (Suc n)
  obtain st1 where st1: "pipe_step ops fails st st1" "((pipe_step ops fails) ^^ n) st1 st'"
    using Suc.prems(1) by (blast elim: relpowp_Suc_E2)
  obtain rs1 where "main_rest ops e st1 rs1" "work_left st1 rs1 < work_left st rs"
    using work_left_step[OF st1(1) Suc.prems(2)] by blast
  then show ?case using Suc.IH[OF st1(2)] by fastforce
qed simp

lemma main_not_stuck:
  assumes control: "control_inv st" and cap: "0 < p_cap ops" and run: "\<forall>d. pmain st \<noteq> MRet d"
  shows "\<exists>st'. pipe_step ops fails st st'"
proof -
  have full: "\<exists>b q. pcryptCh st = b # q" if "\<not> length (pcryptCh st) < p_cap ops"
    using that cap by (cases "pcryptCh st") auto
  have full': "\<exists>b q. pwriteCh st = b # q" if "\<not> length (pwriteCh st) < p_cap ops"
    using that cap by (cases "pwriteCh st") auto
  have writer: "pwriter st \<noteq> WExit" using control run by (auto simp: control_inv_def)
  have busy: "\<exists>st'. pipe_step ops fails st st'"
    if "pcrypt st \<noteq> CExit" "pwriter st = WRecv" "pcrypt st = CRecv \<longrightarrow> pcryptCh st \<noteq> []"
    using that full' cap
    by (cases "pcrypt st"; cases "pcryptCh st"; cases "p_crypt ops (hd (pcryptCh st))")
      (auto intro: pipe_step.intros)
  show ?thesis
  proof (cases "pmain st")
    case MRead
    obtain r s' where "p_next ops (psrc st) = (r, s')" by (cases "p_next ops (psrc st)")
    then show ?thesis using MRead by (cases r) (blast intro: pipe_step.intros)+
  next
    case (MSend b)
    then show ?thesis using control busy full writer
      by (cases "pwriter st"; cases "length (pcryptCh st) < p_cap ops")
        (auto simp: control_inv_def intro: pipe_step.intros)
  next
    case (MSendLast b)
    then show ?thesis using control busy full writer
      by (cases "pwriter st"; cases "length (pcryptCh st) < p_cap ops")
        (auto simp: control_inv_def intro: pipe_step.intros)
  next
    case (MWaitDone er)
    show ?thesis
    proof (cases "pwriter st")
      case WRecv
      consider "pcancelled st" | "pcryptClosed st" "\<not> ppanic st"
        using control MWaitDone by (cases er) (auto simp: control_inv_def)
      then show ?thesis
      proof cases
        case 1
        then show ?thesis using WRecv by (blast intro: pipe_step.intros)
      next
        case 2
        then show ?thesis using control busy WRecv
          by (cases "pcrypt st"; cases "pwriteCh st"; cases "pcryptCh st")
            (auto simp: control_inv_def intro: pipe_step.intros)
      qed
    qed (use MWaitDone writer in \<open>auto intro: pipe_step.intros\<close>)
  qed (use run in auto)
qed

lemma run_to_return:
  assumes "control_inv st" "main_rest ops e st rs" "0 < p_cap ops"
  shows "\<exists>st' d. reach (pipe_step ops fails) st st' \<and> pmain st' = MRet d"
  using assms(1,2)
proof (induction "work_left st rs" arbitrary: st rs rule: less_induct)
  case less
  show ?case
  proof (cases "\<exists>d. pmain st = MRet d")
    case True
    then show ?thesis by (blast intro: reach_refl)
  next
    case False
    then obtain st1 where st1: "pipe_step ops fails st st1"
      using main_not_stuck[OF less.prems(1) assms(3)] by blast
    obtain rs1 where "main_rest ops e st1 rs1" "work_left st1 rs1 < work_left st rs"
      using work_left_step[OF st1 less.prems(2)] by blast
    then obtain st' d where "reach (pipe_step ops fails) st1 st'" "pmain st' = MRet d"
      using less.hyps control_inv_step[OF st1 less.prems(1)] by blast
    then show ?thesis using reach_first[of "pipe_step ops fails", OF st1] by blast
  qed
qed

section \<open>Shutdown\<close>

text \<open>Without read and write errors, \<open>cryptLoop\<close> has always ended when \<open>writeLoop\<close> has.\<close>

definition clean_inv :: "('s, 'b) pipe \<Rightarrow> bool" where
  "clean_inv st \<longleftrightarrow> \<not> ppanic st \<and> (pwriter st \<noteq> WRecv \<longrightarrow> pcrypt st = CExit) \<and>
     (pcancelled st \<longrightarrow> pwriter st \<noteq> WRecv)"

lemma clean_inv_step:
  assumes step: "pipe_step ops False st st'" and clean: "clean_inv st"
    and control: "control_inv st" and rest: "rest_inv ops hdr nn0 bs EOF st"
  shows "clean_inv st'"
  using step
proof cases
  case (m_read_err x s')
  then have False
    using rest reads_next(3)[of ops "psrc st" _ EOF x s'] by (auto simp: rest_inv_def main_rest_def)
  then show ?thesis ..
qed (use clean control in \<open>auto simp: clean_inv_def control_inv_def\<close>)

lemma clean_reachable:
  assumes reads: "reads ops s bs EOF"
  shows "reach (pipe_step ops False) (pipe_start s hdr nn0) st \<Longrightarrow> clean_inv st"
proof (induction rule: reach.induct)
  case reach_refl
  show ?case by (simp add: clean_inv_def pipe_start_def)
next
  case (reach_step st st')
  then show ?case using clean_inv_step pipe_reachable[OF reads reach_step(1)] by blast
qed

text \<open>
  The other side: a write error while a block that does not decrypt is in \<open>cryptCh\<close>. \<open>WriteTo\<close>
  returns the write error through its last \<open>return\<close>, which leaves \<open>cancelCh\<close> open.
\<close>

lemmas pipe_first = reach_first[of "pipe_step ops fails" for ops fails]

lemma panic_tail:
  assumes "pmain st = MWaitDone None" "pcrypt st = CRecv" "pwriter st = WRecv"
    and "pcryptCh st = b # q" "pwriteCh st = c # r" "p_crypt ops b = Inl e"
  shows "\<exists>st'. reach (pipe_step ops True) st st' \<and> pmain st' = MRet (Some x) \<and> ppanic st'"
proof -
  define s1 where "s1 = st\<lparr>pwriteCh := r, pout := pout st @ take 0 (p_result ops c),
    pnn := pnn st + p_delta ops 0, pwriter := WDone (Some x)\<rparr>"
  define s2 where "s2 = s1\<lparr>pcrypt := CErr e, pcryptCh := q\<rparr>"
  define s3 where "s3 = s2\<lparr>pmain := MRet (Some x), pwriter := WExit, pdeferred := True\<rparr>"
  define s4 where "s4 = s3\<lparr>pcrypt := CExit, ppanic := True\<rparr>"
  have 1: "pipe_step ops True st s1" unfolding s1_def using assms by (intro w_recv_err) auto
  have 2: "pipe_step ops True s1 s2" unfolding s2_def using assms by (intro c_recv_err) (auto simp: s1_def)
  have 3: "pipe_step ops True s2 s3"
    using m_done[of s2 None "Some x" ops True] assms by (simp add: s3_def) (simp add: s2_def s1_def)
  have 4: "pipe_step ops True s3 s4" unfolding s4_def by (rule c_err_panic[of _ e]) (simp_all add: s3_def s2_def)
  have "reach (pipe_step ops True) st s4"
    by (rule pipe_first[OF 1], rule pipe_first[OF 2], rule pipe_first[OF 3], rule pipe_first[OF 4], rule reach_refl)
  then show ?thesis by (intro exI[of _ s4]) (simp add: s4_def s3_def)
qed

lemma first_block_through:
  assumes "p_next ops (psrc st) = (Full b, s')" "p_crypt ops b = Inr c" "0 < p_cap ops"
    and "pmain st = MRead" "pcrypt st = CRecv" "pcryptCh st = []" "pwriteCh st = []"
  shows "reach (pipe_step ops fails) st (st\<lparr>psrc := s', pwriteCh := [c]\<rparr>)"
proof -
  define s1 where "s1 = st\<lparr>pmain := MSend b, psrc := s'\<rparr>"
  define s2 where "s2 = s1\<lparr>pmain := MRead, pcryptCh := pcryptCh s1 @ [b]\<rparr>"
  define s3 where "s3 = s2\<lparr>pcrypt := CSend c, pcryptCh := []\<rparr>"
  define s4 where "s4 = s3\<lparr>pcrypt := CRecv, pwriteCh := pwriteCh s3 @ [c]\<rparr>"
  have 1: "pipe_step ops fails st s1" unfolding s1_def using assms by (intro m_read_full) auto
  have 2: "pipe_step ops fails s1 s2" unfolding s2_def using assms by (intro m_send) (auto simp: s1_def)
  have 3: "pipe_step ops fails s2 s3" unfolding s3_def using assms by (intro c_recv_ok) (auto simp: s2_def s1_def)
  have 4: "pipe_step ops fails s3 s4" unfolding s4_def using assms
    by (intro c_send) (auto simp: s3_def s2_def s1_def)
  have "s4 = st\<lparr>psrc := s', pwriteCh := [c]\<rparr>"
    using assms by (simp add: s4_def s3_def s2_def s1_def)
  moreover have "reach (pipe_step ops fails) st s4"
    by (rule pipe_first[OF 1], rule pipe_first[OF 2], rule pipe_first[OF 3], rule pipe_first[OF 4], rule reach_refl)
  ultimately show ?thesis by simp
qed

lemma last_block_queued:
  assumes "reads ops (psrc st) [b] EOF" "0 < p_cap ops" "pmain st = MRead" "pcryptCh st = []"
  shows "\<exists>s'. reach (pipe_step ops fails) st
    (st\<lparr>pmain := MWaitDone None, psrc := s', pcryptCh := [b], pcryptClosed := True\<rparr>)"
  using assms(1)
proof cases
  case (reads_last s')
  define s1 where "s1 = st\<lparr>pmain := MSendLast b, psrc := s'\<rparr>"
  define s2 where "s2 = s1\<lparr>pmain := MWaitDone None, pcryptCh := pcryptCh s1 @ [b], pcryptClosed := True\<rparr>"
  have 1: "pipe_step ops fails st s1" unfolding s1_def using assms reads_last by (intro m_read_last) auto
  have 2: "pipe_step ops fails s1 s2" unfolding s2_def using assms by (intro m_sendlast) (auto simp: s1_def)
  have "reach (pipe_step ops fails) st s2" by (rule pipe_first[OF 1], rule pipe_first[OF 2], rule reach_refl)
  moreover have "s2 = st\<lparr>pmain := MWaitDone None, psrc := s', pcryptCh := [b], pcryptClosed := True\<rparr>"
    using assms(4) by (cases st) (simp add: s2_def s1_def)
  ultimately show ?thesis by blast
next
  case (reads_more s')
  then obtain s'' where s'': "p_next ops s' = (NoMore EOF, s'')" by (auto elim: reads.cases)
  define s1 where "s1 = st\<lparr>pmain := MSend b, psrc := s'\<rparr>"
  define s2 where "s2 = s1\<lparr>pmain := MRead, pcryptCh := pcryptCh s1 @ [b]\<rparr>"
  define s3 where "s3 = s2\<lparr>pmain := MWaitDone None, psrc := s'', pcryptClosed := True\<rparr>"
  have 1: "pipe_step ops fails st s1" unfolding s1_def using assms reads_more by (intro m_read_full) auto
  have 2: "pipe_step ops fails s1 s2" unfolding s2_def using assms by (intro m_send) (auto simp: s1_def)
  have 3: "pipe_step ops fails s2 s3" unfolding s3_def using s'' by (intro m_read_eof) (auto simp: s2_def s1_def)
  have "reach (pipe_step ops fails) st s3"
    by (rule pipe_first[OF 1], rule pipe_first[OF 2], rule pipe_first[OF 3], rule reach_refl)
  moreover have "s3 = st\<lparr>pmain := MWaitDone None, psrc := s'', pcryptCh := [b], pcryptClosed := True\<rparr>"
    using assms(4) by (cases st) (simp add: s3_def s2_def s1_def)
  ultimately show ?thesis by blast
qed

lemma panic_run:
  assumes reads: "reads ops s [b1, b2] EOF" and cap: "0 < p_cap ops"
    and crypt: "p_crypt ops b1 = Inr c1" "p_crypt ops b2 = Inl e"
  shows "\<exists>st. reach (pipe_step ops True) (pipe_start s hdr nn0) st \<and> pmain st = MRet (Some x) \<and> ppanic st"
proof -
  obtain s1 where s1: "p_next ops s = (Full b1, s1)" "reads ops s1 [b2] EOF" using reads by (auto elim: reads.cases)
  define st1 where "st1 = (pipe_start s hdr nn0)\<lparr>psrc := s1, pwriteCh := [c1]\<rparr>"
  have 1: "reach (pipe_step ops True) (pipe_start s hdr nn0) st1"
    unfolding st1_def using s1(1) crypt cap by (intro first_block_through) (auto simp: pipe_start_def)
  have "reads ops (psrc st1) [b2] EOF" "pmain st1 = MRead" "pcryptCh st1 = []"
    using s1(2) by (simp_all add: st1_def pipe_start_def)
  then obtain s2 where 2: "reach (pipe_step ops True) st1
      (st1\<lparr>pmain := MWaitDone None, psrc := s2, pcryptCh := [b2], pcryptClosed := True\<rparr>)"
    using last_block_queued[OF _ cap] by blast
  define st2 where "st2 = st1\<lparr>pmain := MWaitDone None, psrc := s2, pcryptCh := [b2], pcryptClosed := True\<rparr>"
  obtain st where "reach (pipe_step ops True) st2 st" "pmain st = MRet (Some x)" "ppanic st"
    using panic_tail[of st2 b2 "[]" c1 "[]" ops e x] crypt(2) by (auto simp: st2_def st1_def pipe_start_def)
  then show ?thesis using reach_trans[of "pipe_step ops True", OF reach_trans[of "pipe_step ops True", OF 1 2]]
    unfolding st2_def by blast
qed

end
