(* ===== verification/Cryptofile.thy ===== *)
theory Cryptofile
  imports CryptoPipeline
begin

text \<open>
  \<open>src/pkg/cryptofile\<close>: the encrypted file format (\<open>cryptofile.go\<close>) and the constructors and the
  reading side of the \<open>WriterTo\<close> (\<open>writerto.go\<close>), put on the machine of \<open>CryptoPipeline\<close>.

  A \<open>buffer\<close> of the code is one byte array and several slices of it; the model keeps the array
  (\<open>full\<close>) and the bounds of each slice, so that the in-place encryption and the stale contents of
  a pooled buffer are those of the code. Argon2 and ChaCha20-Poly1305 are not part of the repository:
  they are arguments, and \<open>aead_correct\<close> is what is relied upon of the cipher. What \<open>sync.Pool\<close>
  returns is an argument too, any sequence of well-formed buffers.
\<close>

section \<open>The header (cryptofile.go)\<close>

definition Version :: u16 where "Version = 1"
definition BlockKB_default :: u8 where "BlockKB_default = 255"
definition Argon2Time_default :: u32 where "Argon2Time_default = 4"
definition Argon2Memory_default :: u32 where "Argon2Memory_default = 32768"
definition Argon2Threads_default :: u8 where "Argon2Threads_default = 4"
definition BlockQueue_default :: u8 where "BlockQueue_default = 8"
definition HeaderLen :: nat where "HeaderLen = 44"
definition NonceSize :: nat where "NonceSize = 12"
definition TagSize :: nat where "TagSize = 16"

lemmas crypto_consts = Version_def BlockKB_default_def Argon2Time_default_def Argon2Memory_default_def
  Argon2Threads_default_def BlockQueue_default_def HeaderLen_def NonceSize_def TagSize_def

record crypto_header =
  hVersion :: u16
  hBlockKB :: u8
  hArgon2Time :: u32
  hArgon2Memory :: u32
  hArgon2Threads :: u8
  hArgon2Salt :: "bytes option"

text \<open>
  A source is the bytes it still holds and the error it ends with. \<open>ReadFull\<close> is \<open>io.ReadFull\<close>:
  the bytes read, the error, and the rest.
\<close>

type_synonym source = "bytes \<times> io_error"

definition ReadFull :: "source \<Rightarrow> nat \<Rightarrow> bytes \<times> io_error option \<times> source" where
  "ReadFull r k = (case r of (data, fin) \<Rightarrow>
     if k \<le> length data then (take k data, None, (drop k data, fin))
     else (data, Some (if data \<noteq> [] \<and> fin = EOF then ErrUnexpectedEOF else fin), ([], fin)))"

definition NewHeader :: "source \<Rightarrow> (io_error + crypto_header) \<times> nat \<times> source" where
  "NewHeader r = (case ReadFull r HeaderLen of (head, err, r') \<Rightarrow>
     case err of
       Some e \<Rightarrow> (Inl e, length head, r')
     | None \<Rightarrow> (Inr \<lparr>hVersion = Uint16 head, hBlockKB = head ! 2, hArgon2Time = Uint32 (drop 3 head),
         hArgon2Memory = Uint32 (drop 7 head), hArgon2Threads = head ! 11,
         hArgon2Salt = Some (take 32 (drop 12 head))\<rparr>, length head, r'))"

text \<open>\<open>None\<close>: the nil pointer dereference of a header without salt.\<close>

definition Header_Bytes :: "crypto_header \<Rightarrow> bytes option" where
  "Header_Bytes h = (case hArgon2Salt h of None \<Rightarrow> None | Some salt \<Rightarrow>
     Some (PutUint16 (hVersion h) @ [hBlockKB h] @ PutUint32 (hArgon2Time h) @
       PutUint32 (hArgon2Memory h) @ [hArgon2Threads h] @ salt))"

section \<open>Buffers (cryptofile.go)\<close>

type_synonym slice = "nat \<times> nat"

record buffer =
  block :: nat
  full :: bytes
  dst :: slice
  nonce :: slice
  plaintext :: slice
  ciphertext :: slice
  src :: slice
  result :: slice
  short :: bool
  encrypt :: bool

definition slice_len :: "slice \<Rightarrow> nat" where
  "slice_len s = snd s - fst s"

definition view :: "buffer \<Rightarrow> slice \<Rightarrow> bytes" where
  "view buf s = take (slice_len s) (drop (fst s) (full buf))"

text \<open>Writing bytes into the array from an offset on.\<close>

definition overwrite :: "nat \<Rightarrow> bytes \<Rightarrow> bytes \<Rightarrow> bytes" where
  "overwrite i d xs = take i xs @ d @ drop (i + length d) xs"

definition newBuffer :: "nat \<Rightarrow> buffer" where
  "newBuffer blk = \<lparr>block = blk, full = replicate (NonceSize + blk + TagSize) 0,
     dst = (NonceSize, NonceSize), nonce = (0, NonceSize), plaintext = (NonceSize, NonceSize + blk),
     ciphertext = (NonceSize, NonceSize + blk + TagSize), src = (0, 0), result = (0, 0),
     short = False, encrypt = False\<rparr>"

definition initsrc :: "buffer \<Rightarrow> buffer" where
  "initsrc buf = (if encrypt buf then buf\<lparr>src := plaintext buf, result := ciphertext buf\<rparr>
     else buf\<lparr>src := ciphertext buf, result := plaintext buf\<rparr>)"

definition WithRead :: "int \<Rightarrow> buffer \<Rightarrow> buffer" where
  "WithRead n buf =
     (let b = (if encrypt buf then n else n - int TagSize);
          b = (if b \<le> 0 then int (block buf) else b)
      in initsrc (buf\<lparr>short := b \<noteq> int (block buf),
           plaintext := (NonceSize, NonceSize + nat b),
           ciphertext := (NonceSize, NonceSize + nat b + TagSize)\<rparr>))"

definition Init :: "bool \<Rightarrow> buffer \<Rightarrow> buffer" where
  "Init enc buf = (let buf = buf\<lparr>encrypt := enc\<rparr> in if short buf then WithRead 0 buf else initsrc buf)"

section \<open>Reading blocks (writerto.go, WriteTo lines 137--150)\<close>

definition set_nonce :: "u64 \<Rightarrow> buffer \<Rightarrow> buffer" where
  "set_nonce n buf = buf\<lparr>full := overwrite (fst (nonce buf)) (replicate 4 0 @ PutUint64 n) (full buf)\<rparr>"

text \<open>The state of the reading side: the last nonce, the source, and how often the pool was asked.\<close>

record read_state =
  rnonce :: u64
  rsource :: source
  rgets :: nat

definition next_block :: "(nat \<Rightarrow> buffer) \<Rightarrow> bool \<Rightarrow> read_state \<Rightarrow> buffer next_res \<times> read_state" where
  "next_block pool enc st =
     (let n = rnonce st + 1;
          buf = set_nonce n (Init enc (pool (rgets st)))
      in case ReadFull (rsource st) (slice_len (src buf)) of (d, err, r') \<Rightarrow>
           let buf = buf\<lparr>full := overwrite (fst (src buf)) d (full buf)\<rparr>;
               st' = st\<lparr>rnonce := n, rsource := r', rgets := rgets st + 1\<rparr>
           in case err of
                None \<Rightarrow> (Full buf, st')
              | Some ErrUnexpectedEOF \<Rightarrow> (Last (WithRead (int (length d)) buf), st')
              | Some e \<Rightarrow> (NoMore e, st'))"

section \<open>Encrypting and decrypting a block (cryptLoop, lines 198--209)\<close>

record aead =
  Seal :: "bytes \<Rightarrow> bytes \<Rightarrow> bytes"
  Open :: "bytes \<Rightarrow> bytes \<Rightarrow> bytes option"

definition ErrOpen :: io_error where
  "ErrOpen = OtherErr ''chacha20poly1305: message authentication failed''"

text \<open>\<open>dst\<close> is empty with room behind it: the result is written into the array in place.\<close>

definition crypt_block :: "aead \<Rightarrow> bool \<Rightarrow> buffer \<Rightarrow> io_error + buffer" where
  "crypt_block a enc buf =
     (if enc then
        Inr (buf\<lparr>full := overwrite (fst (dst buf)) (Seal a (view buf (nonce buf)) (view buf (plaintext buf))) (full buf)\<rparr>)
      else case Open a (view buf (nonce buf)) (view buf (ciphertext buf)) of
        None \<Rightarrow> Inl ErrOpen
      | Some p \<Rightarrow> Inr (buf\<lparr>full := overwrite (fst (dst buf)) p (full buf)\<rparr>))"

section \<open>Constructors (writerto.go)\<close>

datatype crypto_error = ErrEmptyPassword | ErrVersion u16 | ErrPasswordNotSet | ErrRead io_error
  | ErrCipher string | Argon2Panic

record crypto_config =
  Password :: bytes
  BlockQueue :: u8

text \<open>\<open>argon2.IDKey\<close>: password, salt, time, memory, threads and key length; \<open>None\<close> is its panic.\<close>

type_synonym argon2 = "bytes \<Rightarrow> bytes \<Rightarrow> u32 \<Rightarrow> u32 \<Rightarrow> u8 \<Rightarrow> nat \<Rightarrow> bytes option"
type_synonym chacha_new = "bytes \<Rightarrow> string + aead"

definition KeyDerive :: "argon2 \<Rightarrow> crypto_header \<Rightarrow> bytes \<Rightarrow> crypto_error + bytes" where
  "KeyDerive IDKey h password =
     (if password = [] then Inl ErrPasswordNotSet
      else case hArgon2Salt h of
        None \<Rightarrow> Inl Argon2Panic
      | Some salt \<Rightarrow>
          (case IDKey password salt (hArgon2Time h) (hArgon2Memory h) (hArgon2Threads h) 32 of
             None \<Rightarrow> Inl Argon2Panic | Some k \<Rightarrow> Inr k))"

record writerTo =
  wConfig :: crypto_config
  wEncrypt :: bool
  wSource :: source
  wHeader :: crypto_header
  wAead :: aead
  wBlock :: nat

definition newWriterTo ::
  "argon2 \<Rightarrow> chacha_new \<Rightarrow> crypto_config \<Rightarrow> crypto_header \<Rightarrow> source \<Rightarrow> bool \<Rightarrow> crypto_error + writerTo" where
  "newWriterTo IDKey New cc h r enc =
     rbind (KeyDerive IDKey h (Password cc)) (\<lambda>k.
       case New k of
         Inl e \<Rightarrow> Inl (ErrCipher e)
       | Inr a \<Rightarrow>
           let cc = (if BlockQueue cc = 0 then cc\<lparr>BlockQueue := BlockQueue_default\<rparr> else cc)
           in Inr \<lparr>wConfig = cc, wEncrypt = enc, wSource = r, wHeader = h, wAead = a,
                wBlock = push_bit 10 (unat (hBlockKB h))\<rparr>)"

definition zero_header :: crypto_header where
  "zero_header = \<lparr>hVersion = 0, hBlockKB = 0, hArgon2Time = 0, hArgon2Memory = 0, hArgon2Threads = 0,
     hArgon2Salt = None\<rparr>"

text \<open>\<open>rnd\<close> is what reading 32 bytes from \<open>rand.Reader\<close> gives.\<close>

definition encrypt_header :: "io_error + bytes \<Rightarrow> crypto_header option \<Rightarrow> crypto_error + crypto_header" where
  "encrypt_header rnd ho =
     (let h = (case ho of None \<Rightarrow> zero_header | Some h \<Rightarrow> h) in
      if hVersion h \<noteq> 0 \<and> hVersion h \<noteq> Version then Inl (ErrVersion (hVersion h))
      else rbind (case hArgon2Salt h of
              Some s \<Rightarrow> Inr h
            | None \<Rightarrow> (case rnd of Inl e \<Rightarrow> Inl (ErrRead e) | Inr s \<Rightarrow> Inr (h\<lparr>hArgon2Salt := Some s\<rparr>)))
        (\<lambda>h. Inr (h\<lparr>hVersion := Version,
           hBlockKB := (if hBlockKB h = 0 then BlockKB_default else hBlockKB h),
           hArgon2Time := (if hArgon2Time h = 0 then Argon2Time_default else hArgon2Time h),
           hArgon2Memory := (if hArgon2Memory h = 0 then Argon2Memory_default else hArgon2Memory h),
           hArgon2Threads := (if hArgon2Threads h = 0 then Argon2Threads_default else hArgon2Threads h)\<rparr>)))"

definition NewEncryptWriterTo ::
  "argon2 \<Rightarrow> chacha_new \<Rightarrow> io_error + bytes \<Rightarrow> crypto_config \<Rightarrow> crypto_header option \<Rightarrow> source
     \<Rightarrow> crypto_error + writerTo" where
  "NewEncryptWriterTo IDKey New rnd cc ho r =
     (if Password cc = [] then Inl ErrEmptyPassword
      else rbind (encrypt_header rnd ho) (\<lambda>h. newWriterTo IDKey New cc h r True))"

definition NewDecryptWriterTo ::
  "argon2 \<Rightarrow> chacha_new \<Rightarrow> crypto_config \<Rightarrow> source \<Rightarrow> (crypto_error + writerTo) \<times> nat" where
  "NewDecryptWriterTo IDKey New cc r =
     (if Password cc = [] then (Inl ErrEmptyPassword, 0)
      else case NewHeader r of
        (Inl e, n, r') \<Rightarrow> (Inl (ErrRead e), n)
      | (Inr h, n, r') \<Rightarrow>
          if hVersion h \<noteq> Version then (Inl (ErrVersion (hVersion h)), n)
          else (newWriterTo IDKey New cc h r' False, n))"

section \<open>WriteTo on the machine\<close>

definition writerTo_ops :: "(nat \<Rightarrow> buffer) \<Rightarrow> writerTo \<Rightarrow> (read_state, buffer) pipe_ops" where
  "writerTo_ops pool wt = \<lparr>p_next = next_block pool (wEncrypt wt),
     p_crypt = crypt_block (wAead wt) (wEncrypt wt), p_result = (\<lambda>buf. view buf (result buf)),
     p_delta = (\<lambda>n. if wEncrypt wt then int n - int TagSize else int n + int TagSize),
     p_cap = unat (BlockQueue (wConfig wt))\<rparr>"

text \<open>
  The first lines of \<open>WriteTo\<close>: \<open>hw\<close> is the error of writing the header, if any. \<open>Inl\<close> is an early
  return, with the count and the error.
\<close>

definition WriteTo_start :: "writerTo \<Rightarrow> io_error option \<Rightarrow> (int \<times> io_error) + (read_state, buffer) pipe" where
  "WriteTo_start wt hw =
     (let s = \<lparr>rnonce = 0, rsource = wSource wt, rgets = 0\<rparr> in
      if wEncrypt wt then
        (case hw of Some e \<Rightarrow> Inl (0, e)
         | None \<Rightarrow> Inr (pipe_start s (the (Header_Bytes (wHeader wt))) 0))
      else Inr (pipe_start s [] (int HeaderLen)))"

section \<open>Well-formed buffers\<close>

definition buffer_wf :: "nat \<Rightarrow> buffer \<Rightarrow> bool" where
  "buffer_wf blk buf \<longleftrightarrow> block buf = blk \<and> length (full buf) = NonceSize + blk + TagSize \<and>
     dst buf = (NonceSize, NonceSize) \<and> nonce buf = (0, NonceSize) \<and>
     fst (plaintext buf) = NonceSize \<and> NonceSize \<le> snd (plaintext buf) \<and>
     snd (plaintext buf) \<le> NonceSize + blk \<and>
     ciphertext buf = (NonceSize, snd (plaintext buf) + TagSize) \<and>
     (short buf \<longleftrightarrow> snd (plaintext buf) \<noteq> NonceSize + blk)"

text \<open>A buffer set up for one direction, with \<open>p\<close> bytes of plaintext.\<close>

definition set_up :: "nat \<Rightarrow> bool \<Rightarrow> nat \<Rightarrow> buffer \<Rightarrow> bool" where
  "set_up blk enc p buf \<longleftrightarrow> buffer_wf blk buf \<and> p \<le> blk \<and> encrypt buf = enc \<and>
     plaintext buf = (NonceSize, NonceSize + p) \<and>
     src buf = (if enc then plaintext buf else ciphertext buf) \<and>
     result buf = (if enc then ciphertext buf else plaintext buf)"

lemma set_up_wf: "set_up blk enc p buf \<Longrightarrow> buffer_wf blk buf"
  by (simp add: set_up_def)

lemma newBuffer_wf: "buffer_wf blk (newBuffer blk)"
  by (simp add: buffer_wf_def newBuffer_def)

lemma WithRead_set_up:
  assumes "buffer_wf blk buf" and "n \<le> blk + (if encrypt buf then 0 else TagSize)"
  shows "set_up blk (encrypt buf)
    (if n \<le> (if encrypt buf then 0 else TagSize) then blk else n - (if encrypt buf then 0 else TagSize))
    (WithRead (int n) buf)"
  using assms by (auto simp: WithRead_def initsrc_def set_up_def buffer_wf_def Let_def nat_diff_distrib')

lemma Init_set_up:
  assumes "buffer_wf blk buf"
  shows "set_up blk enc blk (Init enc buf)"
proof (cases "short buf")
  case True
  have "buffer_wf blk (buf\<lparr>encrypt := enc\<rparr>)" using assms by (simp add: buffer_wf_def)
  from WithRead_set_up[OF this, of 0] show ?thesis using True by (simp add: Init_def)
next
  case False
  have "plaintext buf = (NonceSize, NonceSize + blk)"
    using assms False by (cases "plaintext buf") (simp add: buffer_wf_def)
  then show ?thesis
    using assms False by (auto simp: Init_def initsrc_def set_up_def buffer_wf_def)
qed

lemma set_up_src: "set_up blk enc p buf \<Longrightarrow> src buf = (NonceSize, NonceSize + p + (if enc then 0 else TagSize))"
  by (auto simp: set_up_def buffer_wf_def)

lemma set_up_result: "set_up blk enc p buf \<Longrightarrow> result buf = (NonceSize, NonceSize + p + (if enc then TagSize else 0))"
  by (auto simp: set_up_def buffer_wf_def)

section \<open>The array behind the slices\<close>

lemma overwrite_length [simp]: "i + length d \<le> length xs \<Longrightarrow> length (overwrite i d xs) = length xs"
  by (simp add: overwrite_def)

lemma overwrite_at: "i + length d \<le> length xs \<Longrightarrow> take (length d) (drop i (overwrite i d xs)) = d"
  by (simp add: overwrite_def)

lemma overwrite_before: "k \<le> i \<Longrightarrow> i \<le> length xs \<Longrightarrow> take k (overwrite i d xs) = take k xs"
  by (simp add: overwrite_def min_absorb1)

lemma overwrite_after:
  "j + length d \<le> i \<Longrightarrow> i \<le> length xs \<Longrightarrow> drop i (overwrite j d xs) = drop i xs"
  by (simp add: overwrite_def)

lemma set_up_full: "set_up blk enc p buf \<Longrightarrow> length f = NonceSize + blk + TagSize \<Longrightarrow> set_up blk enc p (buf\<lparr>full := f\<rparr>)"
  by (auto simp: set_up_def buffer_wf_def)

text \<open>What \<open>WriteTo\<close> sends on: the nonce is set and \<open>d\<close> is in the source slice.\<close>

definition nonce_of :: "u64 \<Rightarrow> bytes" where
  "nonce_of n = replicate 4 0 @ PutUint64 n"

lemma nonce_of_length [simp]: "length (nonce_of n) = NonceSize"
  by (simp add: nonce_of_def NonceSize_def)

definition loaded :: "nat \<Rightarrow> bool \<Rightarrow> u64 \<Rightarrow> bytes \<Rightarrow> buffer \<Rightarrow> bool" where
  "loaded blk enc n d buf \<longleftrightarrow> set_up blk enc (if enc then length d else length d - TagSize) buf \<and>
     (enc \<or> TagSize \<le> length d) \<and> view buf (nonce buf) = nonce_of n \<and> view buf (src buf) = d"

lemma filled:
  assumes wf: "buffer_wf blk b" and d: "length d \<le> (if enc then blk else blk + TagSize)"
    and buf: "buf = set_nonce n (Init enc b)"
    and buf': "buf' = buf\<lparr>full := overwrite (fst (src buf)) d (full buf)\<rparr>"
  shows "set_up blk enc blk buf'" "view buf' (nonce buf') = nonce_of n"
    "take (length d) (drop NonceSize (full buf')) = d"
    "src buf = src buf'"
proof -
  have up: "set_up blk enc blk (Init enc b)" by (rule Init_set_up[OF wf])
  let ?f = "overwrite 0 (nonce_of n) (full (Init enc b))"
  have lf: "length ?f = NonceSize + blk + TagSize" "take NonceSize ?f = nonce_of n"
    using up overwrite_at[of 0 "nonce_of n" "full (Init enc b)"]
    by (simp_all add: set_up_def buffer_wf_def)
  have nn: "nonce (Init enc b) = (0, NonceSize)" using up by (simp add: set_up_def buffer_wf_def)
  have eq: "buf' = (Init enc b)\<lparr>full := overwrite NonceSize d ?f\<rparr>"
    using set_up_src[OF up] nn by (simp add: buf buf' set_nonce_def nonce_of_def)
  have fit: "NonceSize + length d \<le> length ?f" using d lf(1) by (auto split: if_splits)
  show up': "set_up blk enc blk buf'"
    unfolding eq by (rule set_up_full[OF up]) (use fit lf(1) in simp)
  show "view buf' (nonce buf') = nonce_of n"
    using up' overwrite_before[of NonceSize NonceSize ?f d] lf fit
    by (simp add: set_up_def buffer_wf_def view_def slice_len_def) (simp add: eq)
  show "take (length d) (drop NonceSize (full buf')) = d"
    using overwrite_at[OF fit] by (simp add: eq)
  show "src buf = src buf'" by (simp add: buf')
qed

lemma loaded_fill:
  assumes "buffer_wf blk b" and d: "length d = (if enc then blk else blk + TagSize)"
    and buf: "buf = set_nonce n (Init enc b)"
  shows "loaded blk enc n d (buf\<lparr>full := overwrite (fst (src buf)) d (full buf)\<rparr>)"
proof -
  define buf' where "buf' = buf\<lparr>full := overwrite (fst (src buf)) d (full buf)\<rparr>"
  have le: "length d \<le> (if enc then blk else blk + TagSize)" using d by simp
  note f = filled[OF assms(1) le buf buf'_def]
  have "set_up blk enc (if enc then length d else length d - TagSize) buf'"
    using f(1) d by (auto split: if_splits)
  moreover have "view buf' (src buf') = d"
    using set_up_src[OF f(1)] f(3) d by (auto simp: view_def slice_len_def split: if_splits)
  ultimately show ?thesis using f(2) d by (auto simp: loaded_def buf'_def[symmetric])
qed

lemma loaded_short:
  assumes wf: "buffer_wf blk b" and d: "(if enc then 0 else TagSize) < length d"
      "length d \<le> (if enc then blk else blk + TagSize)"
    and buf: "buf = set_nonce n (Init enc b)"
  shows "loaded blk enc n d (WithRead (int (length d)) (buf\<lparr>full := overwrite (fst (src buf)) d (full buf)\<rparr>))"
proof -
  define buf' where "buf' = buf\<lparr>full := overwrite (fst (src buf)) d (full buf)\<rparr>"
  note f = filled[OF wf d(2) buf buf'_def]
  let ?p = "if enc then length d else length d - TagSize"
  let ?w = "WithRead (int (length d)) buf'"
  have enc: "encrypt buf' = enc" "nonce buf' = (0, NonceSize)" using f(1) by (simp_all add: set_up_def buffer_wf_def)
  have up: "set_up blk enc ?p ?w"
    using WithRead_set_up[OF set_up_wf[OF f(1)], of "length d"] d enc(1) by (auto split: if_splits)
  have same: "full ?w = full buf'" by (simp add: WithRead_def initsrc_def Let_def)
  have "view ?w (src ?w) = d"
    using set_up_src[OF up] f(3) d by (auto simp: view_def slice_len_def same split: if_splits)
  moreover have "view ?w (nonce ?w) = nonce_of n"
    using f(2) enc(2) up by (simp add: set_up_def buffer_wf_def view_def same)
  ultimately show ?thesis using up d by (auto simp: loaded_def buf'_def[symmetric] split: if_splits)
qed

section \<open>One block through the cipher\<close>

definition aead_correct :: "aead \<Rightarrow> bool" where
  "aead_correct a \<longleftrightarrow> (\<forall>n p. length n = NonceSize \<longrightarrow>
     length (Seal a n p) = length p + TagSize \<and> Open a n (Seal a n p) = Some p \<and>
     (\<forall>c. Open a n c = Some p \<longrightarrow> length c = length p + TagSize))"

lemma aead_correctD:
  assumes "aead_correct a"
  shows "length (Seal a (nonce_of n) p) = length p + TagSize" "Open a (nonce_of n) (Seal a (nonce_of n) p) = Some p"
    "length k = NonceSize \<Longrightarrow> Open a k c = Some p \<Longrightarrow> length c = length p + TagSize"
    "length k = NonceSize \<Longrightarrow> length (Seal a k p) = length p + TagSize"
  using assms by (simp_all add: aead_correct_def)

lemma view_result:
  assumes "set_up blk enc p buf" "length d = p + (if enc then TagSize else 0)"
  shows "view (buf\<lparr>full := overwrite (fst (dst buf)) d (full buf)\<rparr>) (result buf) = d"
proof -
  have "NonceSize + length d \<le> length (full buf)"
    using assms by (auto simp: set_up_def buffer_wf_def)
  from overwrite_at[OF this] show ?thesis
    using assms set_up_result[OF assms(1)] by (auto simp: view_def slice_len_def set_up_def buffer_wf_def)
qed

lemma crypt_block_seal:
  assumes "aead_correct a" "loaded blk True n d buf"
  shows "\<exists>buf'. crypt_block a True buf = Inr buf' \<and> view buf' (result buf') = Seal a (nonce_of n) d"
proof -
  have up: "set_up blk True (length d) buf" and n: "view buf (nonce buf) = nonce_of n"
      and s: "view buf (src buf) = d"
    using assms(2) by (simp_all add: loaded_def)
  have "src buf = plaintext buf" using up by (auto simp: set_up_def)
  note v = n s[unfolded this]
  show ?thesis
    using view_result[OF up, of "Seal a (nonce_of n) d"] aead_correctD(1)[OF assms(1), of n d]
    by (simp add: crypt_block_def v)
qed

lemma crypt_block_open:
  assumes "aead_correct a" "loaded blk False n (Seal a (nonce_of n) p) buf"
  shows "\<exists>buf'. crypt_block a False buf = Inr buf' \<and> view buf' (result buf') = p"
proof -
  have up: "set_up blk False (length p) buf" and n: "view buf (nonce buf) = nonce_of n"
      and s: "view buf (src buf) = Seal a (nonce_of n) p"
    using assms(2) aead_correctD(1)[OF assms(1), of n p] by (simp_all add: loaded_def)
  have "src buf = ciphertext buf" using up by (auto simp: set_up_def)
  note v = n s[unfolded this]
  show ?thesis
    using view_result[OF up, of p] aead_correctD(2)[OF assms(1), of n p]
    by (simp add: crypt_block_def v)
qed

section \<open>The file as a sequence of blocks\<close>

text \<open>What reading a block does, by how much the source still has.\<close>

lemma src_len:
  "buffer_wf blk b \<Longrightarrow> slice_len (src (set_nonce n (Init enc b))) = blk + (if enc then 0 else TagSize)"
  using set_up_src[OF Init_set_up] by (auto simp: set_nonce_def slice_len_def)

lemma next_block_full:
  assumes "buffer_wf blk (pool (rgets st))" "rsource st = (d @ r, fin)"
    and "length d = blk + (if enc then 0 else TagSize)" and "n = rnonce st + 1"
  obtains buf where "next_block pool enc st = (Full buf, st\<lparr>rnonce := n, rsource := (r, fin), rgets := rgets st + 1\<rparr>)"
    "loaded blk enc n d buf"
  using loaded_fill[OF assms(1) _ refl, of d enc n] src_len[OF assms(1), of n enc] assms
  by (auto simp: next_block_def Let_def ReadFull_def split: if_splits)

lemma next_block_last:
  assumes "buffer_wf blk (pool (rgets st))" "rsource st = (d, EOF)"
    and "(if enc then 0 else TagSize) < length d" "length d < blk + (if enc then 0 else TagSize)"
    and "n = rnonce st + 1"
  obtains buf where "next_block pool enc st = (Last buf, st\<lparr>rnonce := n, rsource := ([], EOF), rgets := rgets st + 1\<rparr>)"
    "loaded blk enc n d buf"
proof -
  have "length d \<le> (if enc then blk else blk + TagSize)" using assms(4) by (auto split: if_splits)
  note * = loaded_short[OF assms(1) assms(3) this refl, of n]
  have "d \<noteq> []" using assms(3) by auto
  then show ?thesis
    using * that src_len[OF assms(1), of n enc] assms(2,4,5)
    by (auto simp: next_block_def Let_def ReadFull_def)
qed

lemma next_block_end:
  assumes "buffer_wf blk (pool (rgets st))" "rsource st = ([], EOF)" "enc \<longrightarrow> 0 < blk"
  obtains st' where "next_block pool enc st = (NoMore EOF, st')"
  using src_len[OF assms(1), of "rnonce st + 1" enc] assms
  by (auto simp: next_block_def Let_def ReadFull_def TagSize_def split: if_splits)

text \<open>The encrypted form of some data, block by block, as a definition of its own.\<close>

function seal_blocks :: "aead \<Rightarrow> nat \<Rightarrow> u64 \<Rightarrow> bytes \<Rightarrow> bytes" where
  "seal_blocks a blk n data =
     (if data = [] \<or> blk = 0 then []
      else Seal a (nonce_of n) (take blk data) @ seal_blocks a blk (n + 1) (drop blk data))"
  by auto
termination by (relation "measure (\<lambda>(a, blk, n, data). length data)") auto

declare seal_blocks.simps [simp del]

lemma seal_blocks_Nil [simp]: "seal_blocks a blk n [] = []"
  by (simp add: seal_blocks.simps)

text \<open>A step of the read loop and of the cipher, put in front of the rest of the run.\<close>

definition run_of :: "(nat \<Rightarrow> buffer) \<Rightarrow> writerTo \<Rightarrow> read_state \<Rightarrow> bytes \<Rightarrow> int \<Rightarrow> bool" where
  "run_of pool wt st out cnt \<longleftrightarrow> (\<exists>bs. reads (writerTo_ops pool wt) st bs EOF \<and>
     all_crypted (writerTo_ops pool wt) bs \<and> outbytes (writerTo_ops pool wt) bs = out \<and>
     counted (writerTo_ops pool wt) bs = cnt)"

lemma run_of_end: "next_block pool (wEncrypt wt) st = (NoMore EOF, st') \<Longrightarrow> run_of pool wt st [] 0"
  unfolding run_of_def
  by (rule exI[of _ "[]"]) (auto simp: writerTo_ops_def all_crypted_def outbytes_def counted_def
      intro: reads_stop)

lemma run_of_last:
  assumes "wEncrypt wt = enc" "next_block pool enc st = (Last buf, st')"
    and "crypt_block (wAead wt) enc buf = Inr buf'" "view buf' (result buf') = o1"
  shows "run_of pool wt st o1 (p_delta (writerTo_ops pool wt) (length o1))"
  unfolding run_of_def
  by (rule exI[of _ "[buf]"]) (use assms in \<open>auto simp: writerTo_ops_def all_crypted_def outbytes_def
      counted_def intro: reads_last\<close>)

lemma run_of_more:
  assumes "wEncrypt wt = enc" "next_block pool enc st = (Full buf, st')"
    and "crypt_block (wAead wt) enc buf = Inr buf'" "view buf' (result buf') = o1"
    and "run_of pool wt st' o2 c2"
  shows "run_of pool wt st (o1 @ o2) (p_delta (writerTo_ops pool wt) (length o1) + c2)"
proof -
  obtain bs where bs: "reads (writerTo_ops pool wt) st' bs EOF" "all_crypted (writerTo_ops pool wt) bs"
    "outbytes (writerTo_ops pool wt) bs = o2" "counted (writerTo_ops pool wt) bs = c2"
    using assms(5) by (auto simp: run_of_def)
  show ?thesis
    unfolding run_of_def
    by (rule exI[of _ "buf # bs"]) (use assms(1-4) bs in \<open>auto simp: writerTo_ops_def all_crypted_def
        outbytes_def counted_def intro: reads_more\<close>)
qed

lemma encrypt_run:
  assumes "aead_correct (wAead wt)" "wEncrypt wt" "0 < blk" "\<And>i. buffer_wf blk (pool i)"
    and "rsource st = (data, EOF)"
  shows "run_of pool wt st (seal_blocks (wAead wt) blk (rnonce st + 1) data) (int (length data))"
  using assms(5)
proof (induction "length data" arbitrary: st data rule: less_induct)
  case less
  let ?n = "rnonce st + 1"
  consider "data = []" | "data \<noteq> []" "length data < blk" | "blk \<le> length data" by linarith
  then show ?case
  proof cases
    case 1
    obtain st' where "next_block pool (wEncrypt wt) st = (NoMore EOF, st')"
      using next_block_end[where enc = True and pool = pool and st = st, OF assms(4)] less.prems 1 assms(2,3) by auto
    then show ?thesis using run_of_end 1 by fastforce
  next
    case 2
    obtain buf where buf: "next_block pool True st = (Last buf, st\<lparr>rnonce := ?n, rsource := ([], EOF), rgets := rgets st + 1\<rparr>)"
      "loaded blk True ?n data buf"
      using next_block_last[where pool = pool and st = st and enc = True, OF assms(4) less.prems] 2 by auto
    obtain buf' where "crypt_block (wAead wt) True buf = Inr buf'" "view buf' (result buf') = Seal (wAead wt) (nonce_of ?n) data"
      using crypt_block_seal[OF assms(1) buf(2)] by blast
    from run_of_last[where wt = wt and enc = True, OF _ buf(1) this] show ?thesis
      using 2 assms(2) aead_correctD(1)[OF assms(1)] by (simp add: seal_blocks.simps[of _ _ _ data] writerTo_ops_def)
  next
    case 3
    let ?d = "take blk data" and ?r = "drop blk data"
    let ?st' = "st\<lparr>rnonce := ?n, rsource := (?r, EOF), rgets := rgets st + 1\<rparr>"
    obtain buf where buf: "next_block pool True st = (Full buf, ?st')" "loaded blk True ?n ?d buf"
      using next_block_full[where pool = pool and st = st and enc = True and d = ?d and r = ?r, OF assms(4)] less.prems 3 by auto
    obtain buf' where "crypt_block (wAead wt) True buf = Inr buf'" "view buf' (result buf') = Seal (wAead wt) (nonce_of ?n) ?d"
      using crypt_block_seal[OF assms(1) buf(2)] by blast
    moreover have "run_of pool wt ?st' (seal_blocks (wAead wt) blk (?n + 1) ?r) (int (length ?r))"
      using less.hyps[of ?r ?st'] 3 assms(3) by auto
    ultimately show ?thesis
      using run_of_more[where wt = wt and enc = True, OF _ buf(1)] 3 assms(2,3) aead_correctD(1)[OF assms(1)]
      by (force simp: seal_blocks.simps[of _ _ _ data] writerTo_ops_def)
  qed
qed

lemma seal_blocks_length_pos: "aead_correct a \<Longrightarrow> 0 < blk \<Longrightarrow> data \<noteq> [] \<Longrightarrow> TagSize < length (seal_blocks a blk n data)"
  using aead_correctD(1)[of a n "take blk data"] by (simp add: seal_blocks.simps[of _ _ _ data])

lemma decrypt_run:
  assumes "aead_correct (wAead wt)" "\<not> wEncrypt wt" "0 < blk" "\<And>i. buffer_wf blk (pool i)"
    and "rsource st = (seal_blocks (wAead wt) blk (rnonce st + 1) data, EOF)"
  shows "run_of pool wt st data (int (length (seal_blocks (wAead wt) blk (rnonce st + 1) data)))"
  using assms(5)
proof (induction "length data" arbitrary: st data rule: less_induct)
  case less
  let ?n = "rnonce st + 1" and ?a = "wAead wt"
  note len = aead_correctD(1)[OF assms(1)]
  consider "data = []" | "data \<noteq> []" "length data < blk" | "blk \<le> length data" by linarith
  then show ?case
  proof cases
    case 1
    obtain st' where "next_block pool (wEncrypt wt) st = (NoMore EOF, st')"
      using next_block_end[where enc = False and pool = pool and st = st, OF assms(4)] less.prems 1 assms(2) by auto
    then show ?thesis using run_of_end 1 by fastforce
  next
    case 2
    then have eq: "seal_blocks ?a blk ?n data = Seal ?a (nonce_of ?n) data"
      by (simp add: seal_blocks.simps[of _ _ _ data])
    obtain buf where buf: "next_block pool False st = (Last buf, st\<lparr>rnonce := ?n, rsource := ([], EOF), rgets := rgets st + 1\<rparr>)"
      "loaded blk False ?n (Seal ?a (nonce_of ?n) data) buf"
      using next_block_last[where pool = pool and st = st and enc = False, OF assms(4) less.prems[unfolded eq]] 2 len by auto
    obtain buf' where "crypt_block ?a False buf = Inr buf'" "view buf' (result buf') = data"
      using crypt_block_open[OF assms(1) buf(2)] by blast
    from run_of_last[where wt = wt and enc = False, OF _ buf(1) this] show ?thesis
      using assms(2) len unfolding eq by (auto simp: writerTo_ops_def)
  next
    case 3
    let ?d = "take blk data" and ?r = "drop blk data"
    let ?c = "seal_blocks ?a blk (?n + 1) ?r"
    let ?st' = "st\<lparr>rnonce := ?n, rsource := (?c, EOF), rgets := rgets st + 1\<rparr>"
    have eq: "seal_blocks ?a blk ?n data = Seal ?a (nonce_of ?n) ?d @ ?c"
      using 3 assms(3) by (auto simp: seal_blocks.simps[of _ _ _ data])
    obtain buf where buf: "next_block pool False st = (Full buf, ?st')" "loaded blk False ?n (Seal ?a (nonce_of ?n) ?d) buf"
      using next_block_full[where pool = pool and st = st and enc = False, OF assms(4) less.prems[unfolded eq]] 3 len by auto
    obtain buf' where "crypt_block ?a False buf = Inr buf'" "view buf' (result buf') = ?d"
      using crypt_block_open[OF assms(1) buf(2)] by blast
    moreover have "run_of pool wt ?st' ?r (int (length ?c))"
      using less.hyps[of ?r ?st'] 3 assms(3) by auto
    ultimately have "run_of pool wt st (?d @ ?r) (p_delta (writerTo_ops pool wt) (length ?d) + int (length ?c))"
      using run_of_more[where wt = wt and enc = False, OF _ buf(1)] assms(2) by blast
    then show ?thesis using 3 assms(2) len unfolding eq by (simp add: writerTo_ops_def)
  qed
qed

section \<open>Any source\<close>

text \<open>Whatever the source holds, the read loop ends, with at most one block per byte and one more.\<close>

lemma next_block_shrinks:
  assumes "buffer_wf blk (pool (rgets st))" "enc \<longrightarrow> 0 < blk" "next_block pool enc st = (Full buf, st')"
  shows "length (fst (rsource st')) < length (fst (rsource st))"
  using assms src_len[OF assms(1), of "rnonce st + 1" enc]
  by (auto simp: next_block_def Let_def ReadFull_def TagSize_def split: prod.splits if_splits option.splits io_error.splits)

lemma reads_exist:
  assumes "\<And>i. buffer_wf blk (pool i)" "wEncrypt wt \<longrightarrow> 0 < blk"
  shows "\<exists>bs e. reads (writerTo_ops pool wt) st bs e \<and> length bs \<le> length (fst (rsource st)) + 1"
proof (induction "length (fst (rsource st))" arbitrary: st rule: less_induct)
  case less
  obtain r st' where nb: "next_block pool (wEncrypt wt) st = (r, st')" by (cases "next_block pool (wEncrypt wt) st")
  then have pn: "p_next (writerTo_ops pool wt) st = (r, st')" by (simp add: writerTo_ops_def)
  show ?case
  proof (cases r)
    case (Full b)
    then have lt: "length (fst (rsource st')) < length (fst (rsource st))"
      using next_block_shrinks[where pool = pool, OF assms(1,2)] nb by blast
    then obtain bs e where "reads (writerTo_ops pool wt) st' bs e" "length bs \<le> length (fst (rsource st')) + 1"
      using less[of st'] by blast
    then have "reads (writerTo_ops pool wt) st (b # bs) e" "length (b # bs) \<le> length (fst (rsource st)) + 1"
      using pn Full lt by (auto intro: reads_more)
    then show ?thesis by blast
  next
    case (Last b)
    then have "reads (writerTo_ops pool wt) st [b] EOF" using pn by (auto intro: reads_last)
    then show ?thesis by (intro exI[of _ "[b]"] exI[of _ EOF]) simp
  next
    case (NoMore e)
    then have "reads (writerTo_ops pool wt) st [] e" using pn by (auto intro: reads_stop)
    then show ?thesis by (intro exI[of _ "[]"] exI[of _ e]) simp
  qed
qed

lemma next_block_set_up:
  assumes "buffer_wf blk (pool (rgets st))" "next_block pool enc st = (Full buf, st') \<or> next_block pool enc st = (Last buf, st')"
  shows "\<exists>p. set_up blk enc p buf"
proof -
  define n where "n = rnonce st + 1"
  define b0 where "b0 = set_nonce n (Init enc (pool (rgets st)))"
  obtain d err r' where rd: "ReadFull (rsource st) (slice_len (src b0)) = (d, err, r')"
    by (cases "ReadFull (rsource st) (slice_len (src b0))") auto
  define b1 where "b1 = b0\<lparr>full := overwrite (fst (src b0)) d (full b0)\<rparr>"
  have len: "length d \<le> (if enc then blk else blk + TagSize)"
    using rd src_len[OF assms(1), of n enc] by (auto simp: ReadFull_def b0_def split: prod.splits if_splits)
  note f = filled[OF assms(1) len b0_def b1_def]
  have "buf = b1 \<or> buf = WithRead (int (length d)) b1"
    using assms(2) rd by (auto simp: next_block_def Let_def n_def[symmetric] b0_def[symmetric] b1_def
        split: option.splits io_error.splits)
  moreover have "length d \<le> blk + (if encrypt b1 then 0 else TagSize)" and "encrypt b1 = enc"
    using len f(1) by (auto simp: set_up_def)
  ultimately show ?thesis using WithRead_set_up[OF set_up_wf[OF f(1)], of "length d"] f(1) by auto
qed

lemma crypt_block_wf:
  assumes "aead_correct a" "set_up blk enc p buf" "crypt_block a enc buf = Inr buf'"
  shows "buffer_wf blk buf'"
proof -
  have wf: "buffer_wf blk buf" and p: "p \<le> blk" and pt: "plaintext buf = (NonceSize, NonceSize + p)"
    using assms(2) by (simp_all add: set_up_def)
  have ct: "ciphertext buf = (NonceSize, NonceSize + p + TagSize)" "fst (dst buf) = NonceSize"
    "length (full buf) = NonceSize + blk + TagSize" "length (view buf (nonce buf)) = NonceSize"
    using wf pt by (simp_all add: buffer_wf_def view_def slice_len_def)
  have vl: "length (view buf (plaintext buf)) = p" "length (view buf (ciphertext buf)) = p + TagSize"
    using p ct(3) by (simp_all add: view_def slice_len_def pt ct(1))
  obtain d where d: "buf' = buf\<lparr>full := overwrite NonceSize d (full buf)\<rparr>" "length d \<le> p + TagSize"
    using assms(3) aead_correctD(3)[OF assms(1) ct(4)] aead_correctD(4)[OF assms(1) ct(4)] vl ct(2)
    by (fastforce simp: crypt_block_def split: if_splits option.splits)
  then show ?thesis using wf p ct(3) by (simp add: buffer_wf_def)
qed

section \<open>Headers\<close>

lemma Header_Bytes_read:
  assumes "Header_Bytes h = Some bs" "length (the (hArgon2Salt h)) = 32"
  shows "length bs = HeaderLen \<and> NewHeader (bs @ rest, fin) = (Inr h, HeaderLen, (rest, fin))"
proof -
  obtain salt where salt: "hArgon2Salt h = Some salt" "length salt = 32"
    using assms by (auto simp: Header_Bytes_def split: option.splits)
  have bs: "bs = PutUint16 (hVersion h) @ hBlockKB h # PutUint32 (hArgon2Time h) @
      PutUint32 (hArgon2Memory h) @ hArgon2Threads h # salt"
    using assms(1) salt by (simp add: Header_Bytes_def)
  have len: "length bs = 44" using salt(2) by (simp add: bs)
  have "drop 3 bs = PutUint32 (hArgon2Time h) @ PutUint32 (hArgon2Memory h) @ hArgon2Threads h # salt"
    "drop 7 bs = PutUint32 (hArgon2Memory h) @ hArgon2Threads h # salt"
    "drop 12 bs = salt" "bs ! 2 = hBlockKB h" "bs ! 11 = hArgon2Threads h"
    by (simp_all add: bs nth_append)
  then show ?thesis
    using len salt by (simp add: NewHeader_def ReadFull_def HeaderLen_def) (simp add: bs)
qed

lemma encrypt_header_ok:
  assumes "encrypt_header rnd ho = Inr h" "\<forall>s. rnd = Inr s \<longrightarrow> length s = 32"
    and "\<forall>h0 s. ho = Some h0 \<longrightarrow> hArgon2Salt h0 = Some s \<longrightarrow> length s = 32"
  shows "hVersion h = Version" "hBlockKB h \<noteq> 0" "\<exists>bs. Header_Bytes h = Some bs" "length (the (hArgon2Salt h)) = 32"
  using assms
  by (auto simp: encrypt_header_def Let_def rbind_Inr_iff Header_Bytes_def zero_header_def BlockKB_default_def
      split: if_splits option.splits sum.splits)

lemma newWriterTo_ok:
  assumes "newWriterTo IDKey New cc h r enc = Inr wt"
  shows "wEncrypt wt = enc" "wSource wt = r" "wHeader wt = h" "wBlock wt = unat (hBlockKB h) * 1024"
    "0 < unat (BlockQueue (wConfig wt))" "\<exists>k. KeyDerive IDKey h (Password cc) = Inr k \<and> New k = Inr (wAead wt)"
proof -
  obtain k where k: "KeyDerive IDKey h (Password cc) = Inr k"
    using assms by (auto simp: newWriterTo_def rbind_Inr_iff)
  then obtain a where "New k = Inr a" using assms by (cases "New k") (auto simp: newWriterTo_def)
  note ka = k this
  then have wt: "wt = \<lparr>wConfig = if BlockQueue cc = 0 then cc\<lparr>BlockQueue := BlockQueue_default\<rparr> else cc,
      wEncrypt = enc, wSource = r, wHeader = h, wAead = a, wBlock = push_bit 10 (unat (hBlockKB h))\<rparr>"
    using assms by (simp add: newWriterTo_def Let_def)
  then show "wEncrypt wt = enc" "wSource wt = r" "wHeader wt = h" "wBlock wt = unat (hBlockKB h) * 1024"
    "\<exists>k. KeyDerive IDKey h (Password cc) = Inr k \<and> New k = Inr (wAead wt)"
    using ka by (simp_all add: push_bit_eq_mult)
  show "0 < unat (BlockQueue (wConfig wt))"
    by (simp add: wt BlockQueue_default_def unat_gt_0)
qed

lemma newWriterTo_same_key:
  assumes "newWriterTo IDKey New cc h r enc = Inr wt" "Password cc' = Password cc"
  shows "\<exists>wt'. newWriterTo IDKey New cc' h r' enc' = Inr wt' \<and> wAead wt' = wAead wt"
  using newWriterTo_ok(6)[OF assms(1)] assms(2) by (auto simp: newWriterTo_def Let_def)

section \<open>Properties\<close>

lemma WriteTo_complete:
  assumes run: "run_of pool wt \<lparr>rnonce = 0, rsource = wSource wt, rgets = 0\<rparr> out cnt"
    and start: "WriteTo_start wt None = Inr st0"
    and reach: "reach (pipe_step (writerTo_ops pool wt) fails) st0 st"
  shows "pmain st = MRet None \<Longrightarrow> pout st = pout st0 @ out \<and> pnn st = pnn st0 + cnt"
    and "pmain st = MRet d \<Longrightarrow> \<not> fails \<Longrightarrow> d = None"
proof -
  let ?s = "\<lparr>rnonce = 0, rsource = wSource wt, rgets = 0\<rparr>" and ?ops = "writerTo_ops pool wt"
  obtain bs where bs: "reads ?ops ?s bs EOF" "all_crypted ?ops bs" "outbytes ?ops bs = out" "counted ?ops bs = cnt"
    using run by (auto simp: run_of_def)
  have st0: "st0 = pipe_start ?s (pout st0) (pnn st0)"
    using start by (auto simp: WriteTo_start_def Let_def pipe_start_def split: if_splits)
  have inv: "result_inv ?ops fails (pout st0) (pnn st0) bs EOF st"
    by (rule pipe_reachable(3)[OF bs(1)]) (use reach st0 in simp)
  show "pout st = pout st0 @ out \<and> pnn st = pnn st0 + cnt" if "pmain st = MRet None"
    using inv that bs by (simp add: result_inv_def complete_def)
  show "d = None" if "pmain st = MRet d" "\<not> fails"
    using inv that bs(2)
    by (cases d) (force simp: result_inv_def error_ok_def all_crypted_def list_all_iff is_ok_def)+
qed

lemma WriteTo_returns:
  assumes run: "run_of pool wt \<lparr>rnonce = 0, rsource = wSource wt, rgets = 0\<rparr> out cnt"
    and start: "WriteTo_start wt None = Inr st0" and cap: "0 < unat (BlockQueue (wConfig wt))"
  shows "\<exists>st. reach (pipe_step (writerTo_ops pool wt) False) st0 st \<and> pmain st = MRet None"
proof -
  let ?s = "\<lparr>rnonce = 0, rsource = wSource wt, rgets = 0\<rparr>" and ?ops = "writerTo_ops pool wt"
  obtain bs where bs: "reads ?ops ?s bs EOF" using run by (auto simp: run_of_def)
  have st0: "st0 = pipe_start ?s (pout st0) (pnn st0)"
    using start by (auto simp: WriteTo_start_def Let_def pipe_start_def split: if_splits)
  have "main_rest ?ops EOF st0 bs" using bs by (subst st0) (simp add: main_rest_def pipe_start_def)
  moreover have "control_inv st0" by (subst st0) (rule control_inv_start)
  moreover have "0 < p_cap ?ops" using cap by (simp add: writerTo_ops_def)
  ultimately obtain st d where st: "reach (pipe_step ?ops False) st0 st" "pmain st = MRet d"
    using run_to_return by blast
  then show ?thesis using WriteTo_complete(2)[OF run start st(1,2)] by auto
qed

lemma NewEncryptWriterTo_ok:
  assumes "NewEncryptWriterTo IDKey New rnd cc ho r = Inr wt"
    and "\<forall>s. rnd = Inr s \<longrightarrow> length s = 32"
    and "\<forall>h s. ho = Some h \<longrightarrow> hArgon2Salt h = Some s \<longrightarrow> length s = 32"
  shows "hVersion (wHeader wt) = Version" "0 < wBlock wt" "wEncrypt wt" "wSource wt = r"
    "newWriterTo IDKey New cc (wHeader wt) r True = Inr wt" "Password cc \<noteq> []"
    "\<exists>bs. Header_Bytes (wHeader wt) = Some bs \<and>
       (\<forall>rest fin. NewHeader (bs @ rest, fin) = (Inr (wHeader wt), HeaderLen, (rest, fin))) \<and> length bs = HeaderLen"
proof -
  obtain h where h: "encrypt_header rnd ho = Inr h" "newWriterTo IDKey New cc h r True = Inr wt"
    using assms(1) by (auto simp: NewEncryptWriterTo_def rbind_Inr_iff split: if_splits)
  note hd = encrypt_header_ok[OF h(1) assms(2,3)] and w = newWriterTo_ok[OF h(2)]
  show "hVersion (wHeader wt) = Version" "wEncrypt wt" "wSource wt = r" using hd w by simp_all
  show "newWriterTo IDKey New cc (wHeader wt) r True = Inr wt" using h(2) w(3) by simp
  show "0 < wBlock wt" using hd(2) by (simp add: w(4) unat_gt_0)
  show "Password cc \<noteq> []" using assms(1) by (auto simp: NewEncryptWriterTo_def)
  show "\<exists>bs. Header_Bytes (wHeader wt) = Some bs \<and>
       (\<forall>rest fin. NewHeader (bs @ rest, fin) = (Inr (wHeader wt), HeaderLen, (rest, fin))) \<and> length bs = HeaderLen"
    using hd(3,4) Header_Bytes_read unfolding w(3) by blast
qed

text \<open>
  C2: what \<open>WriteTo\<close> of an encrypting writer wrote when it returned nil is read back by the
  decrypting one: \<open>NewDecryptWriterTo\<close> accepts it with the same password, and every complete run of its
  \<open>WriteTo\<close> gives the original data, with both byte counts right; without write errors no run
  returns an error. This holds for every scheduling of the goroutines and every well-formed
  content of the buffer pools.
\<close>

theorem cryptofile_roundtrip:
  assumes cipher: "\<forall>k a. New k = Inr a \<longrightarrow> aead_correct a"
    and salts: "\<forall>s. rnd = Inr s \<longrightarrow> length s = 32" "\<forall>h s. ho = Some h \<longrightarrow> hArgon2Salt h = Some s \<longrightarrow> length s = 32"
    and wt: "NewEncryptWriterTo IDKey New rnd cc ho (data, EOF) = Inr wt"
    and pool: "\<forall>i. buffer_wf (wBlock wt) (pool i)"
    and run: "WriteTo_start wt None = Inr st0" "reach (pipe_step (writerTo_ops pool wt) fails) st0 st"
      "pmain st = MRet None"
    and password: "Password cc' = Password cc"
  shows "pnn st = int (length data) \<and>
    (\<exists>wt'. NewDecryptWriterTo IDKey New cc' (pout st, EOF) = (Inr wt', HeaderLen) \<and>
       (\<forall>pool' fails' st0' st'. (\<forall>i. buffer_wf (wBlock wt') (pool' i)) \<longrightarrow>
          WriteTo_start wt' None = Inr st0' \<longrightarrow>
          reach (pipe_step (writerTo_ops pool' wt') fails') st0' st' \<longrightarrow>
          (pmain st' = MRet None \<longrightarrow> pout st' = data \<and> pnn st' = int (length (pout st))) \<and>
          (\<not> fails' \<longrightarrow> (\<forall>d. pmain st' = MRet d \<longrightarrow> d = None))))"
proof -
  note ok = NewEncryptWriterTo_ok[OF wt salts]
  let ?a = "wAead wt" and ?s = "\<lambda>r. \<lparr>rnonce = 0, rsource = r, rgets = 0\<rparr>"
  have aead: "aead_correct ?a" using newWriterTo_ok(6)[OF ok(5)] cipher by blast
  obtain hdr where hdr: "Header_Bytes (wHeader wt) = Some hdr" "length hdr = HeaderLen"
    "\<And>rest fin. NewHeader (hdr @ rest, fin) = (Inr (wHeader wt), HeaderLen, (rest, fin))"
    using ok(7) by blast
  have st0: "pout st0 = hdr" "pnn st0 = 0" using run(1) ok(3) hdr(1) by (auto simp: WriteTo_start_def pipe_start_def)
  let ?body = "seal_blocks ?a (wBlock wt) 1 data"
  have "run_of pool wt (?s (wSource wt)) ?body (int (length data))"
    using encrypt_run[OF aead ok(3,2), of pool "?s (wSource wt)" data] pool ok(4) by simp
  from WriteTo_complete(1)[OF this run] have out: "pout st = hdr @ ?body" "pnn st = int (length data)"
    using st0 by simp_all
  obtain wt' where wt': "newWriterTo IDKey New cc' (wHeader wt) (?body, EOF) False = Inr wt'" "wAead wt' = ?a"
    using newWriterTo_same_key[OF ok(5) password] by blast
  note w' = newWriterTo_ok[OF wt'(1)]
  have "NewDecryptWriterTo IDKey New cc' (pout st, EOF) = (Inr wt', HeaderLen)"
    using ok(1,6) password wt'(1) hdr(3) out(1) by (simp add: NewDecryptWriterTo_def)
  moreover have "(pmain st' = MRet None \<longrightarrow> pout st' = data \<and> pnn st' = int (length (pout st))) \<and>
      (\<not> fails' \<longrightarrow> (\<forall>d. pmain st' = MRet d \<longrightarrow> d = None))"
    if r: "\<forall>i. buffer_wf (wBlock wt') (pool' i)" "WriteTo_start wt' None = Inr st0'"
      "reach (pipe_step (writerTo_ops pool' wt') fails') st0' st'" for pool' fails' st0' st'
  proof -
    have b: "wBlock wt' = wBlock wt" using w'(4) newWriterTo_ok(4)[OF ok(5)] by simp
    have "run_of pool' wt' (?s (wSource wt')) data (int (length ?body))"
      using decrypt_run[of wt' "wBlock wt" pool' "?s (wSource wt')" data] aead ok(2) r(1) b w'(1,2) wt'(2) by simp
    note * = WriteTo_complete[OF this r(2,3)]
    have "pout st0' = []" "pnn st0' = int HeaderLen" using r(2) w'(1) by (auto simp: WriteTo_start_def pipe_start_def)
    then show ?thesis using * out(1) hdr(2) by auto
  qed
  ultimately show ?thesis using out(2) by blast
qed

text \<open>A cipher and a key derivation for examples: the tag is sixteen zero bytes.\<close>

definition example_aead :: aead where
  "example_aead = \<lparr>Seal = (\<lambda>n p. p @ replicate 16 0),
     Open = (\<lambda>n c. if length c < 16 \<or> drop (length c - 16) c \<noteq> replicate 16 0 then None
       else Some (take (length c - 16) c))\<rparr>"

definition example_writer :: "bytes \<Rightarrow> crypto_error + writerTo" where
  "example_writer data = NewEncryptWriterTo (\<lambda>p s t m c n. Some p) (\<lambda>k. Inr example_aead) (Inr (replicate 32 7))
     \<lparr>Password = [1], BlockQueue = 0\<rparr> None (data, EOF)"

lemma example_aead_correct: "aead_correct example_aead"
  by (auto simp: aead_correct_def example_aead_def TagSize_def split: if_splits)

lemma example_writer_eq:
  "example_writer data = Inr \<lparr>wConfig = \<lparr>Password = [1], BlockQueue = 8\<rparr>, wEncrypt = True, wSource = (data, EOF),
     wHeader = \<lparr>hVersion = 1, hBlockKB = 255, hArgon2Time = 4, hArgon2Memory = 32768, hArgon2Threads = 4,
       hArgon2Salt = Some (replicate 32 7)\<rparr>, wAead = example_aead, wBlock = 261120\<rparr>"
  by (simp add: example_writer_def NewEncryptWriterTo_def encrypt_header_def newWriterTo_def KeyDerive_def
      zero_header_def crypto_consts Let_def push_bit_eq_mult)

theorem cryptofile_roundtrip_witness:
  "\<exists>wt st0 st wt'. example_writer [1, 2, 3] = Inr wt \<and> WriteTo_start wt None = Inr st0 \<and>
     reach (pipe_step (writerTo_ops (\<lambda>i. newBuffer (wBlock wt)) wt) False) st0 st \<and> pmain st = MRet None \<and>
     pnn st = 3 \<and>
     NewDecryptWriterTo (\<lambda>p s t m c n. Some p) (\<lambda>k. Inr example_aead) \<lparr>Password = [1], BlockQueue = 2\<rparr> (pout st, EOF)
       = (Inr wt', 44)"
proof -
  obtain wt where wt: "example_writer [1, 2, 3] = Inr wt" by (simp add: example_writer_eq)
  define st0 where "st0 = projr (WriteTo_start wt None)"
  have start: "WriteTo_start wt None = Inr st0" by (simp add: st0_def WriteTo_start_def Let_def)
  have w: "aead_correct (wAead wt)" "wEncrypt wt" "0 < wBlock wt" "wSource wt = ([1, 2, 3], EOF)"
      "0 < unat (BlockQueue (wConfig wt))"
    using wt example_aead_correct by (auto simp: example_writer_eq)
  have "run_of (\<lambda>i. newBuffer (wBlock wt)) wt \<lparr>rnonce = 0, rsource = wSource wt, rgets = 0\<rparr>
      (seal_blocks (wAead wt) (wBlock wt) 1 [1, 2, 3]) 3"
    using encrypt_run[OF w(1-3), of "\<lambda>i. newBuffer (wBlock wt)" "\<lparr>rnonce = 0, rsource = wSource wt, rgets = 0\<rparr>" "[1, 2, 3]"]
      w(4) newBuffer_wf by simp
  then obtain st where st: "reach (pipe_step (writerTo_ops (\<lambda>i. newBuffer (wBlock wt)) wt) False) st0 st"
    "pmain st = MRet None"
    using WriteTo_returns[OF _ start w(5)] by blast
  show ?thesis
    using cryptofile_roundtrip[of "\<lambda>k. Inr example_aead" "Inr (replicate 32 7)" None "\<lambda>p s t m c n. Some p"
        "\<lparr>Password = [1], BlockQueue = 0\<rparr>" "[1, 2, 3]" wt "\<lambda>i. newBuffer (wBlock wt)" st0 False st
        "\<lparr>Password = [1], BlockQueue = 2\<rparr>"] wt start st example_aead_correct newBuffer_wf
    by (auto simp: example_writer_def HeaderLen_def)
qed

text \<open>
  C15: whatever the source, the pool and the scheduling, every run of \<open>WriteTo\<close> after the header
  is finite, with a bound given by the number of bytes, and it can only stop when \<open>WriteTo\<close> has returned.
\<close>

theorem WriteTo_terminates:
  assumes wt: "newWriterTo IDKey New cc h r enc = Inr wt" and blk: "enc \<longrightarrow> hBlockKB h \<noteq> 0"
    and pool: "\<forall>i. buffer_wf (wBlock wt) (pool i)"
    and start: "WriteTo_start wt None = Inr st0"
    and run: "((pipe_step (writerTo_ops pool wt) fails) ^^ n) st0 st"
  shows "n \<le> 6 * length (fst r) + 12 \<and>
    ((\<forall>st'. \<not> pipe_step (writerTo_ops pool wt) fails st st') \<longrightarrow> (\<exists>d. pmain st = MRet d))"
proof -
  let ?ops = "writerTo_ops pool wt" and ?s = "\<lparr>rnonce = 0, rsource = r, rgets = 0\<rparr>"
  note w = newWriterTo_ok[OF wt]
  have "wEncrypt wt \<longrightarrow> 0 < wBlock wt" using w(1,4) blk by (auto simp: unat_gt_0)
  then obtain bs e where bs: "reads ?ops ?s bs e" "length bs \<le> length (fst r) + 1"
    using reads_exist[of "wBlock wt" pool wt ?s] pool by auto
  obtain hdr n0 where st0: "st0 = pipe_start ?s hdr n0"
    using start w(2) by (auto simp: WriteTo_start_def Let_def split: if_splits)
  have "main_rest ?ops e st0 bs" using bs(1) by (simp add: st0 main_rest_def pipe_start_def)
  from run_length_bound[OF run this] have "n \<le> 6 * length (fst r) + 12"
    using bs(2) by (simp add: st0 weights pipe_start_def)
  moreover have "reach (pipe_step ?ops fails) st0 st" by (rule reach_relpowp[OF run])
  then have "control_inv st" using pipe_reachable(1)[OF bs(1)] st0 by blast
  ultimately show ?thesis using main_not_stuck[of st ?ops fails] w(5) by (auto simp: writerTo_ops_def)
qed

theorem WriteTo_terminates_witness:
  "\<exists>wt st0. example_writer [1, 2, 3] = Inr wt \<and> WriteTo_start wt None = Inr st0 \<and>
     (\<forall>n st. ((pipe_step (writerTo_ops (\<lambda>i. newBuffer (wBlock wt)) wt) True) ^^ n) st0 st \<longrightarrow> n \<le> 30)"
proof -
  obtain wt where wt: "example_writer [1, 2, 3] = Inr wt" by (simp add: example_writer_eq)
  define st0 where "st0 = projr (WriteTo_start wt None)"
  have start: "WriteTo_start wt None = Inr st0" by (simp add: st0_def WriteTo_start_def Let_def)
  obtain h where h: "newWriterTo (\<lambda>p s t m c n. Some p) (\<lambda>k. Inr example_aead) \<lparr>Password = [1], BlockQueue = 0\<rparr> h
      ([1, 2, 3], EOF) True = Inr wt" "hBlockKB h \<noteq> 0"
    using wt encrypt_header_ok(2) by (force simp: example_writer_def NewEncryptWriterTo_def rbind_Inr_iff)
  have "n \<le> 30" if "((pipe_step (writerTo_ops (\<lambda>i. newBuffer (wBlock wt)) wt) True) ^^ n) st0 st" for n st
    using WriteTo_terminates[OF h(1) _ _ start that] h(2) newBuffer_wf by simp
  then show ?thesis using wt start by blast
qed

text \<open>
  C16: at every moment of every run over any source, what has been written (after the header) is a
  prefix of the results of the blocks of that source, up to the first one that does not decrypt;
  when \<open>WriteTo\<close> returns nil, the source ended with EOF, every block came through and all of it was
  written; when it returns an error, that is the source's, a failed authentication, or the
  destination's.
\<close>

theorem WriteTo_safe:
  assumes wt: "newWriterTo IDKey New cc h r enc = Inr wt" and blk: "enc \<longrightarrow> hBlockKB h \<noteq> 0"
    and pool: "\<forall>i. buffer_wf (wBlock wt) (pool i)"
    and start: "WriteTo_start wt None = Inr st0"
  shows "\<exists>bs e. reads (writerTo_ops pool wt) (psrc st0) bs e \<and>
    (\<forall>st. reach (pipe_step (writerTo_ops pool wt) fails) st0 st \<longrightarrow>
       prefix (pout st) (pout st0 @ outbytes (writerTo_ops pool wt) bs) \<and>
       (pmain st = MRet None \<longrightarrow> complete (writerTo_ops pool wt) (pout st0) (pnn st0) bs e st) \<and>
       (\<forall>x. pmain st = MRet (Some x) \<longrightarrow> error_ok (writerTo_ops pool wt) fails bs e x))"
proof -
  let ?ops = "writerTo_ops pool wt" and ?s = "\<lparr>rnonce = 0, rsource = r, rgets = 0\<rparr>"
  note w = newWriterTo_ok[OF wt]
  have "wEncrypt wt \<longrightarrow> 0 < wBlock wt" using w(1,4) blk by (auto simp: unat_gt_0)
  then obtain bs e where bs: "reads ?ops ?s bs e"
    using reads_exist[of "wBlock wt" pool wt ?s] pool by auto
  have st0: "st0 = pipe_start ?s (pout st0) (pnn st0)" "psrc st0 = ?s"
    using start w(2) by (auto simp: WriteTo_start_def Let_def pipe_start_def split: if_splits)
  have "result_inv ?ops fails (pout st0) (pnn st0) bs e st" if "reach (pipe_step ?ops fails) st0 st" for st
    using pipe_reachable(3)[OF bs, of fails "pout st0" "pnn st0" st] that st0(1) by simp
  then show ?thesis using bs unfolding st0(2) by (intro exI[of _ bs] exI[of _ e]) (auto simp: result_inv_def)
qed

theorem WriteTo_safe_witness:
  "\<exists>wt st0 bs e. example_writer [1, 2, 3] = Inr wt \<and> WriteTo_start wt None = Inr st0 \<and>
     (\<forall>st. reach (pipe_step (writerTo_ops (\<lambda>i. newBuffer (wBlock wt)) wt) True) st0 st \<longrightarrow>
        prefix (pout st) (pout st0 @ outbytes (writerTo_ops (\<lambda>i. newBuffer (wBlock wt)) wt) bs))"
proof -
  obtain wt where wt: "example_writer [1, 2, 3] = Inr wt" by (simp add: example_writer_eq)
  define st0 where "st0 = projr (WriteTo_start wt None)"
  have start: "WriteTo_start wt None = Inr st0" by (simp add: st0_def WriteTo_start_def Let_def)
  obtain h where h: "newWriterTo (\<lambda>p s t m c n. Some p) (\<lambda>k. Inr example_aead) \<lparr>Password = [1], BlockQueue = 0\<rparr> h
      ([1, 2, 3], EOF) True = Inr wt" "hBlockKB h \<noteq> 0"
    using wt encrypt_header_ok(2) by (force simp: example_writer_def NewEncryptWriterTo_def rbind_Inr_iff)
  show ?thesis
    using WriteTo_safe[OF h(1) _ _ start, of "\<lambda>i. newBuffer (wBlock wt)" True] h(2) newBuffer_wf wt start by blast
qed

text \<open>
  C17: when the source ends with EOF and the destination does not fail, no run panics, and when
  nothing can happen any more \<open>WriteTo\<close> has returned and both its goroutines have ended.
\<close>

theorem WriteTo_clean_shutdown:
  assumes cap: "0 < unat (BlockQueue (wConfig wt))"
    and reads: "reads (writerTo_ops pool wt) s bs EOF"
    and run: "reach (pipe_step (writerTo_ops pool wt) False) (pipe_start s hdr nn0) st"
  shows "\<not> ppanic st \<and> ((\<forall>st'. \<not> pipe_step (writerTo_ops pool wt) False st st') \<longrightarrow>
    (\<exists>d. pmain st = MRet d) \<and> pcrypt st = CExit \<and> pwriter st = WExit)"
proof -
  have c: "control_inv st" "clean_inv st" using pipe_reachable(1)[OF reads run] clean_reachable[OF reads run] .
  have "\<exists>d. pmain st = MRet d" if "\<forall>st'. \<not> pipe_step (writerTo_ops pool wt) False st st'"
    using main_not_stuck[OF c(1), of "writerTo_ops pool wt" False] cap that by (auto simp: writerTo_ops_def)
  then show ?thesis using c by (auto simp: control_inv_def clean_inv_def)
qed

theorem WriteTo_clean_shutdown_witness:
  "\<exists>wt st. example_writer [] = Inr wt \<and>
     reach (pipe_step (writerTo_ops (\<lambda>i. newBuffer (wBlock wt)) wt) False)
       (pipe_start \<lparr>rnonce = 0, rsource = ([], EOF), rgets = 0\<rparr> [] 0) st \<and> \<not> ppanic st"
proof -
  obtain wt where wt: "example_writer [] = Inr wt" by (simp add: example_writer_eq)
  let ?pool = "\<lambda>i. newBuffer (wBlock wt)" and ?s = "\<lparr>rnonce = 0, rsource = ([], EOF), rgets = 0\<rparr>"
  have w: "0 < unat (BlockQueue (wConfig wt))" "wEncrypt wt" "0 < wBlock wt" using wt by (auto simp: example_writer_eq)
  obtain s' where "next_block ?pool True ?s = (NoMore EOF, s')"
    using next_block_end[of "wBlock wt" ?pool ?s True] newBuffer_wf w(3) by auto
  then have "reads (writerTo_ops ?pool wt) ?s [] EOF" using w(2) by (auto simp: writerTo_ops_def intro: reads_stop)
  from WriteTo_clean_shutdown[OF w(1) this reach_refl, of "[]" 0] show ?thesis
    using wt by (intro exI[of _ wt] exI[of _ "pipe_start ?s [] 0"]) (simp add: reach_refl)
qed

text \<open>
  The shutdown is not clean when the destination fails while a block that does not decrypt is
  still on its way: the last \<open>return\<close> of \<open>WriteTo\<close> closes \<open>cryptErrCh\<close> and leaves \<open>cancelCh\<close> open, and
  \<open>cryptLoop\<close> then sends its error on a closed channel, which panics.
\<close>

theorem WriteTo_panics_after_write_error:
  assumes "reads (writerTo_ops pool wt) s [b1, b2] EOF" "0 < unat (BlockQueue (wConfig wt))"
    and "crypt_block (wAead wt) (wEncrypt wt) b1 = Inr c1" "crypt_block (wAead wt) (wEncrypt wt) b2 = Inl e"
  shows "\<exists>st. reach (pipe_step (writerTo_ops pool wt) True) (pipe_start s hdr nn0) st \<and>
    pmain st = MRet (Some x) \<and> ppanic st"
  by (rule panic_run[OF assms(1)]) (use assms(2-4) in \<open>simp_all add: writerTo_ops_def\<close>)

theorem WriteTo_panics_after_write_error_witness:
  "\<exists>pool wt s hdr nn0 st. \<not> wEncrypt wt \<and> reach (pipe_step (writerTo_ops pool wt) True) (pipe_start s hdr nn0) st \<and>
     pmain st = MRet (Some ErrShortWrite) \<and> ppanic st"
proof -
  define pool :: "nat \<Rightarrow> buffer" where "pool = (\<lambda>i. newBuffer 0)"
  define s where "s = \<lparr>rnonce = 0, rsource = (replicate 16 0 @ replicate 16 1, EOF), rgets = 0\<rparr>"
  obtain wt where wt: "newWriterTo (\<lambda>p s t m c n. Some p) (\<lambda>k. Inr example_aead) \<lparr>Password = [1], BlockQueue = 0\<rparr>
      (zero_header\<lparr>hArgon2Salt := Some []\<rparr>) ([], EOF) False = Inr wt"
    by (simp add: newWriterTo_def KeyDerive_def zero_header_def Let_def)
  then have w: "\<not> wEncrypt wt" "wAead wt = example_aead" "0 < unat (BlockQueue (wConfig wt))"
    using newWriterTo_ok[OF wt] by (simp_all add: newWriterTo_def KeyDerive_def zero_header_def Let_def)
  have pool: "buffer_wf 0 (pool i)" for i by (simp add: pool_def newBuffer_wf)
  let ?s1 = "s\<lparr>rnonce := 1, rsource := (replicate 16 1, EOF), rgets := 1\<rparr>"
  let ?s2 = "s\<lparr>rnonce := 2, rsource := ([], EOF), rgets := 2\<rparr>"
  obtain b1 where b1: "next_block pool False s = (Full b1, ?s1)" "loaded 0 False 1 (replicate 16 0) b1"
    using next_block_full[of 0 pool s "replicate 16 0" "replicate 16 1" EOF False 1] pool
    by (auto simp: s_def TagSize_def)
  obtain b2 where b2: "next_block pool False ?s1 = (Full b2, ?s2)" "loaded 0 False 2 (replicate 16 1) b2"
    using next_block_full[of 0 pool ?s1 "replicate 16 1" "[]" EOF False 2] pool
    by (auto simp: s_def TagSize_def numeral_2_eq_2)
  obtain s3 where s3: "next_block pool False ?s2 = (NoMore EOF, s3)"
    using next_block_end[of 0 pool ?s2 False] pool by (auto simp: s_def)
  have reads: "reads (writerTo_ops pool wt) s [b1, b2] EOF"
    by (rule reads_more[OF _ reads_more[OF _ reads_stop]])
      (use b1(1) b2(1) s3 w(1) in \<open>simp_all add: writerTo_ops_def\<close>)
  obtain c1 where c1: "crypt_block example_aead False b1 = Inr c1"
    using crypt_block_open[of example_aead 0 1 "[]" b1] b1(2) example_aead_correct by (auto simp: example_aead_def)
  have "src b2 = ciphertext b2" "view b2 (src b2) = replicate 16 1"
    using b2(2) by (auto simp: loaded_def set_up_def)
  then have "view b2 (ciphertext b2) = replicate 16 1" by simp
  then have c2: "crypt_block example_aead False b2 = Inl ErrOpen"
    by (simp add: crypt_block_def example_aead_def numeral_eq_Suc)
  show ?thesis
    using WriteTo_panics_after_write_error[OF reads w(3), of c1 ErrOpen "[]" 44 ErrShortWrite] c1 c2 w(1,2)
    by (intro exI[of _ pool] exI[of _ wt] exI[of _ s] exI[of _ "[]"] exI[of _ 44]) simp
qed

text \<open>
  C18: the buffers that circulate between the pool and the goroutines stay well-formed: every slice
  of a block that \<open>WriteTo\<close> sends on lies inside the array, and the buffer that \<open>writeLoop\<close> puts
  back after encryption or decryption is again fit for the pool, in either direction.
\<close>

theorem buffers_stay_well_formed:
  assumes "aead_correct a" "buffer_wf blk (pool (rgets st))"
    and "next_block pool enc st = (Full buf, st') \<or> next_block pool enc st = (Last buf, st')"
  shows "list_all (\<lambda>s. fst s \<le> snd s \<and> snd s \<le> length (full buf))
      [dst buf, nonce buf, plaintext buf, ciphertext buf, src buf, result buf] \<and>
    (\<forall>buf'. crypt_block a enc buf = Inr buf' \<longrightarrow> buffer_wf blk buf')"
proof -
  obtain p where up: "set_up blk enc p buf" using next_block_set_up[OF assms(2,3)] by blast
  have "plaintext buf = (NonceSize, NonceSize + p)" using up by (simp add: set_up_def)
  then show ?thesis
    using up crypt_block_wf[OF assms(1) up] by (auto simp: set_up_def buffer_wf_def)
qed

theorem buffers_stay_well_formed_witness:
  "\<exists>buf st'. next_block (\<lambda>i. newBuffer 4) True \<lparr>rnonce = 0, rsource = ([1, 2, 3, 4, 5], EOF), rgets = 0\<rparr> = (Full buf, st') \<and>
     snd (result buf) \<le> length (full buf) \<and>
     (\<forall>buf'. crypt_block example_aead True buf = Inr buf' \<longrightarrow> buffer_wf 4 buf')"
proof -
  let ?s = "\<lparr>rnonce = 0, rsource = ([1, 2, 3, 4, 5], EOF), rgets = 0\<rparr>"
  obtain buf where "next_block (\<lambda>i. newBuffer 4) True ?s = (Full buf, ?s\<lparr>rnonce := 1, rsource := ([5], EOF), rgets := 1\<rparr>)"
    using next_block_full[of 4 "\<lambda>i. newBuffer 4" ?s "[1, 2, 3, 4]" "[5]" EOF True 1] newBuffer_wf by auto
  with buffers_stay_well_formed[OF example_aead_correct, of 4 "\<lambda>i. newBuffer 4" ?s True buf] newBuffer_wf
  show ?thesis by force
qed

text \<open>
  The file header is 44 bytes long and reading it back gives the same header and leaves the rest
  of the file.
\<close>

theorem header_roundtrip:
  assumes "Header_Bytes h = Some bs" "length (the (hArgon2Salt h)) = 32"
  shows "length bs = 44 \<and> NewHeader (bs @ rest, fin) = (Inr h, 44, (rest, fin))"
  using Header_Bytes_read[OF assms] by (simp add: HeaderLen_def)

theorem header_roundtrip_witness:
  "\<exists>bs. Header_Bytes (zero_header\<lparr>hBlockKB := 9, hArgon2Salt := Some (replicate 32 5)\<rparr>) = Some bs \<and>
     fst (NewHeader (bs @ [1, 2], EOF)) = Inr (zero_header\<lparr>hBlockKB := 9, hArgon2Salt := Some (replicate 32 5)\<rparr>)"
  using header_roundtrip[of "zero_header\<lparr>hBlockKB := 9, hArgon2Salt := Some (replicate 32 5)\<rparr>" _ "[1, 2]" EOF]
  by (simp add: Header_Bytes_def)

end
