(* ===== verification/Backup.thy ===== *)
theory Backup
  imports Tgz Cryptofile
begin

text \<open>
  Encrypted backups of a directory, \<open>src/pkg/backup/backup.go\<close>: a goroutine packs the directory into one end of a pipe while the
  caller encrypts what comes out of the other end into the backup file; restoring is the other way round.
\<close>

datatype backup_error = TgzErr tgz_error | CryptoErr crypto_error | CopyErr string | ErrClosedPipe

section \<open>Restore\<close>

text \<open>
  What \<open>Restore\<close> does before it starts its goroutine: \<open>Inl\<close> when it returns there, \<open>Inr\<close> with what it goes on with. The
  source file is opened by \<open>os.Create\<close>.
\<close>

definition file_source :: "fs \<Rightarrow> string list \<Rightarrow> source" where
  "file_source fs p = (case fs p of Some (FFile _ b) \<Rightarrow> (b, EOF) | _ \<Rightarrow> ([], EOF))"

definition Restore_begin :: "argon2 \<Rightarrow> chacha_new \<Rightarrow> crypto_config \<Rightarrow> string \<Rightarrow> fs \<Rightarrow> (backup_error + writerTo) \<times> fs" where
  "Restore_begin IDKey New cc srcName fs =
     (case os_Create fs (abs_elems srcName) of
        Inl e \<Rightarrow> (Inl (TgzErr e), fs)
      | Inr fs \<Rightarrow>
          (case fst (NewDecryptWriterTo IDKey New cc (file_source fs (abs_elems srcName))) of
             Inl e \<Rightarrow> (Inl (CryptoErr e), fs)
           | Inr wt \<Rightarrow> (Inr wt, fs)))"

text \<open>
  Restoring always fails before it unpacks anything, and a backup that could be opened for writing is empty afterwards.
\<close>

theorem Restore_destroys_backup:
  assumes "fs (abs_elems srcName) = Some (FFile m b)" "creatable fs (abs_elems srcName)"
  shows "\<exists>e fs'. Restore_begin IDKey New cc srcName fs = (Inl e, fs') \<and> fs' (abs_elems srcName) = Some (FFile m [])"
proof -
  let ?fs = "fs(abs_elems srcName \<mapsto> FFile m [])"
  have "os_Create fs (abs_elems srcName) = Inr ?fs" using assms by (simp add: os_Create_def creatable_def)
  moreover have "\<exists>e. fst (NewDecryptWriterTo IDKey New cc ([], EOF)) = Inl e"
    by (simp add: NewDecryptWriterTo_def NewHeader_def ReadFull_def HeaderLen_def)
  ultimately show ?thesis by (auto simp: Restore_begin_def file_source_def)
qed

theorem Restore_destroys_backup_witness:
  "\<exists>e fs'. Restore_begin (\<lambda>_ _ _ _ _ _. None) (\<lambda>_. Inl []) \<lparr>Password = [1], BlockQueue = 1\<rparr> ''/h/a'' example_fs = (Inl e, fs') \<and>
     fs' [''h'', ''a''] = Some (FFile 420 [])"
proof -
  have a: "abs_elems ''/h/a'' = [''h'', ''a'']" by code_simp
  have "example_fs (abs_elems ''/h/a'') = Some (FFile 420 [1])" "creatable example_fs (abs_elems ''/h/a'')"
    unfolding a by (simp_all add: example_fs_def creatable_def is_dir_def)
  from Restore_destroys_backup[OF this] show ?thesis unfolding a by blast
qed

text \<open>
  The rest of \<open>Restore\<close>: a goroutine unpacks what comes out of a pipe while the caller decrypts the source into it. The
  unpacker reads \<open>need\<close> chunks of the pipe and then returns \<open>res\<close>; at the end of the pipe it returns an error. The
  caller has the chunks that \<open>WriteTo\<close> still writes, waits for the error of the goroutine, or has returned.
\<close>

datatype unpack_pc = Reading nat | Unpacked "backup_error option"
datatype restore_pc = Writing "bytes list" | AwaitErr | Restored "backup_error option"

record restore_state =
  unpacker :: unpack_pc
  restorer :: restore_pc
  wEnd :: bool
  rEnd :: bool
  restoreErr :: "backup_error option option"
  passed :: "bytes list"

definition restore_start :: "nat \<Rightarrow> bytes list \<Rightarrow> restore_state" where
  "restore_start need chunks =
     \<lparr>unpacker = Reading need, restorer = Writing chunks, wEnd = False, rEnd = False, restoreErr = None, passed = []\<rparr>"

inductive restore_step :: "backup_error option \<Rightarrow> bool \<Rightarrow> restore_state \<Rightarrow> restore_state \<Rightarrow> bool" for res failing where
  pass: "restorer s = Writing (c # cs) \<Longrightarrow> unpacker s = Reading (Suc k) \<Longrightarrow> \<not> rEnd s \<Longrightarrow>
    restore_step res failing s (s\<lparr>restorer := Writing cs, unpacker := Reading k, passed := passed s @ [c]\<rparr>)"
| unpack_end: "unpacker s = Reading 0 \<Longrightarrow>
    restore_step res failing s (s\<lparr>unpacker := Unpacked res, rEnd := (res \<noteq> None), restoreErr := Some res\<rparr>)"
| unpack_eof: "unpacker s = Reading (Suc k) \<Longrightarrow> wEnd s \<Longrightarrow>
    restore_step res failing s (s\<lparr>unpacker := Unpacked (Some (CopyErr ''unexpected EOF'')), rEnd := True,
      restoreErr := Some (Some (CopyErr ''unexpected EOF''))\<rparr>)"
| write_broken: "restorer s = Writing (c # cs) \<Longrightarrow> rEnd s \<Longrightarrow>
    restore_step res failing s (s\<lparr>restorer := Restored (Some ErrClosedPipe), wEnd := True\<rparr>)"
| decrypt_fails: "failing \<Longrightarrow> restorer s = Writing cs \<Longrightarrow>
    restore_step res failing s (s\<lparr>restorer := Restored (Some (CopyErr e)), wEnd := True\<rparr>)"
| write_end: "restorer s = Writing [] \<Longrightarrow> restore_step res failing s (s\<lparr>restorer := AwaitErr\<rparr>)"
| restore_end: "restorer s = AwaitErr \<Longrightarrow> restoreErr s = Some r \<Longrightarrow>
    restore_step res failing s (s\<lparr>restorer := Restored r, wEnd := True, restoreErr := None\<rparr>)"

text \<open>What holds while nothing fails.\<close>

definition restore_inv :: "nat \<Rightarrow> bytes list \<Rightarrow> restore_state \<Rightarrow> bool" where
  "restore_inv need chunks s \<longleftrightarrow> \<not> rEnd s \<and>
     (\<forall>cs. restorer s = Writing cs \<longrightarrow> passed s @ cs = chunks \<and> \<not> wEnd s) \<and> (restorer s = AwaitErr \<longrightarrow> passed s = chunks \<and> \<not> wEnd s) \<and>
     (\<forall>k. unpacker s = Reading k \<longrightarrow> length (passed s) + k = need \<and> restoreErr s = None \<and> \<not> wEnd s) \<and>
     (\<forall>r. unpacker s = Unpacked r \<longrightarrow> r = None \<and> length (passed s) = need \<and> (restoreErr s = None \<or> restoreErr s = Some None)) \<and>
     (\<forall>x. restorer s = Restored x \<longrightarrow> x = None \<and> passed s = chunks \<and> unpacker s = Unpacked None)"

interpretation restore: invariant_system "restore_step None False" "\<lambda>s. s = restore_start need chunks" "restore_inv need chunks"
  for need chunks
proof
  show "restore_inv need chunks s" if "s = restore_start need chunks" for s
    using that by (simp add: restore_inv_def restore_start_def)
  show "restore_inv need chunks t" if inv: "restore_inv need chunks s" and st: "restore_step None False s t" for s t
    using st inv by (elim restore_step.cases; cases "unpacker s") (auto simp: restore_inv_def)
qed

lemma restore_passes:
  assumes "restorer s = Writing chunks" "unpacker s = Reading (length chunks)" "\<not> rEnd s"
  shows "\<exists>t. reach (restore_step res failing) s t \<and> restorer t = Writing [] \<and> unpacker t = Reading 0"
  using assms
proof (induction chunks arbitrary: s)
  case (Cons c cs)
  let ?t = "s\<lparr>restorer := Writing cs, unpacker := Reading (length cs), passed := passed s @ [c]\<rparr>"
  have "restore_step res failing s ?t" using Cons.prems by (intro restore_step.pass) simp_all
  with Cons.IH[of ?t] Cons.prems show ?case by (auto intro: reach_first)
qed (auto intro: reach_refl)

text \<open>
  Even with a source that can be read, restoring returns only when the unpacker reads exactly as much as is written: the writing
  end is not closed before waiting for the unpacker, nor the reading end after unpacking, so one side waits for ever
  when the unpacker wants more or stops earlier (at the end of the archive, before the padding).
\<close>

theorem Restore_returns_iff:
  "(\<exists>s x. reach (restore_step None False) (restore_start need chunks) s \<and> restorer s = Restored x) \<longleftrightarrow> need = length chunks"
proof
  assume "\<exists>s x. reach (restore_step None False) (restore_start need chunks) s \<and> restorer s = Restored x"
  then show "need = length chunks" using restore.inv_reachable[OF refl] by (fastforce simp: restore_inv_def)
next
  assume n: "need = length chunks"
  let ?R = "restore_step None False"
  obtain a where a: "reach ?R (restore_start need chunks) a" "restorer a = Writing []" "unpacker a = Reading 0"
    using restore_passes[of "restore_start need chunks" chunks None False] n by (auto simp: restore_start_def)
  let ?b = "a\<lparr>unpacker := Unpacked None, rEnd := False, restoreErr := Some None\<rparr>"
  let ?c = "?b\<lparr>restorer := AwaitErr\<rparr>" let ?d = "?c\<lparr>restorer := Restored None, wEnd := True, restoreErr := None\<rparr>"
  have "?R a ?b" "?R ?b ?c" "?R ?c ?d"
    using restore_step.unpack_end[of a None False] restore_step.write_end[of ?b None False] restore_step.restore_end[of ?c None None False] a
    by simp_all
  then have "reach ?R (restore_start need chunks) ?d" using a(1) by (blast intro: reach_step)
  then show "\<exists>s x. reach ?R (restore_start need chunks) s \<and> restorer s = Restored x" by force
qed

section \<open>Backup\<close>

definition Backup_begin ::
  "argon2 \<Rightarrow> chacha_new \<Rightarrow> io_error + bytes \<Rightarrow> crypto_config \<Rightarrow> crypto_header option \<Rightarrow> string \<Rightarrow> source \<Rightarrow> fs \<Rightarrow>
    (backup_error + writerTo) \<times> fs" where
  "Backup_begin IDKey New rnd cc h dstName r fs =
     (case os_Create fs (abs_elems dstName) of
        Inl e \<Rightarrow> (Inl (TgzErr e), fs)
      | Inr fs \<Rightarrow>
          (case NewEncryptWriterTo IDKey New rnd cc h r of Inl e \<Rightarrow> (Inl (CryptoErr e), fs) | Inr wt \<Rightarrow> (Inr wt, fs)))"

text \<open>
  The goroutine that packs (the writes it still makes, or what it returned), the pipe, the channel of one error, and the caller:
  copying in \<open>WriteTo\<close>, waiting for the error of the goroutine, returned.
\<close>

datatype pack_pc = Packing "bytes list" | Packed "backup_error option"
datatype caller_pc = Copying | Waiting | Returned "backup_error option"

record backup_state =
  packer :: pack_pc
  caller :: caller_pc
  wClosed :: bool
  rClosed :: bool
  errCh :: "backup_error option option"
  received :: "bytes list"

text \<open>
  \<open>res\<close> is what \<open>TgzBuffer\<close> returns when all its writes succeed, \<open>failing\<close> whether \<open>WriteTo\<close> may end in an error of
  its own, \<open>closing\<close> the result of closing the backup file. \<open>WriteTo\<close> returns without an error only after it has read
  the end of its source, which a pipe reports once its writing end is closed.
\<close>

inductive backup_step :: "backup_error option \<Rightarrow> bool \<Rightarrow> backup_error option \<Rightarrow> backup_state \<Rightarrow> backup_state \<Rightarrow> bool"
  for res failing closing where
  transfer: "packer s = Packing (c # cs) \<Longrightarrow> caller s = Copying \<Longrightarrow> \<not> rClosed s \<Longrightarrow>
    backup_step res failing closing s (s\<lparr>packer := Packing cs, received := received s @ [c]\<rparr>)"
| pack_broken: "packer s = Packing (c # cs) \<Longrightarrow> rClosed s \<Longrightarrow>
    backup_step res failing closing s (s\<lparr>packer := Packed (Some ErrClosedPipe), wClosed := True, errCh := Some (Some ErrClosedPipe)\<rparr>)"
| pack_end: "packer s = Packing [] \<Longrightarrow>
    backup_step res failing closing s (s\<lparr>packer := Packed res, wClosed := (res \<noteq> None), errCh := Some res\<rparr>)"
| copy_fails: "failing \<Longrightarrow> caller s = Copying \<Longrightarrow>
    backup_step res failing closing s (s\<lparr>caller := Returned (Some (CopyErr e)), rClosed := True\<rparr>)"
| copy_end: "caller s = Copying \<Longrightarrow> wClosed s \<Longrightarrow> backup_step res failing closing s (s\<lparr>caller := Waiting\<rparr>)"
| got_error: "caller s = Waiting \<Longrightarrow> errCh s = Some r \<Longrightarrow>
    backup_step res failing closing s
      (s\<lparr>caller := Returned (case r of Some e \<Rightarrow> Some e | None \<Rightarrow> closing), rClosed := True, errCh := None\<rparr>)"

definition backup_start :: "bytes list \<Rightarrow> backup_state" where
  "backup_start chunks = \<lparr>packer = Packing chunks, caller = Copying, wClosed = False, rClosed = False, errCh = None, received = []\<rparr>"

definition backup_inv :: "backup_error option \<Rightarrow> bool \<Rightarrow> bytes list \<Rightarrow> backup_state \<Rightarrow> bool" where
  "backup_inv res failing chunks s \<longleftrightarrow>
     (\<forall>cs. packer s = Packing cs \<longrightarrow> \<not> wClosed s \<and> errCh s = None \<and> received s @ cs = chunks) \<and>
     (\<forall>r. packer s = Packed r \<longrightarrow> (wClosed s \<longleftrightarrow> r \<noteq> None) \<and> (errCh s = Some r \<or> errCh s = None \<and> (\<exists>x. caller s = Returned x)) \<and>
        (r = res \<or> rClosed s)) \<and>
     (caller s = Waiting \<longrightarrow> wClosed s) \<and> (\<forall>r. caller s = Returned r \<longrightarrow> r \<noteq> None) \<and>
     (\<not> failing \<longrightarrow> res = None \<longrightarrow> caller s = Copying \<and> \<not> wClosed s \<and> \<not> rClosed s)"

interpretation backup: invariant_system "backup_step res failing closing" "\<lambda>s. s = backup_start chunks" "backup_inv res failing chunks"
  for res failing closing chunks
proof
  show "backup_inv res failing chunks s" if "s = backup_start chunks" for s
    using that by (simp add: backup_inv_def backup_start_def)
  show "backup_inv res failing chunks t" if "backup_inv res failing chunks s" "backup_step res failing closing s t" for s t
    using that(2,1) by (cases "packer s"; cases rule: backup_step.cases) (auto simp: backup_inv_def split: option.splits)
qed

text \<open>
  \<open>Backup\<close> never reports success: whatever it returns is an error. When the directory was packed without an error and
  encrypting does not fail, it never returns at all, because the writing end of the pipe is closed only after an error.
\<close>

theorem Backup_never_succeeds:
  assumes "reach (backup_step res failing closing) (backup_start chunks) s"
  shows "(\<forall>r. caller s = Returned r \<longrightarrow> r \<noteq> None) \<and> (res = None \<longrightarrow> \<not> failing \<longrightarrow> caller s = Copying)"
proof -
  have inv: "backup_inv res failing chunks s" using backup.inv_reachable[OF refl assms] .
  then show ?thesis by (simp add: backup_inv_def)
qed

theorem Backup_never_succeeds_witness:
  "\<exists>s. reach (backup_step None False None) (backup_start [[1]]) s \<and> packer s = Packed None \<and> received s = [[1]] \<and> caller s = Copying"
proof -
  let ?a = "backup_start [[1]]"
  let ?b = "?a\<lparr>packer := Packing [], received := [[1]]\<rparr>"
  let ?c = "?b\<lparr>packer := Packed None, errCh := Some None\<rparr>"
  have st: "backup_step None False None ?a ?b" "backup_step None False None ?b ?c"
    using backup_step.transfer[of ?a "[1]" "[]" None False None] backup_step.pack_end[of ?b None False None]
    by (simp_all add: backup_start_def)
  have r: "reach (backup_step None False None) ?a ?c" by (rule reach_step, rule reach_step, rule reach_refl) (rule st)+
  from Backup_never_succeeds[OF r] r show ?thesis by (intro exI[of _ ?c]) simp
qed

text \<open>What the goroutine gets from \<open>TgzBuffer\<close>; a directory that can be packed is never backed up.\<close>

definition tgz_result :: "tgz_env \<Rightarrow> string \<Rightarrow> backup_error option" where
  "tgz_result E root = (case fst (TgzBuffer E root) of TgzRet e \<Rightarrow> map_option TgzErr e | TgzPanic \<Rightarrow> None)"

lemma Backup_hangs:
  assumes "list_all plain_elem r" "reads_dir E fs r files"
    and "reach (backup_step (tgz_result E (abs_path r)) False closing) (backup_start chunks) s"
  shows "caller s = Copying"
proof -
  have "tgz_result E (abs_path r) = None" by (simp add: tgz_result_def TgzBuffer_files[OF assms(1,2)])
  with backup.inv_reachable[OF refl assms(3)] show ?thesis by (simp add: backup_inv_def)
qed

end
