(* ===== verification/Spec2Isabelle.thy ===== *)
theory Spec2Isabelle
  imports StreamListener Interrupts HeaderClone ContextCopy Commands ServerStop Backup
begin

text \<open>
  Verification of \<open>hybrid\<close> (\<open>github.com/empirefox/hybrid\<close>), a proxy whose nodes reach each other over IPFS streams.

  \<^bold>\<open>The program.\<close> A client speaks HTTP to a node over a plain connection. The node looks at the host name: names under \<open>.hybrid\<close>
  are a route of nodes (\<open>src/pkg/domain\<close>), other names go through the node's routers (\<open>src/pkg/proxy\<close>), and the request is
  answered from an archive of files (\<open>src/pkg/zipfs\<close>), another proxy, directly, or by the next node, with the
  copying and response writing of \<open>src/pkg/netutil\<close> under the contexts of \<open>src/pkg/core\<close>. A node is built from its
  configuration (\<open>src/node\<close>, \<open>src/config\<close>) and lets in the peers that show a token (\<open>src/pkg/auth\<close>) signed for a key in its store
  (\<open>src/pkg/authstore\<close>, over badger). It runs an IPFS node of its own (\<open>src/pkg/ipfs\<close>). A control server (\<open>src/grpc\<close>) starts
  and stops the service, binds listeners and manages keys. Backups are archives (\<open>src/pkg/backup\<close>) encrypted block by block
  (\<open>src/pkg/cryptofile\<close>). \<open>src/cmd\<close> and \<open>src/gomobile\<close> are the entry points.

  \<^bold>\<open>The theories\<close>, in the order in which they build on each other:

  \<^item> \<open>GoLib\<close>, \<open>GoNet\<close>, \<open>GoPath\<close>: what the program uses of Go: strings, big-endian integers, results with errors, addresses and headers,
    file paths; the contracts \<open>fixed_codec\<close> (a codec of fixed width, interpreted for 16, 32 and 64 bits) and
    \<open>invariant_system\<close> (a step relation with an inductive invariant, interpreted for every concurrent component).
  \<^item> \<open>HybridDomain\<close> (\<open>domain.go\<close>): parsing of host names. Following the names a node computes visits the route in
    order and always ends.
  \<^item> \<open>Netutil\<close>: the accept loop with its back-off, copying with flushing, and the two response writers: the head is written once, the
    bytes are those of the source, and when copying panics.
  \<^item> \<open>CryptoPipeline\<close>, \<open>Cryptofile\<close>: \<open>WriteTo\<close> as three goroutines around a pool of buffers and two channels, then its
    instance for encryption. Every run ends, writes only prefixes of the right output, and a decrypted file is
    the original, for every scheduling and every stale content of the pool.
  \<^item> \<open>HeaderClone\<close>: cloning of requests, over an explicit store of maps and arrays: what is written through the clone's header
    never shows in the original's.
  \<^item> \<open>Bufpool\<close>, \<open>ContextCopy\<close>: the pools of buffers, and the copying of \<open>src/pkg/core\<close> and \<open>src/pkg/utils\<close> with them: all bytes arrive and
    the pool stays fit for use.
  \<^item> \<open>Zipfs\<close>, \<open>Core\<close>, \<open>Proxies\<close>, \<open>Hops\<close>: packing files and serving them through the file server of \<open>net/http\<close>; every way of answering a request; routers with their caches (equal to
    fresh ones after any history); and whole routes: a request passes the nodes in order and is handled by the last.
  \<^item> \<open>Keystore\<close>, \<open>KeystoreSpec\<close>: the key store over badger with its key buffers; the abstract \<open>vault\<close> (a map from ids to keys with a
    place for meta data) and the refinement of it by every operation. Badger and protobuf are parameters with the laws \<open>env_ok\<close>;
    \<open>mem_env\<close> is an instance of them.
  \<^item> \<open>Auth\<close>: issuing and verifying tokens, base64 and hexadecimal. The JOSE library is a parameter.
  \<^item> \<open>IpfsRepo\<close>, \<open>IpfsHttp\<close>, \<open>ListenDialer\<close>, \<open>Ipfs\<close>: the IPFS repository (creating, migrating, unlocking), its HTTP handlers, the in-memory
    listener with its pipes and addresses, and the daemon going on and off line with its stream listeners. go-ipfs is a parameter.
  \<^item> \<open>StreamListener\<close>: a stream listener with the goroutines of its streams, as a transition system that refines the function \<open>Accept\<close>
    of \<open>Ipfs\<close>; and \<open>Core.Serve\<close>, the accept loop over it.
  \<^item> \<open>Node\<close>, \<open>Listeners\<close>: building a node from a configuration, with its stream listeners at the IPFS node; its other listeners
    and their goroutines.
  \<^item> \<open>Config\<close>: the tree of files of a node, loading the configuration, and the IPFS node made from it.
  \<^item> \<open>Zapsuit\<close>: the choice of a log target.
  \<^item> \<open>ServiceStart\<close> (\<open>service.go\<close>): starting a service, which composes all of the above; what holds of a started one; that the deferred functions release, in
    the opposite order, what they are there for when starting fails, and what a failed start leaves open all the same (the archives of
    \<open>archives_left_open\<close>, registered listeners, a daemon).
  \<^item> \<open>GrpcServer\<close>, \<open>ServerStop\<close>: the handlers of the control server, and waiting for the end of a service, with the mutex.
  \<^item> \<open>Tgz\<close>, \<open>Backup\<close>: archives of a directory, and encrypted backups: \<open>Backup\<close> and \<open>Restore\<close> with their goroutines and pipes, and when
    they return.
  \<^item> \<open>Interrupts\<close>: the signal handler of \<open>src/cmd/hybrid\<close> and its shutdown, with the signals that can still arrive.
  \<^item> \<open>Commands\<close>: the entry points and the tools that make keys, tokens and archives.
  \<^item> This theory: who gets in. The listener's admission check, the accept loop, the tokens and the key store together.

  \<^bold>\<open>How code becomes definitions.\<close> A struct is a record, a tagged choice a datatype. A call that returns an error is a sum with the
  error on the left; a panic is an outcome of its own (\<open>None\<close>, \<open>IPanic\<close>, \<open>TgzPanic\<close>, an event) where the code can panic. State is passed
  explicitly; goroutines, channels and mutexes are inductive step relations over a record of all of them. Machine integers are words
  where they can wrap. What is read (files, connections, the results of third-party libraries) is an argument, and
  what is written is a list of events or bytes.

  \<^bold>\<open>Fuel and bounds.\<close> Loops are structural recursion or have a termination proof. The only fuel is that of \<open>walk\<close> and \<open>follow\<close>, which
  follow a request from node to node: \<open>walk_terminates\<close> bounds it by the length of the host name, and \<open>walk_more_fuel\<close> shows that more
  changes nothing. Runs of the transition systems are unbounded.

  \<^bold>\<open>Not modelled\<close>: generated code (\<open>grpc.pb.go\<close>, \<open>config.pb.go\<close>); http2, TLS, gRPC and the JSON, badger, JOSE, argon2, ChaCha20 and
  go-ipfs libraries, which are parameters; logging; the goroutine of \<open>Core.Proxy\<close> that watches \<open>CloseNotify\<close> and cancels a context no request has; the goroutines
  of the entry points that only call \<open>ServeGrpc\<close> or print.
\<close>

section \<open>Who gets in: listeners, tokens and keys\<close>

text \<open>
  The check a node installs on its stream listeners (\<open>New\<close> of \<open>src/node/node.go\<close>): the remote peer's id and the
  token in the stream's protocol go to the verifier over the key store (\<open>src/grpc/verify.go\<close>).
\<close>

definition string_bytes :: "string \<Rightarrow> bytes" where
  "string_bytes s = map (\<lambda>c. of_nat (of_char c)) s"

definition admission ::
  "('signer, 'tok) jose \<Rightarrow> ('db, 'seq) ks_env \<Rightarrow> 64 word \<Rightarrow> 'db KeyStore \<Rightarrow> string \<times> string \<Rightarrow> bool option \<times> 'db KeyStore" where
  "admission J E now s st = HybridVerify J E now s (string_bytes (fst st))
     (string_bytes (TrimPrefix (snd st) (HybridIpfsProtocol @ PathTokenPrefix)))"

lemma Find_keeps:
  assumes "ks_inv E V s" "Find E s i = (r, s')"
  shows "ks_inv E V s' \<and> abs_keys E V s' = abs_keys E V s"
proof (cases "i = 0")
  case False
  from assms(1) obtain kp where "with_key s i = (skey s i, s\<lparr>keypool := kp\<rparr>)" "ks_wf (s\<lparr>keypool := kp\<rparr>)"
    unfolding ks_inv_def by (blast elim: with_key_ok)
  with assms False have "s' = s\<lparr>keypool := kp\<rparr>" "ks_inv E V s'" by (auto simp: Find_def ks_inv_upd)
  then show ?thesis using ks_abs_keypool[where E = E and V = V and s = s and kp = kp] by (metis abs_keys_conv)
qed (use assms in \<open>simp add: Find_def\<close>)

lemma HybridVerify_keeps:
  assumes "ks_inv E V s" "HybridVerify J E now s peer token = (r, s')"
  shows "ks_inv E V s' \<and> abs_keys E V s' = abs_keys E V s"
proof -
  have g: "ks_inv E V t \<and> abs_keys E V t = abs_keys E V s" if "NewVerifier E now s keyid = (x, t)" for keyid x t
    using that assms(1) Find_keeps[OF assms(1)]
    by (auto simp: NewVerifier_def GetKey_def split: prod.splits sum.splits if_splits)
  obtain v where "Verify J (NewVerifier E now) now s peer token = (v, s')"
    using assms(2) by (auto simp: HybridVerify_def map_prod_def split: prod.splits)
  then show ?thesis using assms(1) g
    by (auto simp: Verify_def split: sum.splits list.splits if_splits option.splits prod.splits)
qed

text \<open>
  C3: every connection a node serves from one of its stream listeners, over any sequence of streams arriving, is that of a
  peer who has shown a token that is signed, with EdDSA, by the holder of the private key of a verification key in the
  node's store, and whose claims name this peer and are valid now.
\<close>

theorem served_peers_authenticated:
  assumes E: "env_ok E V" and s: "ks_inv E V s"
    and served: "ServeConn (peer, protocol) \<in> set (Core_Serve (Some (admission J E now)) s evs)"
  shows "\<exists>tok h hs keyid ak claims.
       ParseSigned J (bytes_string (string_bytes (TrimPrefix protocol (HybridIpfsProtocol @ PathTokenPrefix)))) = Inr tok \<and>
       Headers J tok = h # hs \<and> hAlgorithm h = EdDSA \<and> RawURL_DecodeString (hKeyID h) = Some keyid \<and>
       abs_keys E V s (Uint64 keyid) = Some ak \<and> TokClaims J tok (Key ak) = Inr claims \<and>
       Validate J claims [bytes_string (string_bytes peer)] now = None"
proof -
  let ?P = "\<lambda>t. ks_inv E V t \<and> abs_keys E V t = abs_keys E V s"
  have keep: "?P t2" if "?P t" "admission J E now t x = (b, t2)" for t x b t2
    using that HybridVerify_keeps unfolding admission_def by metis
  have "\<exists>t t2. ?P t \<and> admission J E now t (peer, protocol) = (Some True, t2)"
    by (rule Core_Serve_admitted[where P = ?P, OF served]) (use s keep in blast)+
  then obtain t t2 where t: "?P t" "admission J E now t (peer, protocol) = (Some True, t2)" by blast
  then have "fst (HybridVerify J E now t (string_bytes peer) (string_bytes (TrimPrefix protocol (HybridIpfsProtocol @ PathTokenPrefix)))) = Some True"
    by (simp add: admission_def)
  from HybridVerify_accepts[OF E _ this] t(1) show ?thesis by metis
qed

theorem served_peers_authenticated_witness:
  "ServeConn (''A'', ''/hybrid/1.0/token/t'') \<in> set (Core_Serve (Some (admission example_jose mem_env 150)) (snd example_saved)
       [Incoming (''B'', ''/hybrid/1.0/token/t''), Incoming (''A'', ''/hybrid/1.0/token/t'')]) \<and>
   (\<exists>tok keyid ak. ParseSigned example_jose ''t'' = Inr tok \<and> abs_keys mem_env mem_view (snd example_saved) (Uint64 keyid) = Some ak)"
proof -
  let ?evs = "[Incoming (''B'', ''/hybrid/1.0/token/t''), Incoming (''A'', ''/hybrid/1.0/token/t'')]"
  have a: "fst (Accept (Some (admission example_jose mem_env 150)) (snd example_saved) ?evs) = Conn (''A'', ''/hybrid/1.0/token/t'')"
    by code_simp
  then obtain s' cl rest where "Accept (Some (admission example_jose mem_env 150)) (snd example_saved) ?evs =
    (Conn (''A'', ''/hybrid/1.0/token/t''), s', cl, rest)" by (metis fst_conv prod_cases4)
  then have "ServeConn (''A'', ''/hybrid/1.0/token/t'') \<in> set (Core_Serve (Some (admission example_jose mem_env 150)) (snd example_saved) ?evs)"
    by (simp add: Core_Serve_def accept_all.simps[of _ _ ?evs] del: Accept.simps)
  moreover have "bytes_string (string_bytes (TrimPrefix ''/hybrid/1.0/token/t'' (HybridIpfsProtocol @ PathTokenPrefix))) = ''t''" by code_simp
  ultimately show ?thesis using served_peers_authenticated[OF mem_env_ok example_saved_inv] by fastforce
qed

end
